(* ===== verification/Prelude.thy ===== *)
theory Prelude
  imports Main "HOL-Library.AList" "HOL-Library.Word"
begin

text \<open>
  Shared vocabulary of the development.

  The web application is TypeScript, so this theory fixes how the values of the language
  are read:
  \<^item> an integer-valued \<open>number\<close> is an \<open>int\<close> (or a \<open>nat\<close> when it is a count or an index);
    the 32-bit operators of the language are taken at \<open>32 word\<close> where the code uses them;
  \<^item> a \<open>Map\<close> iterates in insertion order and \<open>set\<close> on a present key keeps its
    place: an association list with \<^const>\<open>map_of\<close> and \<^const>\<open>AList.update\<close>;
  \<^item> \<open>throw\<close> and a \<open>TypeError\<close> are the left side of a sum;
  \<^item> \<open>Array.prototype.sort\<close> is stable: \<^const>\<open>sort_key\<close>;
  \<^item> a string is a list of 8-bit characters (the Latin-1 part of the code units).
\<close>

named_theorems engine_simps "unfolding rules for the tournament engine"
named_theorems keeps "an operation keeps a part of the state"

section \<open>Results that may fail\<close>

type_synonym ('e, 'a) result = "'e + 'a"

definition bind_result :: "('e, 'a) result \<Rightarrow> ('a \<Rightarrow> ('e, 'b) result) \<Rightarrow> ('e, 'b) result" where
  "bind_result r f = (case r of Inl e \<Rightarrow> Inl e | Inr a \<Rightarrow> f a)"

lemma bind_result_simps [simp]:
  "bind_result (Inl e) f = Inl e"
  "bind_result (Inr a) f = f a"
  by (simp_all add: bind_result_def)

lemma bind_result_eq_Inr:
  "bind_result r f = Inr b \<longleftrightarrow> (\<exists>a. r = Inr a \<and> f a = Inr b)"
  by (cases r) simp_all

text \<open>A loop over a list whose body may throw: the first failure leaves the loop.\<close>

fun fold_result :: "('a \<Rightarrow> 's \<Rightarrow> ('e, 's) result) \<Rightarrow> 'a list \<Rightarrow> 's \<Rightarrow> ('e, 's) result" where
  "fold_result f [] s = Inr s"
| "fold_result f (x # xs) s = bind_result (f x s) (fold_result f xs)"

lemma fold_result_append:
  "fold_result f (xs @ ys) s = bind_result (fold_result f xs s) (fold_result f ys)"
proof (induction xs arbitrary: s)
  case (Cons x xs)
  then show ?case by (cases "f x s") simp_all
qed simp

text \<open>The Hoare rule of such a loop: an invariant of the body is an invariant of the loop.\<close>

lemma fold_result_invariant:
  assumes "fold_result f xs s = Inr s'" and "P s"
    and "\<And>x s s'. x \<in> set xs \<Longrightarrow> P s \<Longrightarrow> f x s = Inr s' \<Longrightarrow> P s'"
  shows "P s'"
  using assms
proof (induction xs arbitrary: s)
  case (Cons x xs)
  from Cons.prems(1) obtain s1 where s1: "f x s = Inr s1" "fold_result f xs s1 = Inr s'"
    by (auto simp: bind_result_eq_Inr)
  from Cons.prems(2) s1(1) have "P s1" by (rule Cons.prems(3) [OF list.set_intros(1)])
  show ?case
    by (rule Cons.IH [OF s1(2) \<open>P s1\<close>]) (erule (2) Cons.prems(3) [OF list.set_intros(2)])
qed simp

lemma fold_result_total:
  assumes "P s"
    and "\<And>x s. x \<in> set xs \<Longrightarrow> P s \<Longrightarrow> \<exists>s'. f x s = Inr s' \<and> P s'"
  shows "\<exists>s'. fold_result f xs s = Inr s' \<and> P s'"
  using assms
proof (induction xs arbitrary: s)
  case (Cons x xs)
  from Cons.prems obtain s1 where s1: "f x s = Inr s1" "P s1" by fastforce
  from s1(2) Cons.prems(2) have "\<exists>s'. fold_result f xs s1 = Inr s' \<and> P s'"
    by (intro Cons.IH) simp_all
  with s1 show ?case by simp
qed simp

section \<open>Association lists as insertion-ordered maps\<close>

lemma map_of_map_entry:
  "map_of (AList.map_entry k f mm) x =
     (if x = k then map_option f (map_of mm k) else map_of mm x)"
  by (induction mm) auto

lemma keys_map_entry [simp]: "map fst (AList.map_entry k f mm) = map fst mm"
  by (induction mm) auto

lemma length_map_entry [simp]: "length (AList.map_entry k f mm) = length mm"
  by (induction mm) auto

lemma set_map_entry_distinct:
  assumes "distinct (map fst mm)"
  shows "set (AList.map_entry k f mm) =
    (\<lambda>(x, v). (x, if x = k then f v else v)) ` set mm"
  using assms
proof (induction mm)
  case (Cons p mm)
  obtain x v where p: "p = (x, v)" by force
  have "x = k \<Longrightarrow> (\<lambda>(y, w). (y, if y = k then f w else w)) ` set mm = set mm"
    using Cons.prems p by (force simp: image_iff)
  with Cons p show ?case by auto
qed simp

lemma map_entry_as_map:
  "distinct (map fst mm) \<Longrightarrow>
     AList.map_entry k f mm = map (\<lambda>(x, v). (x, if x = k then f v else v)) mm"
proof (induction mm)
  case (Cons p mm)
  obtain x v where p: "p = (x, v)" by force
  have "x = k \<Longrightarrow> map (\<lambda>(y, w). (y, if y = k then f w else w)) mm = mm"
    using Cons.prems p by (intro map_idI) force
  with Cons p show ?case by simp
qed simp

lemma update_fresh:
  "k \<notin> fst ` set mm \<Longrightarrow> AList.update k v mm = mm @ [(k, v)]"
  by (induction mm) auto

lemma foldl_update_keys:
  assumes "distinct (map f xs)" "set (map f xs) \<inter> fst ` set al = {}"
  shows "foldl (\<lambda>al x. AList.update (f x) (g x) al) al xs = al @ map (\<lambda>x. (f x, g x)) xs"
  using assms
proof (induction xs arbitrary: al)
  case (Cons x xs)
  have "AList.update (f x) (g x) al = al @ [(f x, g x)]" by (rule update_fresh) (use Cons.prems in auto)
  moreover have "foldl (\<lambda>al x. AList.update (f x) (g x) al) (al @ [(f x, g x)]) xs =
      (al @ [(f x, g x)]) @ map (\<lambda>x. (f x, g x)) xs"
    by (rule Cons.IH) (use Cons.prems in auto)
  ultimately show ?case by simp
qed simp

lemma map_of_snd_in: "map_of mm k = Some v \<Longrightarrow> v \<in> snd ` set mm"
  by (force dest: map_of_SomeD)

section \<open>Lists\<close>

text \<open>A fold over a list that only ever appends is a \<^const>\<open>map\<close>.\<close>

lemma foldl_snoc_map: "foldl (\<lambda>acc x. acc @ [f x]) acc xs = acc @ map f xs"
  by (induction xs arbitrary: acc) simp_all

lemma find_Some_iff_hd:
  "List.find P xs = Some x \<Longrightarrow> x \<in> set xs \<and> P x"
  by (auto simp: find_Some_iff)

lemma set_map_filter_Some: "set (List.map_filter f xs) = {y. \<exists>x \<in> set xs. f x = Some y}"
  by (induction xs) (auto simp: map_filter_simps split: option.split)

lemma map_filter_Nil_iff: "List.map_filter f xs = [] \<longleftrightarrow> (\<forall>x \<in> set xs. f x = None)"
  by (induction xs) (auto simp: map_filter_simps split: option.split)

lemma map_filter_cong:
  "(\<And>x. x \<in> set xs \<Longrightarrow> f x = g x) \<Longrightarrow> List.map_filter f xs = List.map_filter g xs"
  by (induction xs) (auto simp: map_filter_simps split: option.split)

lemma map_filter_concat:
  "List.map_filter f (concat xss) = concat (map (List.map_filter f) xss)"
  by (induction xss) (simp_all add: map_filter_def)

lemma map_filter_map: "List.map_filter f (map g xs) = List.map_filter (\<lambda>x. f (g x)) xs"
  by (simp add: map_filter_def comp_def filter_map)

lemma distinct_map_filter:
  assumes "distinct xs"
    and "\<And>x y a b. x \<in> set xs \<Longrightarrow> y \<in> set xs \<Longrightarrow> f x = Some a \<Longrightarrow> f y = Some b \<Longrightarrow> g a = g b \<Longrightarrow> x = y"
  shows "distinct (map g (List.map_filter f xs))"
  using assms
proof (induction xs)
  case (Cons x xs)
  have "distinct (map g (List.map_filter f xs))" by (rule Cons.IH) (use Cons.prems in auto)
  moreover have "g a \<notin> g ` set (List.map_filter f xs)" if "f x = Some a" for a
  proof
    assume "g a \<in> g ` set (List.map_filter f xs)"
    then obtain y b where "y \<in> set xs" "f y = Some b" "g a = g b"
      by (auto simp: set_map_filter_Some)
    with that Cons.prems(2) [of x y a b] have "x = y" by simp
    with \<open>y \<in> set xs\<close> Cons.prems(1) show False by simp
  qed
  ultimately show ?case by (simp add: map_filter_simps split: option.split)
qed (simp add: map_filter_simps)

lemma sum_list_map_update:
  "i < length xs \<Longrightarrow> sum_list (map f (xs[i := x])) + f (xs ! i) = sum_list (map f xs) + (f x :: nat)"
  using elem_le_sum_list [of i "map f xs"] by (simp add: map_update sum_list_update)

lemma length_filter_sum:
  "length (filter P xs) = sum_list (map (\<lambda>x. if P x then 1 else 0) xs)"
  by (induction xs) simp_all

lemma int_upt_distinct: "distinct (map (\<lambda>i. s + int i) [a..<b])"
  by (simp add: distinct_map inj_on_def)

section \<open>Characters and strings\<close>

text \<open>White space of \<open>trim\<close>, restricted to 8-bit characters.\<close>

definition js_space :: "char \<Rightarrow> bool" where
  "js_space c \<longleftrightarrow> (of_char c :: nat) \<in> {9, 10, 11, 12, 13, 32, 160}"

definition trim :: "string \<Rightarrow> string" where
  "trim s = rev (dropWhile js_space (rev (dropWhile js_space s)))"

text \<open>Case folding on 8-bit characters: the Latin capital letters move by 32.\<close>

definition lower_char :: "char \<Rightarrow> char" where
  "lower_char c =
     (let n = of_char c :: nat
      in if (65 \<le> n \<and> n \<le> 90) \<or> (192 \<le> n \<and> n \<le> 222 \<and> n \<noteq> 215)
         then char_of (n + 32) else c)"

definition toLowerCase :: "string \<Rightarrow> string" where
  "toLowerCase s = map lower_char s"

lemma lower_char_idem [simp]: "lower_char (lower_char c) = lower_char c"
proof -
  have bound: "n \<le> 222 \<Longrightarrow> (of_char (char_of (n + 32) :: char) :: nat) = n + 32" for n
    by (simp add: of_char_of take_bit_eq_mod)
  show ?thesis
    by (auto simp: lower_char_def Let_def bound)
qed

lemma toLowerCase_idem [simp]: "toLowerCase (toLowerCase s) = toLowerCase s"
  by (simp add: toLowerCase_def)

text \<open>The decimal text of an integer, as a template literal prints it.\<close>

fun show_nat :: "nat \<Rightarrow> string" where
  "show_nat n =
     (if n < 10 then [char_of (48 + n)] else show_nat (n div 10) @ [char_of (48 + n mod 10)])"

declare show_nat.simps [simp del]

definition show_int :: "int \<Rightarrow> string" where
  "show_int i = (if i < 0 then CHR ''-'' # show_nat (nat (- i)) else show_nat (nat i))"

end
