(* ===== verification/Seeding.thy ===== *)
theory Seeding
  imports Prelude
begin

text \<open>
  Standard bracket seeding by bit reversal, \<open>web/src/lib/engine/seeding.ts\<close>.
  The code works on 32-bit integers (\<open><<\<close>, \<open>>>\<close>, \<open>|\<close>, \<open>&\<close>, \<open>>>>\<close>), so
  the model does: a shift that leaves the 32 bits is visible here.
\<close>

unbundle bit_operations_syntax

section \<open>The functions of the source\<close>

text \<open>The body of the loop of \<open>bitReverse\<close>: \<open>v\<close> is shifted arithmetically.\<close>

fun bit_reverse_loop :: "nat \<Rightarrow> 32 word \<Rightarrow> 32 word \<Rightarrow> 32 word" where
  "bit_reverse_loop 0 r v = r"
| "bit_reverse_loop (Suc k) r v =
     bit_reverse_loop k (push_bit 1 r OR (v AND 1)) (signed_drop_bit 1 v)"

definition bitReverse :: "nat \<Rightarrow> nat \<Rightarrow> nat" where
  "bitReverse x k = unat (bit_reverse_loop k 0 (of_nat x))"

text \<open>
  \<open>Math.log2\<close> is only used as a loop bound: \<open>i < Math.log2(size)\<close>. The number of
  iterations of such a loop is the logarithm rounded up, 0 for sizes up to 1.
\<close>

fun log2_iters :: "nat \<Rightarrow> nat" where
  "log2_iters sz = (if sz \<le> 1 then 0 else Suc (log2_iters ((sz + 1) div 2)))"

declare log2_iters.simps [simp del]

definition seedSlots :: "nat \<Rightarrow> nat list" where
  "seedSlots sz = map (\<lambda>s. bitReverse (s - 1) (log2_iters sz)) [1..<Suc sz]"

text \<open>
  \<open>while (p < n) p <<= 1\<close> on a 32-bit \<open>p\<close>. The loop may not end (see
  \<open>nextPow2_diverges\<close>), so not returning is a value.
\<close>

partial_function (option) next_pow2_loop :: "int \<Rightarrow> 32 word \<Rightarrow> int option" where
  "next_pow2_loop n p =
     (if sint p < n then next_pow2_loop n (push_bit 1 p) else Some (sint p))"

declare next_pow2_loop.simps [code]

definition nextPow2 :: "int \<Rightarrow> int option" where
  "nextPow2 n = next_pow2_loop n 1"

section \<open>Bit reversal\<close>

lemma bit_reverse_loop_bit:
  "k \<le> 32 \<Longrightarrow> i < 32 \<Longrightarrow>
     bit (bit_reverse_loop k r v) i =
       (if i < k then bit v (k - 1 - i) else bit r (i - k))"
proof (induction k arbitrary: r v)
  case (Suc k)
  have v1: "bit (signed_drop_bit 1 v :: 32 word) j = bit v (Suc j)" if "Suc j < 32" for j
    using that by (simp add: bit_signed_drop_bit_iff)
  have r1: "bit (push_bit 1 r OR (v AND 1) :: 32 word) j = (if j = 0 then bit v 0 else bit r (j - 1))"
    if "j < 32" for j
    using that by (cases j) (auto simp: bit_or_iff bit_push_bit_iff bit_and_iff bit_1_iff simp del: push_bit_Suc One_nat_def)
  have IH: "bit (bit_reverse_loop (Suc k) r v) i =
      (if i < k then bit (signed_drop_bit 1 v :: 32 word) (k - 1 - i)
       else bit (push_bit 1 r OR (v AND 1)) (i - k))"
    using Suc by simp
  consider "i < k" | "i = k" | "k < i" by linarith
  then show ?case
  proof cases
    case 1
    then have "Suc (k - 1 - i) = k - i" by simp
    with 1 Suc.prems v1 [of "k - 1 - i"] show ?thesis unfolding IH by simp
  next
    case 2
    with r1 [of 0] show ?thesis unfolding IH by simp
  next
    case 3
    with Suc.prems r1 [of "i - k"] show ?thesis
      unfolding IH by (simp add: Suc_diff_le not_less_eq)
  qed
qed simp

lemma bitReverse_bit:
  assumes "k \<le> 32"
  shows "bit (bitReverse x k) i \<longleftrightarrow> i < k \<and> bit x (k - 1 - i)"
proof (cases "i < 32")
  case True
  with assms show ?thesis
    by (auto simp: bitReverse_def bit_unsigned_iff bit_reverse_loop_bit bit_of_nat_iff possible_bit_def exp_eq_zero_iff)
next
  case False
  with assms show ?thesis
    by (auto simp: bitReverse_def bit_unsigned_iff dest: bit_imp_le_length)
qed

lemma bitReverse_less:
  assumes "k \<le> 32"
  shows "bitReverse x k < 2 ^ k"
proof -
  have "take_bit k (bitReverse x k) = bitReverse x k"
    by (rule bit_eqI) (auto simp: bit_take_bit_iff bitReverse_bit assms)
  then show ?thesis by (metis take_bit_nat_less_exp)
qed

lemma bitReverse_bitReverse:
  assumes "k \<le> 32" "x < 2 ^ k"
  shows "bitReverse (bitReverse x k) k = x"
proof (rule bit_eqI)
  fix i
  have "bit x i \<Longrightarrow> i < k"
    using assms(2) by (metis bit_take_bit_iff take_bit_nat_eq_self_iff)
  then show "bit (bitReverse (bitReverse x k) k) i = bit x i"
    by (auto simp: bitReverse_bit assms)
qed

lemma inj_on_bitReverse: "k \<le> 32 \<Longrightarrow> inj_on (\<lambda>x. bitReverse x k) {..<2 ^ k}"
  by (rule inj_on_inverseI [where g = "\<lambda>x. bitReverse x k"]) (simp add: bitReverse_bitReverse)

text \<open>The first half of the seeds gets the even slots, the second half the odd ones.\<close>

lemma bitReverse_even:
  assumes "0 < k" "k \<le> 32" "x < 2 ^ k"
  shows "even (bitReverse x k) \<longleftrightarrow> x < 2 ^ (k - 1)"
proof -
  have "even (bitReverse x k) \<longleftrightarrow> \<not> bit x (k - 1)"
    using assms bitReverse_bit [of k x 0] by (auto simp: bit_0)
  also have "\<dots> \<longleftrightarrow> x < 2 ^ (k - 1)"
  proof
    assume nb: "\<not> bit x (k - 1)"
    have "take_bit (k - 1) x = x"
    proof (rule bit_eqI)
      fix i
      have "bit x i \<Longrightarrow> i < k"
        using assms(3) by (metis bit_take_bit_iff take_bit_nat_eq_self_iff)
      with nb show "bit (take_bit (k - 1) x) i = bit x i"
        using assms(1) by (cases "i = k - 1") (auto simp: bit_take_bit_iff)
    qed
    then show "x < 2 ^ (k - 1)" by (metis take_bit_nat_less_exp)
  next
    assume "x < 2 ^ (k - 1)"
    then have "take_bit (k - 1) x = x" by (rule take_bit_nat_eq_self)
    moreover have "\<not> bit (take_bit (k - 1) x) (k - 1)" by (simp add: bit_take_bit_iff)
    ultimately show "\<not> bit x (k - 1)" by simp
  qed
  finally show ?thesis .
qed

section \<open>The slots of the seeds\<close>

lemma log2_iters_pow2 [simp]: "log2_iters (2 ^ k) = k"
proof (induction k)
  case 0
  then show ?case by (simp add: log2_iters.simps)
next
  case (Suc k)
  have "(2 ^ Suc k + 1) div 2 = (2 ^ k :: nat)" by simp
  moreover have "\<not> 2 ^ Suc k \<le> (1::nat)"
    by (metis le_neq_implies_less nat_less_le numeral_One one_less_power semiring_norm(76)
        numeral_less_iff not_less zero_less_Suc)
  ultimately show ?case using Suc by (subst log2_iters.simps) simp
qed

lemma length_seedSlots [simp]: "length (seedSlots sz) = sz"
  by (simp add: seedSlots_def)

lemma seedSlots_nth:
  "i < 2 ^ k \<Longrightarrow> seedSlots (2 ^ k) ! i = bitReverse i k"
  by (simp add: seedSlots_def nth_append del: upt_Suc)

lemma seedSlots_pow2: "seedSlots (2 ^ k) = map (\<lambda>i. bitReverse i k) [0..<2 ^ k]"
  by (rule nth_equalityI) (simp_all add: seedSlots_nth)

lemma distinct_seedSlots: "k \<le> 32 \<Longrightarrow> distinct (seedSlots (2 ^ k))"
  using inj_on_bitReverse [of k] by (simp add: seedSlots_pow2 distinct_map lessThan_atLeast0)

lemma set_seedSlots:
  assumes "k \<le> 32"
  shows "set (seedSlots (2 ^ k)) = {..<2 ^ k}"
proof (rule card_subset_eq)
  show "set (seedSlots (2 ^ k)) \<subseteq> {..<2 ^ k}"
    using assms by (auto simp: seedSlots_pow2 bitReverse_less)
  show "card (set (seedSlots (2 ^ k))) = card {..<(2::nat) ^ k}"
    using distinct_seedSlots [OF assms] by (simp add: distinct_card)
qed simp

section \<open>The smallest power of two\<close>

lemma sint_pow2: "k < 31 \<Longrightarrow> sint (2 ^ k :: 32 word) = 2 ^ k"
proof -
  assume k: "k < 31"
  have "(2::int) ^ k < 2 ^ 31" by (rule power_strict_increasing) (use k in simp_all)
  moreover have "- (2 ^ 31) \<le> (2::int) ^ k" by (rule order_trans [of _ 0]) simp_all
  ultimately have "signed_take_bit 31 ((2::int) ^ k) = 2 ^ k"
    by (intro signed_take_bit_int_eq_self)
  moreover have "sint (2 ^ k :: 32 word) = sint (word_of_int (2 ^ k) :: 32 word)"
    by simp
  moreover have "sint (word_of_int i :: 32 word) = signed_take_bit 31 i" for i
    by (simp add: signed_of_int)
  ultimately show ?thesis by (simp only:)
qed

lemma push_bit_pow2: "push_bit 1 (2 ^ k :: 32 word) = 2 ^ Suc k"
  by (simp add: push_bit_eq_mult)

lemma next_pow2_loop_pow2:
  assumes "k + d \<le> 30" "n \<le> 2 ^ (k + d)" "\<And>j. k \<le> j \<Longrightarrow> j < k + d \<Longrightarrow> 2 ^ j < n"
  shows "next_pow2_loop n (2 ^ k) = Some (2 ^ (k + d))"
  using assms
proof (induction d arbitrary: k)
  case 0
  then show ?case by (subst next_pow2_loop.simps) (simp add: sint_pow2)
next
  case (Suc d)
  have "2 ^ k < n" using Suc.prems(3) [of k] by simp
  moreover have "next_pow2_loop n (2 ^ Suc k) = Some (2 ^ (Suc k + d))"
    by (rule Suc.IH) (use Suc.prems in simp_all)
  ultimately show ?case
    using Suc.prems(1) by (subst next_pow2_loop.simps) (simp add: sint_pow2 push_bit_pow2 del: push_bit_Suc One_nat_def)
qed

text \<open>Up to \<open>2 ^ 30\<close> the loop ends with the smallest power of two that is large enough.\<close>

lemma nextPow2_least:
  assumes "n \<le> 2 ^ 30"
  obtains k where "k \<le> 30" "nextPow2 n = Some (2 ^ k)" "n \<le> 2 ^ k"
    "\<And>j. j < k \<Longrightarrow> 2 ^ j < n"
proof -
  define k where "k = (LEAST k. n \<le> 2 ^ k)"
  have k30: "k \<le> 30" unfolding k_def by (rule Least_le) (use assms in simp)
  have nk: "n \<le> 2 ^ k" unfolding k_def by (rule LeastI) (rule assms)
  have below: "2 ^ j < n" if "j < k" for j
    using not_less_Least [of j "\<lambda>k. n \<le> 2 ^ k"] that by (simp add: k_def)
  have "nextPow2 n = Some (2 ^ k)"
    using next_pow2_loop_pow2 [of 0 k n] k30 nk below by (simp add: nextPow2_def)
  with k30 nk below that show thesis by blast
qed

text \<open>
  Beyond \<open>2 ^ 30\<close> the shift overflows: \<open>p\<close> becomes negative, then 0, and stays 0.
\<close>

lemma next_pow2_loop_zero:
  assumes "0 < n"
  shows "next_pow2_loop n 0 = None"
proof -
  have "m > 0 \<longrightarrow> p \<noteq> 0" if "next_pow2_loop m p = Some y" for m p y
    by (rule next_pow2_loop.raw_induct [where P = "\<lambda>m p y. m > 0 \<longrightarrow> p \<noteq> 0", OF _ that])
      (fastforce split: if_splits)
  with assms show ?thesis by (cases "next_pow2_loop n 0") auto
qed

lemma next_pow2_loop_overflow:
  assumes "2 ^ 30 < n" "k + d = 32"
  shows "next_pow2_loop n (2 ^ k) = None"
  using assms(2)
proof (induction d arbitrary: k)
  case 0
  then have p: "(2 ^ k :: 32 word) = 0" by simp
  show ?case unfolding p by (rule next_pow2_loop_zero) (use assms(1) in simp)
next
  case (Suc d)
  have "sint (2 ^ k :: 32 word) < n"
  proof (cases "k = 31")
    case True
    with assms(1) show ?thesis by simp
  next
    case False
    with Suc.prems have k: "k \<le> 30" by simp
    then have "(2::int) ^ k \<le> 2 ^ 30" by (intro power_increasing) simp_all
    with k assms(1) show ?thesis by (simp add: sint_pow2)
  qed
  moreover have "next_pow2_loop n (2 ^ Suc k) = None"
    by (rule Suc.IH) (use Suc.prems in simp)
  ultimately show ?case
    by (subst next_pow2_loop.simps) (simp add: push_bit_pow2 del: push_bit_Suc One_nat_def)
qed

lemma nextPow2_diverges: "2 ^ 30 < n \<Longrightarrow> nextPow2 n = None"
  using next_pow2_loop_overflow [of n 0 32] by (simp add: nextPow2_def)

lemma nextPow2_cases:
  assumes "2 \<le> n"
  obtains (diverges) "2 ^ 30 < n" "nextPow2 n = None"
  | (returns) k where "1 \<le> k" "k \<le> 30" "nextPow2 n = Some (2 ^ k)" "n \<le> 2 ^ k" "2 ^ (k - 1) < n"
proof (cases "n \<le> 2 ^ 30")
  case True
  then obtain k where k: "k \<le> 30" "nextPow2 n = Some (2 ^ k)" "n \<le> 2 ^ k"
    "\<And>j. j < k \<Longrightarrow> 2 ^ j < n" by (rule nextPow2_least) blast
  with assms have "k \<noteq> 0" by (intro notI) simp
  with k that(2) [of k] show thesis by simp
next
  case False
  then show thesis using that(1) nextPow2_diverges by simp
qed

lemma nextPow2_Some:
  assumes "nextPow2 n = Some b" "2 \<le> n"
  obtains k where "1 \<le> k" "k \<le> 30" "b = 2 ^ k" "n \<le> 2 ^ k" "2 ^ (k - 1) < n"
  using assms by (cases rule: nextPow2_cases [OF assms(2)]) auto

end
