(* ===== verification/Bracket_Types.thy ===== *)
theory Bracket_Types
  imports Prelude
begin

text \<open>
  The data of the tournament engine, \<open>web/src/lib/engine/types.ts\<close>: sides, outcomes,
  entrants, bracket matches, standings, formats and the errors the engine throws.
  The engine is generic in the entrant id; every caller in the application instantiates it
  at \<open>number\<close>, and so does the model.
\<close>

type_synonym match_id = int
type_synonym entrant_id = int

datatype side = SideA | SideB

datatype outcome = OutA | OutB | OutDraw | OutVoid

record entrant =
  ent_id :: entrant_id
  ent_seed :: int

record bracket_match =
  m_id :: match_id
  m_round :: nat
  m_slot :: nat
  m_a :: "entrant option"
  m_b :: "entrant option"
  m_outcome :: "outcome option"
  m_winnerTo :: "(match_id \<times> side) option"

record standing =
  st_id :: entrant_id
  st_place :: "nat option"
  st_wins :: nat
  st_draws :: nat
  st_losses :: nat

datatype tournament_format = SingleElimination | RoundRobin | Swiss (swiss_rounds: int)

text \<open>
  How a call of the engine can fail to return a value: the codes of \<open>TournamentError\<close>,
  the \<open>TypeError\<close> of a method call on \<open>undefined\<close>, and a call that does not return.
\<close>

datatype engine_error =
    TooFewEntrants | DuplicateEntrant | InvalidSwissRounds
  | UnknownMatch | NotRecordable | DrawNotAllowed
  | TypeError | Diverges

fun outcomeWinner :: "outcome \<Rightarrow> side option" where
  "outcomeWinner OutA = Some SideA"
| "outcomeWinner OutB = Some SideB"
| "outcomeWinner _ = None"

fun loserSideOf :: "outcome \<Rightarrow> side option" where
  "loserSideOf OutA = Some SideB"
| "loserSideOf OutB = Some SideA"
| "loserSideOf _ = None"

definition entrantSeedCmp :: "entrant \<Rightarrow> entrant \<Rightarrow> int" where
  "entrantSeedCmp a b = (if ent_seed a \<noteq> ent_seed b then ent_seed a - ent_seed b else 0)"

definition matchSide :: "bracket_match \<Rightarrow> side \<Rightarrow> entrant option" where
  "matchSide m s = (case s of SideA \<Rightarrow> m_a m | SideB \<Rightarrow> m_b m)"

definition matchWinner :: "bracket_match \<Rightarrow> entrant option" where
  "matchWinner m =
     (case m_outcome m of None \<Rightarrow> None
      | Some out \<Rightarrow> (case outcomeWinner out of None \<Rightarrow> None | Some w \<Rightarrow> matchSide m w))"

definition isBye :: "bracket_match \<Rightarrow> bool" where
  "isBye m \<longleftrightarrow> (m_a m \<noteq> None \<and> m_b m = None) \<or> (m_a m = None \<and> m_b m \<noteq> None)"

definition isReady :: "bracket_match \<Rightarrow> bool" where
  "isReady m \<longleftrightarrow> m_outcome m = None \<and> m_a m \<noteq> None \<and> m_b m \<noteq> None"

section \<open>Facts shared by the formats\<close>

instantiation side :: linorder
begin

definition less_eq_side :: "side \<Rightarrow> side \<Rightarrow> bool" where
  "less_eq_side s t \<longleftrightarrow> s = SideA \<or> t = SideB"

definition less_side :: "side \<Rightarrow> side \<Rightarrow> bool" where
  "less_side s t \<longleftrightarrow> s = SideA \<and> t = SideB"

instance
  by standard (auto simp: less_eq_side_def less_side_def intro: side.exhaust)

end

definition other_side :: "side \<Rightarrow> side" where
  "other_side s = (case s of SideA \<Rightarrow> SideB | SideB \<Rightarrow> SideA)"

lemma loser_is_other_winner:
  "loserSideOf out = map_option other_side (outcomeWinner out)"
  by (cases out) (simp_all add: other_side_def)

lemma matchSide_simps [simp]:
  "matchSide m SideA = m_a m"
  "matchSide m SideB = m_b m"
  by (simp_all add: matchSide_def)

lemma isReady_matchSide: "isReady m \<Longrightarrow> matchSide m s \<noteq> None"
  by (cases s) (simp_all add: isReady_def)

lemma outcomeWinner_eq_None: "outcomeWinner out = None \<longleftrightarrow> out = OutDraw \<or> out = OutVoid"
  by (cases out) simp_all

text \<open>The entrants a match names on its sides.\<close>

definition sides_of :: "bracket_match \<Rightarrow> entrant set" where
  "sides_of m = set_option (m_a m) \<union> set_option (m_b m)"

lemma matchSide_sides: "matchSide m s = Some e \<Longrightarrow> e \<in> sides_of m"
  by (cases s) (simp_all add: sides_of_def)

end
