(* ===== verification/Match_Source.thy ===== *)
theory Match_Source
  imports Bracket_Types
begin

text \<open>
  What the tournament driver relies on when it takes a batch of matches from a format
  builder (\<open>buildSingleElim\<close>, \<open>buildRoundRobin\<close>, \<open>pairSwissRound\<close>), and the loading of a
  batch into \<open>matchMap\<close> (the \<open>for (const m of matches) t.matchMap.set(m.id, m)\<close> loops of
  \<open>tournament.ts\<close>). The contract: consecutive ids from the start id, nothing decided, only
  known entrants on the sides.
\<close>

type_synonym match_map = "(match_id \<times> bracket_match) list"

definition matchMap_set :: "bracket_match \<Rightarrow> match_map \<Rightarrow> match_map" where
  "matchMap_set m mm = AList.update (m_id m) m mm"

definition load_matches :: "bracket_match list \<Rightarrow> match_map \<Rightarrow> match_map" where
  "load_matches ms mm = foldl (\<lambda>mm m. matchMap_set m mm) mm ms"

text \<open>The ids \<open>s, s + 1, ...\<close> of \<open>n\<close> matches.\<close>

definition ids_from :: "match_id \<Rightarrow> nat \<Rightarrow> match_id list" where
  "ids_from s n = map (\<lambda>i. s + int i) [0..<n]"

lemma length_ids_from [simp]: "length (ids_from s n) = n"
  by (simp add: ids_from_def)

lemma distinct_ids_from [simp]: "distinct (ids_from s n)"
  by (simp add: ids_from_def int_upt_distinct)

lemma set_ids_from: "set (ids_from s n) = {s..<s + int n}"
proof -
  have "x \<in> (\<lambda>i. s + int i) ` {0..<n} \<longleftrightarrow> x \<in> {s..<s + int n}" for x
    by (auto intro!: image_eqI [where x = "nat (x - s)"])
  then show ?thesis by (auto simp: ids_from_def)
qed

lemma ids_from_append: "ids_from s (a + b) = ids_from s a @ ids_from (s + int a) b"
proof -
  have "[0..<a + b] = [0..<a] @ map (\<lambda>i. i + a) [0..<b]"
    by (metis add.commute add_0 map_add_upt upt_add_eq_append zero_le)
  then show ?thesis by (simp add: ids_from_def algebra_simps)
qed

lemma ids_from_0 [simp]: "ids_from s 0 = []"
  by (simp add: ids_from_def)

lemma ids_from_Suc: "ids_from s (Suc n) = s # ids_from (s + 1) n"
  using ids_from_append [of s 1 n] by (simp add: ids_from_def)

text \<open>A batch that follows the contract, from the entrants \<open>es\<close> and the start id \<open>s\<close>.\<close>

definition fresh_batch :: "entrant list \<Rightarrow> match_id \<Rightarrow> bracket_match list \<Rightarrow> bool" where
  "fresh_batch es s ms \<longleftrightarrow>
     map m_id ms = ids_from s (length ms) \<and>
     (\<forall>m \<in> set ms. m_outcome m = None \<and> sides_of m \<subseteq> set es)"

text \<open>The map after loading such batches: its keys are the ids of its matches, in order.\<close>

definition keyed :: "match_map \<Rightarrow> bool" where
  "keyed mm \<longleftrightarrow>
     (\<forall>(k, m) \<in> set mm. m_id m = k) \<and> map fst mm = ids_from 1 (length mm)"

lemma keyed_Nil [simp]: "keyed []"
  by (simp add: keyed_def)

lemma keyed_distinct: "keyed mm \<Longrightarrow> distinct (map fst mm)"
  by (simp add: keyed_def)

lemma keyed_keys: "keyed mm \<Longrightarrow> fst ` set mm = {1..<1 + int (length mm)}"
  by (metis keyed_def set_ids_from set_map)

lemma keyed_map_of: "keyed mm \<Longrightarrow> map_of mm k = Some m \<longleftrightarrow> (k, m) \<in> set mm"
  by (simp add: keyed_distinct)

lemma keyed_id: "keyed mm \<Longrightarrow> map_of mm k = Some m \<Longrightarrow> m_id m = k"
  by (auto simp: keyed_def dest!: map_of_SomeD)

lemma load_matches_fresh:
  assumes "distinct (map m_id ms)" "set (map m_id ms) \<inter> fst ` set mm = {}"
  shows "load_matches ms mm = mm @ map (\<lambda>m. (m_id m, m)) ms"
  using assms
proof (induction ms arbitrary: mm)
  case (Cons m ms)
  have "matchMap_set m mm = mm @ [(m_id m, m)]"
    unfolding matchMap_set_def by (rule update_fresh) (use Cons.prems in auto)
  moreover have "load_matches ms (mm @ [(m_id m, m)]) =
      (mm @ [(m_id m, m)]) @ map (\<lambda>m. (m_id m, m)) ms"
    by (rule Cons.IH) (use Cons.prems in auto)
  ultimately show ?case by (simp add: load_matches_def)
qed (simp add: load_matches_def)

lemma load_matches_keyed:
  assumes "keyed mm" "map m_id ms = ids_from (1 + int (length mm)) (length ms)"
  shows "load_matches ms mm = mm @ map (\<lambda>m. (m_id m, m)) ms"
    and "keyed (load_matches ms mm)"
proof -
  show eq: "load_matches ms mm = mm @ map (\<lambda>m. (m_id m, m)) ms"
    by (rule load_matches_fresh) (auto simp: assms(2) set_ids_from keyed_keys [OF assms(1)])
  have "map fst (mm @ map (\<lambda>m. (m_id m, m)) ms) = ids_from 1 (length mm) @ map m_id ms"
    using assms(1) by (simp add: keyed_def comp_def)
  then show "keyed (load_matches ms mm)"
    using assms unfolding eq by (auto simp: keyed_def ids_from_append)
qed

section \<open>The interface of a format builder\<close>

locale match_source =
  fixes build :: "entrant list \<Rightarrow> match_id \<Rightarrow> (engine_error, bracket_match list) result"
  assumes build_fresh: "build es s = Inr ms \<Longrightarrow> fresh_batch es s ms"
begin

lemma build_load:
  assumes "build es 1 = Inr ms"
  shows "load_matches ms [] = map (\<lambda>m. (m_id m, m)) ms"
  using load_matches_keyed(1) [of "[]" ms] build_fresh [OF assms] by (simp add: fresh_batch_def)

lemma build_keyed: "build es 1 = Inr ms \<Longrightarrow> keyed (load_matches ms [])"
  using load_matches_keyed(2) [of "[]" ms] build_fresh [of es 1 ms] by (simp add: fresh_batch_def)

lemma build_values: "build es 1 = Inr ms \<Longrightarrow> map snd (load_matches ms []) = ms"
  by (simp add: build_load comp_def)

lemma build_sides: "build es s = Inr ms \<Longrightarrow> m \<in> set ms \<Longrightarrow> sides_of m \<subseteq> set es"
  using build_fresh [of es s ms] by (simp add: fresh_batch_def)

lemma build_undecided: "build es s = Inr ms \<Longrightarrow> m \<in> set ms \<Longrightarrow> m_outcome m = None"
  using build_fresh [of es s ms] by (simp add: fresh_batch_def)

end

end
