(* ===== verification/Single_Elim.thy ===== *)
theory Single_Elim
  imports Seeding Match_Source "HOL-Library.Multiset"
begin

text \<open>
  Construction of a single-elimination bracket, \<open>web/src/lib/engine/singleElim.ts\<close>.
  A bracket of \<open>2 ^ k\<close> slots has \<open>k\<close> rounds; round \<open>r\<close> has \<open>2 ^ (k - 1 - r)\<close> matches, ids
  are allocated round by round, and the winner of match \<open>i\<close> of a round goes to match
  \<open>i div 2\<close> of the next one, side A for even \<open>i\<close>.
\<close>

section \<open>The functions of the source\<close>

text \<open>\<open>slots.forEach((slot, rank) => ...)\<close> on an array of nulls.\<close>

fun place_loop ::
  "entrant list \<Rightarrow> nat \<Rightarrow> nat list \<Rightarrow> entrant option list \<Rightarrow> entrant option list" where
  "place_loop ordered rank [] se = se"
| "place_loop ordered rank (slot # slots) se =
     place_loop ordered (Suc rank) slots
       (if rank < length ordered then se[slot := Some (ordered ! rank)] else se)"

definition place_seeds :: "nat \<Rightarrow> entrant list \<Rightarrow> entrant option list" where
  "place_seeds bracket ordered =
     place_loop ordered 0 (seedSlots bracket) (replicate bracket None)"

text \<open>The rows of ids, \<open>nextId++\<close> threaded through the rounds.\<close>

fun alloc_ids :: "nat list \<Rightarrow> match_id \<Rightarrow> match_id list list" where
  "alloc_ids [] nextId = []"
| "alloc_ids (m # ms) nextId =
     map (\<lambda>i. nextId + int i) [0..<m] # alloc_ids ms (nextId + int m)"

definition se_match ::
  "entrant option list \<Rightarrow> match_id list list \<Rightarrow> nat \<Rightarrow> nat \<Rightarrow> nat \<Rightarrow> bracket_match" where
  "se_match slotEntrant ids rounds r mIdx =
     \<lparr>m_id = ids ! r ! mIdx, m_round = r, m_slot = mIdx,
      m_a = (if r = 0 then slotEntrant ! (mIdx * 2) else None),
      m_b = (if r = 0 then slotEntrant ! (mIdx * 2 + 1) else None),
      m_outcome = None,
      m_winnerTo =
        (if r + 1 < rounds
         then Some (ids ! (r + 1) ! (mIdx div 2), if mIdx mod 2 = 0 then SideA else SideB)
         else None)\<rparr>"

text \<open>\<open>bracket >> (r + 1)\<close>: the bracket size is a positive 32-bit integer.\<close>

definition round_size :: "nat \<Rightarrow> nat \<Rightarrow> nat" where
  "round_size bracket r = bracket div 2 ^ (r + 1)"

definition se_matches :: "nat \<Rightarrow> entrant list \<Rightarrow> match_id \<Rightarrow> bracket_match list" where
  "se_matches bracket entrants startId =
     (let rounds = log2_iters bracket;
          ordered = sort_key ent_seed entrants;
          slotEntrant = place_seeds bracket ordered;
          ids = alloc_ids (map (round_size bracket) [0..<rounds]) startId
      in concat (map (\<lambda>r. map (se_match slotEntrant ids rounds r) [0..<round_size bracket r])
           [0..<rounds]))"

definition buildSingleElim ::
  "entrant list \<Rightarrow> match_id \<Rightarrow> (engine_error, bracket_match list \<times> nat) result" where
  "buildSingleElim entrants startId =
     (case nextPow2 (max (int (length entrants)) 2) of
        None \<Rightarrow> Inl Diverges
      | Some bracket \<Rightarrow>
          Inr (se_matches (nat bracket) entrants startId, log2_iters (nat bracket)))"

section \<open>The slots\<close>

lemma length_place_loop [simp]: "length (place_loop ordered n slots se) = length se"
  by (induction slots arbitrary: n se) simp_all

lemma place_loop_other:
  "x \<notin> set slots \<Longrightarrow> place_loop ordered n slots se ! x = se ! x"
  by (induction slots arbitrary: n se) simp_all

lemma place_loop_nth:
  assumes "distinct slots" "set slots \<subseteq> {..<length se}" "i < length slots"
  shows "place_loop ordered n slots se ! (slots ! i) =
    (if n + i < length ordered then Some (ordered ! (n + i)) else se ! (slots ! i))"
  using assms
proof (induction slots arbitrary: n se i)
  case (Cons x slots)
  show ?case
  proof (cases i)
    case 0
    with Cons.prems show ?thesis by (simp add: place_loop_other)
  next
    case (Suc j)
    with Cons.prems have "slots ! j \<noteq> x" by auto
    with Suc Cons show ?thesis by simp
  qed
qed simp

lemma length_place_seeds [simp]: "length (place_seeds bracket ordered) = bracket"
  by (simp add: place_seeds_def)

text \<open>Slot \<open>x\<close> holds the entrant whose rank is the reversal of \<open>x\<close>.\<close>

lemma place_seeds_nth:
  assumes "k \<le> 32" "x < 2 ^ k"
  shows "place_seeds (2 ^ k) ordered ! x =
    (if bitReverse x k < length ordered then Some (ordered ! bitReverse x k) else None)"
proof -
  let ?i = "bitReverse x k"
  have i: "?i < 2 ^ k" using assms by (simp add: bitReverse_less)
  have "seedSlots (2 ^ k) ! ?i = x" using assms i by (simp add: seedSlots_nth bitReverse_bitReverse)
  then show ?thesis
    using place_loop_nth [of "seedSlots (2 ^ k)" "replicate (2 ^ k) None" ?i ordered 0] i assms
    by (simp add: place_seeds_def distinct_seedSlots set_seedSlots)
qed

section \<open>The ids\<close>

lemma alloc_ids_nth:
  "r < length ms \<Longrightarrow>
     alloc_ids ms s ! r = ids_from (s + int (sum_list (take r ms))) (ms ! r)"
proof (induction ms arbitrary: s r)
  case (Cons m ms)
  then show ?case by (cases r) (simp_all add: ids_from_def algebra_simps)
qed simp

lemma concat_alloc_ids: "concat (alloc_ids ms s) = ids_from s (sum_list ms)"
  by (induction ms arbitrary: s) (simp_all add: ids_from_append, simp add: ids_from_def)

lemma length_alloc_ids [simp]: "length (alloc_ids ms s) = length ms"
  by (induction ms arbitrary: s) simp_all

lemma round_size_pow2:
  assumes "r < k"
  shows "round_size (2 ^ k) r = 2 ^ (k - 1 - r)"
proof -
  have "(2::nat) ^ (k - (r + 1)) = 2 ^ k div 2 ^ (r + 1)"
    by (rule power_diff) (use assms in simp_all)
  then show ?thesis by (simp only: round_size_def diff_diff_left add.commute)
qed

lemma sum_round_sizes:
  "r \<le> k \<Longrightarrow> sum_list (map (round_size (2 ^ k)) [0..<r]) = 2 ^ k - 2 ^ (k - r)"
proof (induction r)
  case (Suc r)
  then have r: "r < k" by simp
  then have "k - r = Suc (k - 1 - r)" by simp
  then have half: "(2::nat) ^ (k - r) = 2 * 2 ^ (k - 1 - r)" by simp
  have "(2::nat) ^ (k - r) \<le> 2 ^ k" by (rule power_increasing) simp_all
  with Suc r half show ?case by (simp add: round_size_pow2)
qed simp

text \<open>The id of match \<open>i\<close> of round \<open>r\<close> in a bracket of \<open>2 ^ k\<close> slots.\<close>

definition se_id :: "nat \<Rightarrow> match_id \<Rightarrow> nat \<Rightarrow> nat \<Rightarrow> match_id" where
  "se_id k s r i = s + (2 ^ k - 2 ^ (k - r)) + int i"

lemma alloc_se_id:
  assumes "r < k" "i < 2 ^ (k - 1 - r)"
  shows "alloc_ids (map (round_size (2 ^ k)) [0..<k]) s ! r ! i = se_id k s r i"
proof -
  have "(2::nat) ^ (k - r) \<le> 2 ^ k" by (rule power_increasing) simp_all
  then have "int (2 ^ k - 2 ^ (k - r)) = 2 ^ k - 2 ^ (k - r)" by (simp add: of_nat_diff)
  with assms show ?thesis
    by (simp add: alloc_ids_nth round_size_pow2 ids_from_def se_id_def take_map sum_round_sizes)
qed

section \<open>The bracket as a family of matches\<close>

definition se_valid :: "nat \<Rightarrow> nat \<Rightarrow> nat \<Rightarrow> bool" where
  "se_valid k r i \<longleftrightarrow> r < k \<and> i < 2 ^ (k - 1 - r)"

definition se_positions :: "nat \<Rightarrow> (nat \<times> nat) list" where
  "se_positions k = concat (map (\<lambda>r. map (Pair r) [0..<2 ^ (k - 1 - r)]) [0..<k])"

lemma set_se_positions: "(r, i) \<in> set (se_positions k) \<longleftrightarrow> se_valid k r i"
  by (auto simp: se_positions_def se_valid_def image_iff)

definition side_of :: "nat \<Rightarrow> side" where
  "side_of i = (if i mod 2 = 0 then SideA else SideB)"

definition winner_target :: "nat \<Rightarrow> match_id \<Rightarrow> nat \<Rightarrow> nat \<Rightarrow> (match_id \<times> side) option" where
  "winner_target k s r i =
     (if r + 1 < k then Some (se_id k s (r + 1) (i div 2), side_of i) else None)"

text \<open>The entrant that starts in slot \<open>x\<close>, if any.\<close>

definition seat :: "nat \<Rightarrow> entrant list \<Rightarrow> nat \<Rightarrow> entrant option" where
  "seat k es x =
     (let ordered = sort_key ent_seed es
      in if bitReverse x k < length ordered then Some (ordered ! bitReverse x k) else None)"

definition se_node :: "nat \<Rightarrow> entrant list \<Rightarrow> match_id \<Rightarrow> nat \<Rightarrow> nat \<Rightarrow> bracket_match" where
  "se_node k es s r i =
     \<lparr>m_id = se_id k s r i, m_round = r, m_slot = i,
      m_a = (if r = 0 then seat k es (2 * i) else None),
      m_b = (if r = 0 then seat k es (2 * i + 1) else None),
      m_outcome = None, m_winnerTo = winner_target k s r i\<rparr>"

lemma se_valid_parent: "se_valid k r i \<Longrightarrow> r + 1 < k \<Longrightarrow> se_valid k (r + 1) (i div 2)"
proof -
  assume v: "se_valid k r i" and r: "r + 1 < k"
  then have "k - 1 - r = Suc (k - 1 - (r + 1))" by simp
  then have "(2::nat) ^ (k - 1 - r) = 2 * 2 ^ (k - 1 - (r + 1))" by simp
  with v r show ?thesis by (simp add: se_valid_def)
qed

lemma se_valid_child:
  assumes "se_valid k (Suc r) i" "b < 2"
  shows "se_valid k r (2 * i + b)"
proof -
  have "k - 1 - r = Suc (k - 1 - Suc r)" using assms by (auto simp: se_valid_def)
  then have "(2::nat) ^ (k - 1 - r) = 2 * 2 ^ (k - 1 - Suc r)" by simp
  with assms show ?thesis by (simp add: se_valid_def)
qed

lemma se_valid_slot: "se_valid k 0 i \<Longrightarrow> 2 * i + 1 < 2 ^ k"
proof -
  assume v: "se_valid k 0 i"
  then have "k = Suc (k - 1)" by (simp add: se_valid_def)
  then have "(2::nat) ^ k = 2 * 2 ^ (k - 1)" by (metis power_Suc)
  with v show ?thesis by (simp add: se_valid_def)
qed

lemma se_match_node:
  assumes "k \<le> 32" "se_valid k r i"
  shows "se_match (place_seeds (2 ^ k) (sort_key ent_seed es))
      (alloc_ids (map (round_size (2 ^ k)) [0..<k]) s) k r i = se_node k es s r i"
proof -
  have id: "alloc_ids (map (round_size (2 ^ k)) [0..<k]) s ! r ! i = se_id k s r i"
    using assms by (simp add: alloc_se_id se_valid_def)
  have up: "alloc_ids (map (round_size (2 ^ k)) [0..<k]) s ! Suc r ! (i div 2) =
      se_id k s (Suc r) (i div 2)" if "Suc r < k"
    using se_valid_parent [OF assms(2)] that by (intro alloc_se_id) (simp_all add: se_valid_def)
  have seats: "place_seeds (2 ^ k) (sort_key ent_seed es) ! x = seat k es x" if "x < 2 ^ k" for x
    using that assms(1) by (simp add: place_seeds_nth seat_def)
  have "r = 0 \<Longrightarrow> place_seeds (2 ^ k) (sort_key ent_seed es) ! (i * 2) = seat k es (2 * i)"
    and "r = 0 \<Longrightarrow> place_seeds (2 ^ k) (sort_key ent_seed es) ! Suc (i * 2) = seat k es (Suc (2 * i))"
    using se_valid_slot [of k i] assms(2) by (simp_all add: seats mult.commute)
  then show ?thesis
    by (simp add: se_match_def se_node_def id up winner_target_def side_of_def cong: if_cong)
qed

lemma se_matches_nodes:
  assumes "k \<le> 32"
  shows "se_matches (2 ^ k) es s = map (\<lambda>(r, i). se_node k es s r i) (se_positions k)"
proof -
  have row: "map (se_match (place_seeds (2 ^ k) (sort_key ent_seed es))
      (alloc_ids (map (round_size (2 ^ k)) [0..<k]) s) k r) [0..<round_size (2 ^ k) r] =
      map (se_node k es s r) [0..<2 ^ (k - 1 - r)]" if "r < k" for r
    using that by (auto simp: round_size_pow2 se_match_node [OF assms] se_valid_def)
  have "se_matches (2 ^ k) es s =
      concat (map (\<lambda>r. map (se_node k es s r) [0..<2 ^ (k - 1 - r)]) [0..<k])"
    unfolding se_matches_def Let_def log2_iters_pow2
    by (rule arg_cong [where f = concat], rule map_cong [OF refl], rule row) simp
  then show ?thesis by (simp add: se_positions_def map_concat comp_def)
qed

lemma se_positions_ids:
  "map (\<lambda>(r, i). se_id k s r i) (se_positions k) = ids_from s (2 ^ k - 1)"
proof -
  have row: "map (se_id k s r) [0..<2 ^ (k - 1 - r)] =
      alloc_ids (map (round_size (2 ^ k)) [0..<k]) s ! r" if "r < k" for r
  proof -
    have "length (alloc_ids (map (round_size (2 ^ k)) [0..<k]) s ! r) = 2 ^ (k - 1 - r)"
      using that by (simp add: alloc_ids_nth round_size_pow2)
    then show ?thesis by (intro nth_equalityI) (simp_all add: alloc_se_id that)
  qed
  have "map (\<lambda>(r, i). se_id k s r i) (se_positions k) =
      concat (map (\<lambda>r. map (se_id k s r) [0..<2 ^ (k - 1 - r)]) [0..<k])"
    by (simp add: se_positions_def map_concat comp_def)
  also have "\<dots> = concat (map ((!) (alloc_ids (map (round_size (2 ^ k)) [0..<k]) s)) [0..<k])"
    by (rule arg_cong [where f = concat], rule map_cong [OF refl], rule row) simp
  also have "\<dots> = concat (alloc_ids (map (round_size (2 ^ k)) [0..<k]) s)"
    by (metis diff_zero length_alloc_ids length_map length_upt map_nth)
  finally show ?thesis by (simp add: concat_alloc_ids sum_round_sizes)
qed

lemma length_se_positions: "length (se_positions k) = 2 ^ k - 1"
  by (metis length_ids_from length_map se_positions_ids)

lemma se_id_inject:
  assumes "se_id k s r i = se_id k s r' i'" "se_valid k r i" "se_valid k r' i'"
  shows "r = r' \<and> i = i'"
proof -
  have "inj_on (\<lambda>(r, i). se_id k s r i) (set (se_positions k))"
    using se_positions_ids [of k s] by (metis distinct_ids_from distinct_map)
  from inj_onD [OF this, of "(r, i)" "(r', i')"] assms show ?thesis
    by (simp add: set_se_positions)
qed

lemma seat_in: "seat k es x = Some e \<Longrightarrow> e \<in> set es"
  by (auto simp: seat_def Let_def split: if_splits) (metis length_sort nth_mem set_sort)

lemma se_matches_fresh:
  assumes "k \<le> 32"
  shows "fresh_batch es s (se_matches (2 ^ k) es s)"
proof -
  have "map m_id (se_matches (2 ^ k) es s) = map (\<lambda>(r, i). se_id k s r i) (se_positions k)"
    by (simp add: se_matches_nodes [OF assms] comp_def case_prod_unfold se_node_def)
  then have "map m_id (se_matches (2 ^ k) es s) = ids_from s (2 ^ k - 1)"
    by (simp only: se_positions_ids)
  moreover have "m_outcome m = None \<and> sides_of m \<subseteq> set es" if "m \<in> set (se_matches (2 ^ k) es s)" for m
    using that by (auto simp: se_matches_nodes [OF assms] se_node_def sides_of_def
        split: if_splits dest!: seat_in)
  ultimately show ?thesis by (simp add: fresh_batch_def length_se_positions se_matches_nodes assms)
qed

definition single_elim_build ::
  "entrant list \<Rightarrow> match_id \<Rightarrow> (engine_error, bracket_match list) result" where
  "single_elim_build es s = bind_result (buildSingleElim es s) (\<lambda>(ms, _). Inr ms)"

lemma buildSingleElim_Inr:
  assumes "buildSingleElim es s = Inr (ms, rounds)"
  obtains k where "1 \<le> k" "k \<le> 30" "ms = se_matches (2 ^ k) es s" "rounds = k"
    "max (length es) 2 \<le> 2 ^ k" "2 ^ (k - 1) < max (length es) 2"
proof -
  from assms obtain b where b: "nextPow2 (max (int (length es)) 2) = Some b"
    and ms: "ms = se_matches (nat b) es s" "rounds = log2_iters (nat b)"
    by (auto simp: buildSingleElim_def split: option.splits)
  from b obtain k where k: "1 \<le> k" "k \<le> 30" "b = 2 ^ k" "max (int (length es)) 2 \<le> 2 ^ k"
    "2 ^ (k - 1) < max (int (length es)) 2" by (rule nextPow2_Some) simp
  have cast: "nat b = 2 ^ k" by (simp add: k(3) nat_power_eq)
  have "int (max (length es) 2) \<le> int (2 ^ k)" "int (2 ^ (k - 1)) < int (max (length es) 2)"
    using k(4,5) by (simp_all add: of_nat_max)
  then have "max (length es) 2 \<le> 2 ^ k" "2 ^ (k - 1) < max (length es) 2"
    unfolding of_nat_le_iff of_nat_less_iff .
  with that [of k] k(1,2) ms cast show thesis by simp
qed

interpretation single_elim: match_source single_elim_build
proof
  fix es s ms
  assume "single_elim_build es s = Inr ms"
  then obtain rounds where "buildSingleElim es s = Inr (ms, rounds)"
    by (auto simp: single_elim_build_def bind_result_eq_Inr)
  then show "fresh_batch es s ms"
    by (rule buildSingleElim_Inr) (simp add: se_matches_fresh)
qed

section \<open>Who meets whom in the first round\<close>

lemma bitReverse_odd:
  assumes "0 < k" "k \<le> 32"
  shows "bitReverse (2 * i + 1) k = bitReverse (2 * i) k + 2 ^ (k - 1)"
proof -
  have top: "\<not> bit (bitReverse (2 * i) k) (k - 1)" using assms by (simp add: bitReverse_bit bit_0)
  then have "bitReverse (2 * i) k + 2 ^ (k - 1) = bitReverse (2 * i) k OR 2 ^ (k - 1)"
    by (intro disjunctive_add_eq_or bit_eqI) (auto simp: bit_and_iff bit_exp_iff)
  also have "\<dots> = bitReverse (2 * i + 1) k"
  proof (rule bit_eqI)
    fix j
    have "bit (2 * i + 1) (Suc l) = bit (2 * i) (Suc l)" for l by (simp add: bit_Suc)
    then show "bit (bitReverse (2 * i) k OR 2 ^ (k - 1)) j = bit (bitReverse (2 * i + 1) k) j"
      using assms by (cases "j = k - 1"; cases "k - 1 - j")
        (auto simp: bit_or_iff bit_exp_iff bitReverse_bit bit_0)
  qed
  finally show ?thesis ..
qed

lemma first_round_node:
  assumes "0 < k" "k \<le> 32" "x < 2 ^ (k - 1)"
  obtains i where "se_valid k 0 i" "seat k es (2 * i) = (if x < length es then Some (sort_key ent_seed es ! x) else None)"
    "seat k es (2 * i + 1) = (if x + 2 ^ (k - 1) < length es then Some (sort_key ent_seed es ! (x + 2 ^ (k - 1))) else None)"
proof -
  have dbl: "(2::nat) ^ k = 2 * 2 ^ (k - 1)" using assms(1) by (simp flip: power_Suc)
  have x: "x < 2 ^ k" using assms(3) dbl by linarith
  have "even (bitReverse x k)" using assms x by (simp add: bitReverse_even)
  then obtain i where i: "bitReverse x k = 2 * i" by (elim evenE)
  have "bitReverse (2 * i) k = x" using assms x by (simp flip: i add: bitReverse_bitReverse)
  moreover have "2 * i < 2 ^ k" using assms(2) by (simp flip: i add: bitReverse_less)
  ultimately show thesis
    using that [of i] bitReverse_odd [OF assms(1,2), of i] dbl assms(1)
    by (simp add: se_valid_def seat_def Let_def)
qed

section \<open>Properties\<close>

text \<open>Seeding is a permutation of the slots of a bracket of \<open>2 ^ k\<close>, and reversing twice gives the
  seed back.\<close>

theorem seed_slots_permutation:
  assumes "k \<le> 32"
  shows "mset (seedSlots (2 ^ k)) = mset [0..<2 ^ k] \<and>
    (\<forall>x < 2 ^ k. seedSlots (2 ^ k) ! (seedSlots (2 ^ k) ! x) = x)"
proof -
  have "mset_set (set (seedSlots (2 ^ k))) = mset (seedSlots (2 ^ k))"
    by (rule mset_set_set) (rule distinct_seedSlots [OF assms])
  moreover have "mset [0..<2 ^ k] = mset_set {..<2 ^ k}" by (simp add: lessThan_atLeast0)
  ultimately have "mset (seedSlots (2 ^ k)) = mset [0..<2 ^ k]" by (simp add: set_seedSlots [OF assms])
  then show ?thesis using assms by (simp add: seedSlots_nth bitReverse_bitReverse bitReverse_less)
qed

theorem seed_slots_permutation_witness: "seedSlots 8 ! (seedSlots 8 ! 3) = 3"
  using seed_slots_permutation [of 3] by simp

text \<open>\<open>nextPow2\<close> returns the least power of two that is at least \<open>n\<close> for every \<open>n\<close> up to
  \<open>2 ^ 30\<close>, and does not return for larger \<open>n\<close>: the 32-bit shift overflows to 0.\<close>

theorem nextPow2_correct:
  "if n \<le> 2 ^ 30 then \<exists>k. nextPow2 n = Some (2 ^ k) \<and> n \<le> 2 ^ k \<and> (\<forall>j < k. 2 ^ j < n)
   else nextPow2 n = None"
proof (cases "n \<le> 2 ^ 30")
  case True
  then obtain k where "nextPow2 n = Some (2 ^ k)" "n \<le> 2 ^ k" "\<And>j. j < k \<Longrightarrow> 2 ^ j < n"
    by (rule nextPow2_least) blast
  with True show ?thesis by auto
qed (simp add: nextPow2_diverges)

theorem nextPow2_correct_witness: "nextPow2 (2 ^ 31) = None \<and> nextPow2 5 \<noteq> None"
  using nextPow2_correct [of "2 ^ 31"] nextPow2_correct [of 5] by auto

text \<open>The bracket builder returns for every field of at most \<open>2 ^ 30\<close> entrants, with one match
  less than the bracket has slots, ids consecutive from the start id, and one round per level.\<close>

theorem single_elim_builds:
  assumes "int (length es) \<le> 2 ^ 30"
  shows "\<exists>k ms. buildSingleElim es s = Inr (ms, k) \<and> max (length es) 2 \<le> 2 ^ k \<and>
    2 ^ (k - 1) < max (length es) 2 \<and> length ms = 2 ^ k - 1 \<and> map m_id ms = ids_from s (2 ^ k - 1)"
proof -
  have "max (int (length es)) 2 \<le> 2 ^ 30" using assms by simp
  then obtain k0 where "nextPow2 (max (int (length es)) 2) = Some (2 ^ k0)"
    by (rule nextPow2_least) blast
  then obtain ms k where b: "buildSingleElim es s = Inr (ms, k)"
    by (auto simp: buildSingleElim_def)
  then obtain k' where k: "k' \<le> 30" "ms = se_matches (2 ^ k') es s" "k = k'"
    "max (length es) 2 \<le> 2 ^ k'" "2 ^ (k' - 1) < max (length es) 2" by (rule buildSingleElim_Inr) blast
  have "length ms = 2 ^ k - 1" using k by (simp add: se_matches_nodes length_se_positions)
  moreover have "map m_id ms = ids_from s (length ms)"
    using se_matches_fresh [of k' es s] k by (simp add: fresh_batch_def)
  ultimately show ?thesis using b k by auto
qed

theorem single_elim_builds_witness: "\<exists>k ms. buildSingleElim [] 1 = Inr (ms, k) \<and> length ms = 2 ^ k - 1"
  using single_elim_builds [of "[]" 1] by auto

text \<open>The first round pairs the entrant of rank \<open>x\<close> (counting from 0 in seed order) with the
  entrant half a bracket below, and a bye is a rank without such an opponent. So the top seed
  of a field of two or more always plays in the first round: byes go to the middle of the field.\<close>

theorem first_round_pairs:
  assumes "buildSingleElim es s = Inr (ms, k)" "2 \<le> length es" "x < 2 ^ (k - 1)"
  shows "(\<exists>m \<in> set ms. m_round m = 0 \<and> m_a m = Some (sort_key ent_seed es ! x) \<and>
      m_b m = (if x + 2 ^ (k - 1) < length es then Some (sort_key ent_seed es ! (x + 2 ^ (k - 1))) else None)) \<and>
    2 ^ (k - 1) < length es"
proof -
  from assms(1) obtain k' where k: "1 \<le> k'" "k' \<le> 30" "ms = se_matches (2 ^ k') es s" "k = k'"
    "2 ^ (k' - 1) < max (length es) 2" by (rule buildSingleElim_Inr) blast
  have lt: "2 ^ (k - 1) < length es" using k assms(2) by simp
  have k32: "0 < k" "k \<le> 32" using k by simp_all
  obtain i where i: "se_valid k 0 i"
    "seat k es (2 * i) = (if x < length es then Some (sort_key ent_seed es ! x) else None)"
    "seat k es (2 * i + 1) = (if x + 2 ^ (k - 1) < length es then Some (sort_key ent_seed es ! (x + 2 ^ (k - 1))) else None)"
    using k32 assms(3) by (rule first_round_node)
  have "se_node k es s 0 i \<in> set ms"
    using k k32 i(1) by (force simp: se_matches_nodes simp flip: set_se_positions)
  moreover have "x < length es" using assms(3) lt by simp
  ultimately show ?thesis using i lt by (intro conjI bexI [of _ "se_node k es s 0 i"]) (simp_all add: se_node_def)
qed

definition five_seeds :: "entrant list" where
  "five_seeds = map (\<lambda>i. \<lparr>ent_id = i, ent_seed = i\<rparr>) [1..5]"

theorem first_round_pairs_witness:
  "\<exists>m \<in> set (fst (projr (buildSingleElim five_seeds 1))).
     m_a m = Some \<lparr>ent_id = 1, ent_seed = 1\<rparr> \<and> m_b m = Some \<lparr>ent_id = 5, ent_seed = 5\<rparr>"
proof -
  let ?r = "buildSingleElim five_seeds 1"
  have "\<not> isl ?r" "snd (projr ?r) = 3" by code_simp+
  then have r: "?r = Inr (fst (projr ?r), 3)" by (cases ?r) auto
  have h: "2 \<le> length five_seeds" "length five_seeds = 5" by code_simp+
  have "sort_key ent_seed five_seeds ! 0 = \<lparr>ent_id = 1, ent_seed = 1\<rparr>"
    "sort_key ent_seed five_seeds ! 4 = \<lparr>ent_id = 5, ent_seed = 5\<rparr>" by code_simp+
  with first_round_pairs [OF r h(1), of 0] h(2) show ?thesis by auto
qed

end
