(* ===== verification/Round_Robin.thy ===== *)
theory Round_Robin
  imports Match_Source
begin

text \<open>
  Round-robin scheduling by the circle method, \<open>web/src/lib/engine/roundRobin.ts\<close>.
\<close>

section \<open>The functions of the source\<close>

text \<open>The inner loop of one round: \<open>slot\<close> and \<open>nextId\<close> count the matches that are pushed.\<close>

fun rr_round ::
  "entrant option list \<Rightarrow> nat \<Rightarrow> nat \<Rightarrow> nat list \<Rightarrow> nat \<Rightarrow> match_id \<Rightarrow>
     bracket_match list \<times> match_id" where
  "rr_round positions paddedLen round [] slot nextId = ([], nextId)"
| "rr_round positions paddedLen round (i # is) slot nextId =
     (let j = paddedLen - 1 - i
      in case (positions ! i, positions ! j) of
           (Some a, Some b) \<Rightarrow>
             (let (ms, nextId') = rr_round positions paddedLen round is (slot + 1) (nextId + 1)
              in (\<lparr>m_id = nextId, m_round = round, m_slot = slot, m_a = Some a, m_b = Some b,
                   m_outcome = None, m_winnerTo = None\<rparr> # ms, nextId'))
         | _ \<Rightarrow> rr_round positions paddedLen round is slot nextId)"

text \<open>\<open>const last = positions.pop() ?? null; positions.splice(1, 0, last)\<close>.\<close>

definition rr_rotate :: "'a option list \<Rightarrow> 'a option list" where
  "rr_rotate positions =
     (let lst = (if positions = [] then None else last positions);
          popped = butlast positions
      in take 1 popped @ [lst] @ drop 1 popped)"

fun rr_rounds ::
  "entrant option list \<Rightarrow> nat \<Rightarrow> nat list \<Rightarrow> match_id \<Rightarrow> bracket_match list" where
  "rr_rounds positions paddedLen [] nextId = []"
| "rr_rounds positions paddedLen (round # rs) nextId =
     (let (ms, nextId') = rr_round positions paddedLen round [0..<paddedLen div 2] 0 nextId
      in ms @ rr_rounds (rr_rotate positions) paddedLen rs nextId')"

definition rr_positions :: "entrant list \<Rightarrow> entrant option list" where
  "rr_positions entrants =
     (let n = length entrants; paddedLen = (if n mod 2 = 0 then n else n + 1)
      in map Some entrants @ replicate (paddedLen - n) None)"

definition buildRoundRobin :: "entrant list \<Rightarrow> match_id \<Rightarrow> bracket_match list \<times> int" where
  "buildRoundRobin entrants startId =
     (let n = length entrants;
          paddedLen = (if n mod 2 = 0 then n else n + 1);
          rounds = int paddedLen - 1
      in (rr_rounds (rr_positions entrants) paddedLen [0..<nat rounds] startId, rounds))"

section \<open>The pairs of a round\<close>

definition pair_at :: "entrant option list \<Rightarrow> nat \<Rightarrow> nat \<Rightarrow> (entrant \<times> entrant) option" where
  "pair_at positions paddedLen i =
     (case (positions ! i, positions ! (paddedLen - 1 - i)) of
        (Some a, Some b) \<Rightarrow> Some (a, b) | _ \<Rightarrow> None)"

definition round_pairs :: "entrant option list \<Rightarrow> nat \<Rightarrow> (entrant \<times> entrant) list" where
  "round_pairs positions paddedLen =
     List.map_filter (pair_at positions paddedLen) [0..<paddedLen div 2]"

definition match_sides :: "bracket_match \<Rightarrow> entrant option \<times> entrant option" where
  "match_sides m = (m_a m, m_b m)"

definition both_some :: "entrant \<times> entrant \<Rightarrow> entrant option \<times> entrant option" where
  "both_some = map_prod Some Some"

lemma rr_round_spec:
  "map match_sides (fst (rr_round ps L rd is slot s)) = map both_some (List.map_filter (pair_at ps L) is)"
  "map m_id (fst (rr_round ps L rd is slot s)) = ids_from s (length (fst (rr_round ps L rd is slot s)))"
  "snd (rr_round ps L rd is slot s) = s + int (length (fst (rr_round ps L rd is slot s)))"
  "\<forall>m \<in> set (fst (rr_round ps L rd is slot s)). m_round m = rd \<and> m_outcome m = None \<and> m_winnerTo m = None"
  by (induction "is" arbitrary: slot s)
    (auto simp: Let_def case_prod_unfold map_filter_simps pair_at_def match_sides_def both_some_def
      ids_from_Suc split: option.splits)

fun round_lists :: "entrant option list \<Rightarrow> nat \<Rightarrow> nat \<Rightarrow> (entrant \<times> entrant) list list" where
  "round_lists ps L 0 = []"
| "round_lists ps L (Suc c) = round_pairs ps L # round_lists (rr_rotate ps) L c"

lemma rr_rounds_spec:
  "map match_sides (rr_rounds ps L rs s) = map both_some (concat (round_lists ps L (length rs)))"
  "map m_id (rr_rounds ps L rs s) = ids_from s (length (rr_rounds ps L rs s))"
  "\<forall>m \<in> set (rr_rounds ps L rs s). m_outcome m = None \<and> m_winnerTo m = None"
proof (induction rs arbitrary: ps s)
  case (Cons r rs)
  note R = rr_round_spec [of _ L r "[0..<L div 2]" 0]
  have eq: "rr_rounds ps L (r # rs) s = fst (rr_round ps L r [0..<L div 2] 0 s) @
      rr_rounds (rr_rotate ps) L rs (snd (rr_round ps L r [0..<L div 2] 0 s))"
    for ps s by (simp add: Let_def case_prod_unfold)
  { case 1 show ?case unfolding eq map_append R(1) Cons.IH(1) by (simp add: round_pairs_def) }
  { case 2 show ?case unfolding eq map_append R(2) Cons.IH(2) length_append ids_from_append R(3) .. }
  { case 3 show ?case using R(4) Cons.IH(3) unfolding eq by auto }
qed simp_all

lemma round_lists_funpow:
  "round_lists ps L c = map (\<lambda>r. round_pairs ((rr_rotate ^^ r) ps) L) [0..<c]"
proof (induction c arbitrary: ps)
  case (Suc c)
  have "[0..<Suc c] = 0 # map Suc [0..<c]" by (simp add: map_Suc_upt upt_conv_Cons del: upt_Suc)
  then show ?case by (simp add: Suc comp_def funpow_swap1 del: upt_Suc)
qed simp

section \<open>The rotation\<close>

text \<open>The index, before any rotation, of what stands at position \<open>i\<close> after \<open>r\<close> rotations.\<close>

fun circle_ix :: "nat \<Rightarrow> nat \<Rightarrow> nat \<Rightarrow> nat" where
  "circle_ix m r 0 = 0"
| "circle_ix m r (Suc j) = Suc (nat ((int j - int r) mod int m))"

lemma circle_ix_less: "0 < m \<Longrightarrow> i < Suc m \<Longrightarrow> circle_ix m r i < Suc m"
  by (cases i) (simp_all add: nat_less_iff)

lemma rr_rotate_nth:
  assumes "length ps = Suc m" "0 < m" "i < Suc m"
  shows "rr_rotate ps ! i = ps ! circle_ix m 1 i"
proof -
  obtain x ys where ps: "ps = x # ys" using assms(1) by (cases ps) auto
  have ys: "ys \<noteq> []" "length ys = m" using assms ps by auto
  have rot: "rr_rotate (x # ys) = x # last ys # butlast ys" using ys by (simp add: rr_rotate_def)
  show ?thesis
  proof (cases i)
    case (Suc j)
    show ?thesis
    proof (cases j)
      case 0
      have "nat ((- 1 :: int) mod int m) = m - 1" using assms(2) by (simp add: zmod_minus1)
      then show ?thesis using ys Suc 0 by (simp add: rot ps last_conv_nth)
    next
      case (Suc j')
      have "int j' mod int m = int j'" using Suc \<open>i = Suc j\<close> assms by simp
      then show ?thesis using Suc \<open>i = Suc j\<close> ys assms by (simp add: rot ps nth_butlast)
    qed
  qed (simp add: rot ps)
qed

lemma length_rr_rotate: "ps \<noteq> [] \<Longrightarrow> length (rr_rotate ps) = length ps"
  by (cases ps rule: rev_cases) (auto simp: rr_rotate_def Let_def)

lemma length_rr_rotates: "ps \<noteq> [] \<Longrightarrow> length ((rr_rotate ^^ r) ps) = length ps"
proof (induction r)
  case (Suc r)
  then have "(rr_rotate ^^ r) ps \<noteq> []" by (metis length_0_conv)
  with Suc show ?case by (simp add: length_rr_rotate)
qed simp

lemma rr_rotates_nth:
  assumes "length ps = Suc m" "0 < m" "i < Suc m"
  shows "(rr_rotate ^^ r) ps ! i = ps ! circle_ix m r i"
  using assms(3)
proof (induction r arbitrary: i)
  case 0
  then show ?case by (cases i) (simp_all)
next
  case (Suc r)
  have len: "length ((rr_rotate ^^ r) ps) = Suc m" using assms(1) length_rr_rotates [of ps r] by force
  have "(rr_rotate ^^ Suc r) ps ! i = (rr_rotate ^^ r) ps ! circle_ix m 1 i"
    using rr_rotate_nth [OF len assms(2) Suc.prems] by simp
  also have "\<dots> = ps ! circle_ix m r (circle_ix m 1 i)"
    by (rule Suc.IH) (rule circle_ix_less [OF assms(2) Suc.prems])
  also have "circle_ix m r (circle_ix m 1 i) = circle_ix m (Suc r) i"
  proof (cases i)
    case (Suc j)
    have "int (nat ((int j - 1) mod int m)) = (int j - 1) mod int m" using assms(2) by simp
    then show ?thesis using Suc by (simp add: mod_diff_left_eq algebra_simps)
  qed simp
  finally show ?case .
qed

section \<open>Every pair of places meets once\<close>

definition places :: "nat \<Rightarrow> nat \<Rightarrow> nat \<Rightarrow> nat set" where
  "places m r i = {circle_ix m r i, circle_ix m r (m - i)}"

lemma circle_ix_inj:
  assumes "circle_ix m r i = circle_ix m r i'" "i < Suc m" "i' < Suc m"
  shows "i = i'"
proof (cases i; cases i')
  fix j j' assume ij: "i = Suc j" "i' = Suc j'"
  with assms have m: "0 < m" by auto
  have "(int j - int r) mod int m = (int j' - int r) mod int m"
    using assms(1) m pos_mod_sign [of "int m"] by (simp add: ij nat_eq_iff2)
  then have "int m dvd int j - int j'" by (simp add: mod_eq_dvd_iff)
  moreover have "\<bar>int j - int j'\<bar> < int m" using assms ij by auto
  ultimately have "int j - int j' = 0" by (metis dvd_imp_le_int not_less abs_of_nat)
  with ij show ?thesis by simp
qed (use assms in simp_all)

text \<open>Two games of the places \<open>u\<close> and \<open>v\<close>: the sum of the indices fixes the round.\<close>

lemma circle_round_unique:
  assumes "odd m" "r < m" "r' < m" "(2 * int r) mod int m = (2 * int r') mod int m"
  shows "r = r'"
proof -
  have "int m dvd 2 * (int r - int r')" using assms(4) by (simp add: mod_eq_dvd_iff algebra_simps)
  moreover have "coprime (int m) 2" using assms(1) by simp
  ultimately have "int m dvd int r - int r'" by (simp only: coprime_dvd_mult_right_iff)
  moreover have "\<bar>int r - int r'\<bar> < int m" using assms by auto
  ultimately have "int r - int r' = 0" by (metis dvd_imp_le_int not_less abs_of_nat)
  then show ?thesis by simp
qed

lemma circle_sum:
  assumes "0 < m" "0 < i" "i < m"
  shows "(int (circle_ix m r i) + int (circle_ix m r (m - i))) mod int m = (- 2 * int r) mod int m"
proof -
  obtain j where j: "i = Suc j" using assms(2) by (cases i) auto
  obtain j' where j': "m - i = Suc j'" using assms(3) by (cases "m - i") auto
  have sum: "int j + int j' = int m - 2" using j j' assms by linarith
  have "int (circle_ix m r i) = 1 + (int j - int r) mod int m"
    "int (circle_ix m r (m - i)) = 1 + (int j' - int r) mod int m"
    unfolding j' using assms(1) by (simp_all add: j)
  then have "(int (circle_ix m r i) + int (circle_ix m r (m - i))) mod int m =
      (2 + ((int j - int r) mod int m + (int j' - int r) mod int m)) mod int m"
    by (simp add: algebra_simps)
  also have "\<dots> = (2 + (int j - int r + (int j' - int r))) mod int m"
    by (rule mod_add_cong [OF refl mod_add_eq])
  also have "2 + (int j - int r + (int j' - int r)) = int m - 2 * int r" using sum by simp
  finally show ?thesis by simp
qed

lemma places_unique:
  assumes m: "odd m" and r: "r < m" "r' < m" and i: "i < Suc m div 2" "i' < Suc m div 2"
    and eq: "places m r i = places m r' i'"
  shows "r = r' \<and> i = i'"
proof -
  have m0: "0 < m" using m by (cases m) auto
  have zero: "0 \<in> places m r i \<longleftrightarrow> i = 0" if "i < Suc m div 2" for r i
    using that m0 by (cases i; cases "m - i") (auto simp: places_def)
  have same: "i = i'" if "r = r'"
  proof -
    have le: "i < Suc m" "m - i < Suc m" "i' < Suc m" "m - i' < Suc m" using i by auto
    from eq that have "circle_ix m r i = circle_ix m r i' \<or> circle_ix m r i = circle_ix m r (m - i')"
      by (auto simp: places_def doubleton_eq_iff)
    then have "i = i' \<or> i = m - i'" using circle_ix_inj le by blast
    then show ?thesis using i m by (auto elim!: oddE)
  qed
  have "r = r'"
  proof (cases "i = 0")
    case True
    then have "i' = 0" using zero i eq by metis
    with True eq have "circle_ix m r m = circle_ix m r' m"
      by (auto simp: places_def doubleton_eq_iff)
    then obtain j where "m = Suc j" "(int j - int r) mod int m = (int j - int r') mod int m"
      using m0 pos_mod_sign [of "int m"] by (cases m) (auto simp: nat_eq_iff2)
    then have "(2 * int r) mod int m = (2 * int r') mod int m"
      by (metis mod_diff_right_eq mod_mult_right_eq add.commute diff_add_cancel minus_diff_eq diff_diff_eq2)
    then show ?thesis by (rule circle_round_unique [OF m r])
  next
    case False
    then have "i' \<noteq> 0" using zero i eq by metis
    have "(- 2 * int r) mod int m = (- 2 * int r') mod int m"
      using circle_sum [of m i r] circle_sum [of m i' r'] False \<open>i' \<noteq> 0\<close> i eq m0
      by (auto simp: places_def doubleton_eq_iff add.commute)
    then have "int m dvd 2 * int r' - 2 * int r" by (simp add: mod_eq_dvd_iff)
    then have "(2 * int r) mod int m = (2 * int r') mod int m"
      by (simp add: mod_eq_dvd_iff dvd_diff_commute)
    then show ?thesis by (rule circle_round_unique [OF m r])
  qed
  with same show ?thesis by simp
qed

lemma places_all:
  assumes "odd m"
  shows "(\<lambda>(r, i). places m r i) ` ({..<m} \<times> {..<Suc m div 2}) = {B. B \<subseteq> {..<Suc m} \<and> card B = 2}"
proof (rule card_subset_eq)
  have m: "0 < m" using assms by (cases m) auto
  show "finite {B. B \<subseteq> {..<Suc m} \<and> card B = 2}" by simp
  have "places m r i \<subseteq> {..<Suc m} \<and> card (places m r i) = 2" if "i < Suc m div 2" for r i
  proof -
    have "i < Suc m" "m - i < Suc m" "i \<noteq> m - i" using that assms by (auto elim!: oddE)
    then have "circle_ix m r i \<noteq> circle_ix m r (m - i)" using circle_ix_inj by blast
    with \<open>i < Suc m\<close> \<open>m - i < Suc m\<close> circle_ix_less [OF m] show ?thesis by (simp add: places_def)
  qed
  then show "(\<lambda>(r, i). places m r i) ` ({..<m} \<times> {..<Suc m div 2}) \<subseteq> {B. B \<subseteq> {..<Suc m} \<and> card B = 2}"
    by auto
  have "inj_on (\<lambda>(r, i). places m r i) ({..<m} \<times> {..<Suc m div 2})"
    using places_unique [OF assms] by (auto intro!: inj_onI)
  then have "card ((\<lambda>(r, i). places m r i) ` ({..<m} \<times> {..<Suc m div 2})) = m * (Suc m div 2)"
    by (simp add: card_image)
  also have "\<dots> = Suc m choose 2"
    using assms by (auto simp: choose_two elim!: oddE)
  also have "\<dots> = card {B. B \<subseteq> {..<Suc m} \<and> card B = 2}"
    using n_subsets [of "{..<Suc m}" 2] by simp
  finally show "card ((\<lambda>(r, i). places m r i) ` ({..<m} \<times> {..<Suc m div 2})) =
      card {B. B \<subseteq> {..<Suc m} \<and> card B = 2}" .
qed

section \<open>The schedule\<close>

definition padded :: "entrant list \<Rightarrow> nat" where
  "padded es = (if length es mod 2 = 0 then length es else length es + 1)"

definition rr_matches :: "entrant list \<Rightarrow> match_id \<Rightarrow> bracket_match list" where
  "rr_matches es s = fst (buildRoundRobin es s)"

lemma rr_matches_rounds:
  "rr_matches es s = rr_rounds (rr_positions es) (padded es) [0..<padded es - 1] s"
proof -
  have "nat (int n - 1) = n - 1" for n by simp
  then show ?thesis by (simp add: rr_matches_def buildRoundRobin_def padded_def Let_def)
qed

text \<open>The game at place \<open>i\<close> of round \<open>r\<close>, if neither side is the dummy.\<close>

definition game :: "entrant list \<Rightarrow> nat \<times> nat \<Rightarrow> (entrant \<times> entrant) option" where
  "game es = (\<lambda>(r, i).
     let m = padded es - 1; u = circle_ix m r i; v = circle_ix m r (m - i)
     in if u < length es \<and> v < length es then Some (es ! u, es ! v) else None)"

lemma padded_odd:
  assumes "es \<noteq> []"
  obtains m where "odd m" "padded es = Suc m" "padded es - 1 = m" "length es \<le> Suc m"
proof -
  have "1 \<le> length es" using assms by (simp add: Suc_le_eq)
  then have "2 \<le> padded es" "even (padded es)" "length es \<le> padded es"
    by (auto simp: padded_def)
  then show thesis using that [of "padded es - 1"] by simp
qed

lemma rr_positions_nth:
  "u < padded es \<Longrightarrow> rr_positions es ! u = (if u < length es then Some (es ! u) else None)"
  by (auto simp: rr_positions_def padded_def Let_def nth_append)

lemma length_rr_positions [simp]: "length (rr_positions es) = padded es"
  by (simp add: rr_positions_def padded_def Let_def)

lemma pair_at_game:
  assumes "es \<noteq> []" "i < padded es div 2"
  shows "pair_at ((rr_rotate ^^ r) (rr_positions es)) (padded es) i = game es (r, i)"
proof -
  obtain m where m: "odd m" "padded es = Suc m" "padded es - 1 = m"
    using assms(1) by (rule padded_odd)
  have m0: "0 < m" using m(1) by (cases m) auto
  have i: "i < Suc m" "m - i < Suc m" using assms(2) m(2) by auto
  have "(rr_rotate ^^ r) (rr_positions es) ! j =
      (if circle_ix m r j < length es then Some (es ! circle_ix m r j) else None)" if "j < Suc m" for j
    using rr_rotates_nth [of "rr_positions es" m j r] that m0 m(2) circle_ix_less [OF m0 that, of r]
    by (simp add: rr_positions_nth)
  with i m show ?thesis by (simp add: pair_at_def game_def Let_def)
qed

definition rr_grid :: "entrant list \<Rightarrow> (nat \<times> nat) list" where
  "rr_grid es = List.product [0..<padded es - 1] [0..<padded es div 2]"

lemma rr_matches_games:
  assumes "es \<noteq> []"
  shows "map match_sides (rr_matches es s) = map both_some (List.map_filter (game es) (rr_grid es))"
proof -
  have row: "round_pairs ((rr_rotate ^^ r) (rr_positions es)) (padded es) =
      List.map_filter (game es) (map (Pair r) [0..<padded es div 2])" for r
    unfolding round_pairs_def map_filter_map
    by (rule map_filter_cong) (simp add: pair_at_game [OF assms])
  have "rr_grid es = concat (map (\<lambda>r. map (Pair r) [0..<padded es div 2]) [0..<padded es - 1])"
    by (simp add: rr_grid_def product_concat_map)
  then have "List.map_filter (game es) (rr_grid es) =
      concat (round_lists (rr_positions es) (padded es) (padded es - 1))"
    by (simp only: map_filter_concat round_lists_funpow row map_map comp_def)
  then show ?thesis by (simp add: rr_matches_rounds rr_rounds_spec(1))
qed

text \<open>The unordered pair of a game.\<close>

definition pair_set :: "entrant \<times> entrant \<Rightarrow> entrant set" where
  "pair_set = (\<lambda>(a, b). {a, b})"

lemma rr_sides:
  assumes "es \<noteq> []"
  shows "map sides_of (rr_matches es s) = map pair_set (List.map_filter (game es) (rr_grid es))"
proof -
  have "map sides_of ms = map ((\<lambda>(x, y). set_option x \<union> set_option y)) (map match_sides ms)" for ms
    by (simp add: sides_of_def match_sides_def)
  note sides = this
  have "map sides_of (rr_matches es s) =
      map ((\<lambda>(x, y). set_option x \<union> set_option y) \<circ> both_some) (List.map_filter (game es) (rr_grid es))"
    unfolding sides rr_matches_games [OF assms] by simp
  moreover have "(\<lambda>(x, y). set_option x \<union> set_option y) \<circ> both_some = pair_set"
    by (auto simp: fun_eq_iff both_some_def pair_set_def)
  ultimately show ?thesis by simp
qed

lemma game_places:
  assumes "game es (r, i) = Some ab" "distinct es"
  shows "pair_set ab = (!) es ` places (padded es - 1) r i" "places (padded es - 1) r i \<subseteq> {..<length es}"
  using assms by (auto simp: game_def pair_set_def places_def Let_def split: if_splits)

lemma rr_distinct:
  assumes "es \<noteq> []" "distinct es"
  shows "distinct (map sides_of (rr_matches es s))"
  unfolding rr_sides [OF assms(1)]
proof (rule distinct_map_filter)
  obtain m where m: "odd m" "padded es = Suc m" "padded es - 1 = m"
    using assms(1) by (rule padded_odd)
  show "distinct (rr_grid es)" by (simp add: rr_grid_def distinct_product)
  fix x y ab ab'
  assume xy: "x \<in> set (rr_grid es)" "y \<in> set (rr_grid es)"
    and g: "game es x = Some ab" "game es y = Some ab'" "pair_set ab = pair_set ab'"
  obtain r i r' i' where p: "x = (r, i)" "y = (r', i')" by (cases x; cases y)
  have "inj_on ((!) es) {..<length es}" using assms(2) by (simp add: inj_on_nth)
  then have "places m r i = places m r' i'"
    using game_places [OF g(1) [unfolded p] assms(2)] game_places [OF g(2) [unfolded p] assms(2)] g(3) m(3)
    by (metis inj_on_image_eq_iff)
  with xy m show "x = y"
    using places_unique [OF m(1), of r r' i i'] by (auto simp: p rr_grid_def)
qed

lemma rr_covers:
  assumes "es \<noteq> []" "distinct es"
  shows "sides_of ` set (rr_matches es s) = {{a, b} | a b. a \<in> set es \<and> b \<in> set es \<and> a \<noteq> b}"
proof -
  obtain m where m: "odd m" "padded es = Suc m" "padded es - 1 = m" "length es \<le> Suc m"
    using assms(1) by (rule padded_odd)
  have "sides_of ` set (rr_matches es s) = pair_set ` set (List.map_filter (game es) (rr_grid es))"
    using arg_cong [OF rr_sides [OF assms(1)], of set s] by simp
  also have "\<dots> = {{a, b} | a b. a \<in> set es \<and> b \<in> set es \<and> a \<noteq> b}"
  proof (intro set_eqI iffI)
    fix B assume "B \<in> pair_set ` set (List.map_filter (game es) (rr_grid es))"
    then obtain r i ab where ri: "(r, i) \<in> set (rr_grid es)" "game es (r, i) = Some ab" "B = pair_set ab"
      by (auto simp: set_map_filter_Some)
    have "places m r i \<in> {B. B \<subseteq> {..<Suc m} \<and> card B = 2}"
      unfolding places_all [OF m(1), symmetric] using ri(1) m by (force simp: rr_grid_def)
    then obtain u v where uv: "places m r i = {u, v}" "u \<noteq> v" by (auto simp: card_2_iff)
    with game_places [OF ri(2) assms(2)] m(3) ri(3)
    have "B = {es ! u, es ! v}" "u < length es" "v < length es" by auto
    moreover from this uv(2) assms(2) have "es ! u \<noteq> es ! v" by (simp add: nth_eq_iff_index_eq)
    moreover have "es ! u \<in> set es" "es ! v \<in> set es" using calculation by simp_all
    ultimately show "B \<in> {{a, b} | a b. a \<in> set es \<and> b \<in> set es \<and> a \<noteq> b}" by blast
  next
    fix B assume "B \<in> {{a, b} | a b. a \<in> set es \<and> b \<in> set es \<and> a \<noteq> b}"
    then obtain u v where uv: "u < length es" "v < length es" "u \<noteq> v" "B = {es ! u, es ! v}"
      by (auto simp: in_set_conv_nth)
    then have "{u, v} \<in> {B. B \<subseteq> {..<Suc m} \<and> card B = 2}" using m(4) by auto
    then obtain r i where ri: "r < m" "i < Suc m div 2" "places m r i = {u, v}"
      unfolding places_all [OF m(1), symmetric] by auto
    then have "circle_ix m r i < length es" "circle_ix m r (m - i) < length es"
      using uv by (auto simp: places_def doubleton_eq_iff)
    then obtain ab where ab: "game es (r, i) = Some ab" unfolding game_def Let_def m(3) by simp
    have "pair_set ab = B" using game_places(1) [OF ab assms(2)] ri(3) m(3) uv(4) by simp
    moreover have "(r, i) \<in> set (rr_grid es)" using ri m by (auto simp: rr_grid_def)
    ultimately show "B \<in> pair_set ` set (List.map_filter (game es) (rr_grid es))"
      using ab by (force simp: set_map_filter_Some)
  qed
  finally show ?thesis .
qed

section \<open>Nobody plays twice in a round\<close>

lemma rr_rounds_row:
  assumes "m \<in> set (rr_rounds ps L rs s)"
  obtains j i ab where "j < length rs" "m_round m = rs ! j" "i < L div 2"
    "pair_at ((rr_rotate ^^ j) ps) L i = Some ab" "match_sides m = both_some ab"
  using assms
proof (induction rs arbitrary: ps s thesis)
  case (Cons r rs)
  note R = rr_round_spec [of ps L r "[0..<L div 2]" 0 s]
  from Cons.prems(2) consider "m \<in> set (fst (rr_round ps L r [0..<L div 2] 0 s))"
    | "m \<in> set (rr_rounds (rr_rotate ps) L rs (snd (rr_round ps L r [0..<L div 2] 0 s)))"
    by (auto simp: Let_def case_prod_unfold)
  then show ?case
  proof cases
    case 1
    then have "match_sides m \<in> set (map both_some (List.map_filter (pair_at ps L) [0..<L div 2]))"
      by (simp flip: R(1))
    then obtain i ab where "i < L div 2" "pair_at ps L i = Some ab" "match_sides m = both_some ab"
      by (auto simp: set_map_filter_Some)
    with 1 R(4) show ?thesis by (intro Cons.prems(1) [of 0 i ab]) simp_all
  next
    case 2
    then show ?thesis
    proof (rule Cons.IH [rotated])
      fix j i ab
      assume "j < length rs" "m_round m = rs ! j" "i < L div 2"
        "pair_at ((rr_rotate ^^ j) (rr_rotate ps)) L i = Some ab" "match_sides m = both_some ab"
      then show thesis by (intro Cons.prems(1) [of "Suc j" i ab]) (simp_all add: funpow_swap1)
    qed
  qed
qed simp

lemma rr_match_game:
  assumes "es \<noteq> []" "m \<in> set (rr_matches es s)"
  obtains i ab where "(m_round m, i) \<in> set (rr_grid es)" "game es (m_round m, i) = Some ab"
    "sides_of m = pair_set ab"
proof -
  from assms(2) obtain j i ab where j: "j < length [0..<padded es - 1]" "m_round m = [0..<padded es - 1] ! j"
    "i < padded es div 2" "pair_at ((rr_rotate ^^ j) (rr_positions es)) (padded es) i = Some ab"
    "match_sides m = both_some ab"
    unfolding rr_matches_rounds by (rule rr_rounds_row)
  have "game es (j, i) = Some ab" using j pair_at_game [OF assms(1) j(3)] by simp
  moreover have "sides_of m = pair_set ab"
    using j(5) by (auto simp: match_sides_def both_some_def pair_set_def sides_of_def case_prod_unfold
        map_prod_def)
  moreover have "m_round m = j" "(j, i) \<in> set (rr_grid es)" using j by (simp_all add: rr_grid_def)
  ultimately show thesis using that by simp
qed

lemma rr_round_disjoint:
  assumes "es \<noteq> []" "distinct es" "m1 \<in> set (rr_matches es s)" "m2 \<in> set (rr_matches es s)"
    "m_round m1 = m_round m2" "x \<in> sides_of m1" "x \<in> sides_of m2"
  shows "m1 = m2"
proof -
  obtain m where m: "odd m" "padded es = Suc m" "padded es - 1 = m"
    using assms(1) by (rule padded_odd)
  obtain i1 p1 where 1: "(m_round m1, i1) \<in> set (rr_grid es)" "game es (m_round m1, i1) = Some p1"
    "sides_of m1 = pair_set p1" using assms(1,3) by (rule rr_match_game)
  obtain i2 p2 where 2: "(m_round m2, i2) \<in> set (rr_grid es)" "game es (m_round m2, i2) = Some p2"
    "sides_of m2 = pair_set p2" using assms(1,4) by (rule rr_match_game)
  let ?P = "\<lambda>i. places m (m_round m1) i"
  have g: "pair_set p1 = (!) es ` ?P i1" "?P i1 \<subseteq> {..<length es}"
    "pair_set p2 = (!) es ` ?P i2" "?P i2 \<subseteq> {..<length es}"
    using game_places [OF 1(2) assms(2)] game_places [OF 2(2) assms(2)] m(3) assms(5) by simp_all
  from assms(6) obtain u where u: "u \<in> ?P i1" "x = es ! u" unfolding 1(3) g(1) by blast
  from assms(7) obtain v where v: "v \<in> ?P i2" "x = es ! v" unfolding 2(3) g(3) by blast
  have "u < length es" "v < length es" using g(2,4) u(1) v(1) by auto
  with u(2) v(2) assms(2) have "u = v" by (simp add: nth_eq_iff_index_eq)
  have i: "i1 < Suc m div 2" "i2 < Suc m div 2" using 1(1) 2(1) m(2) by (auto simp: rr_grid_def)
  have le: "i1 < Suc m" "m - i1 < Suc m" "i2 < Suc m" "m - i2 < Suc m" using i by auto
  from u(1) v(1) \<open>u = v\<close> have "i1 = i2 \<or> i1 = m - i2 \<or> m - i1 = i2 \<or> m - i1 = m - i2"
    unfolding places_def using circle_ix_inj le by blast
  with i m(1) have "i1 = i2" by (auto elim!: oddE)
  with 1 2 assms(5) have "sides_of m1 = sides_of m2" by simp
  moreover have "inj_on sides_of (set (rr_matches es s))"
    using rr_distinct [OF assms(1,2)] by (simp add: distinct_map)
  ultimately show ?thesis using assms(3,4) by (auto dest: inj_onD)
qed

section \<open>The builder keeps the contract of a format\<close>

lemma rr_fresh: "fresh_batch es s (rr_matches es s)"
proof -
  have "sides_of m \<subseteq> set es" if mem: "m \<in> set (rr_matches es s)" for m
  proof (cases "es = []")
    case True
    with mem show ?thesis by (simp add: rr_matches_rounds padded_def)
  next
    case False
    obtain i ab where "game es (m_round m, i) = Some ab" "sides_of m = pair_set ab"
      by (rule rr_match_game [OF False mem]) blast
    then show ?thesis by (auto simp: game_def Let_def pair_set_def split: if_splits)
  qed
  then show ?thesis
    using rr_rounds_spec(2,3) [of "rr_positions es" "padded es" "[0..<padded es - 1]" s]
    by (simp add: fresh_batch_def rr_matches_rounds)
qed

definition round_robin_build ::
  "entrant list \<Rightarrow> match_id \<Rightarrow> (engine_error, bracket_match list) result" where
  "round_robin_build es s = Inr (rr_matches es s)"

interpretation round_robin: match_source round_robin_build
  by unfold_locales (auto simp: round_robin_build_def rr_fresh)

end
