(* ===== verification/Swiss.thy ===== *)
theory Swiss
  imports Match_Source
begin

text \<open>
  Swiss pairing, \<open>web/src/lib/engine/swiss.ts\<close>. An entry counts wins, draws and losses and
  remembers the ids it has met; a round pairs greedily in standing order.
\<close>

section \<open>The functions of the source\<close>

record swiss_entry =
  se_entrant :: entrant
  se_wins :: nat
  se_draws :: nat
  se_losses :: nat
  se_played :: "entrant_id set"

definition SwissEntry :: "entrant \<Rightarrow> swiss_entry" where
  "SwissEntry e = \<lparr>se_entrant = e, se_wins = 0, se_draws = 0, se_losses = 0, se_played = {}\<rparr>"

text \<open>\<open>wins + 0.5 * draws\<close>, counted in halves so that it stays an integer.\<close>

definition score2 :: "swiss_entry \<Rightarrow> int" where
  "score2 e = 2 * int (se_wins e) + int (se_draws e)"

text \<open>
  The comparator of \<open>idx.sort\<close>: score descending, seed ascending, id ascending. It is the
  order of a key type, so that the library's stable \<^const>\<open>sort_key\<close> is the sort.
\<close>

datatype swiss_key = SwissKey (sk_score: int) (sk_seed: int) (sk_id: int)

fun swiss_cmp :: "swiss_key \<Rightarrow> swiss_key \<Rightarrow> int" where
  "swiss_cmp (SwissKey sa da ia) (SwissKey sb db ib) =
     (if sb \<noteq> sa then sb - sa else if da \<noteq> db then da - db else ia - ib)"

instantiation swiss_key :: linorder
begin

definition less_eq_swiss_key :: "swiss_key \<Rightarrow> swiss_key \<Rightarrow> bool" where
  "less_eq_swiss_key a b \<longleftrightarrow> swiss_cmp a b \<le> 0"

definition less_swiss_key :: "swiss_key \<Rightarrow> swiss_key \<Rightarrow> bool" where
  "less_swiss_key a b \<longleftrightarrow> swiss_cmp a b < 0"

instance
proof
  fix x y z :: swiss_key
  show "(x < y) = (x \<le> y \<and> \<not> y \<le> x)"
    by (cases x; cases y) (auto simp: less_eq_swiss_key_def less_swiss_key_def)
  show "x \<le> x" by (cases x) (simp add: less_eq_swiss_key_def)
  show "x \<le> y \<Longrightarrow> y \<le> z \<Longrightarrow> x \<le> z"
    by (cases x; cases y; cases z) (auto simp: less_eq_swiss_key_def split: if_splits)
  show "x \<le> y \<Longrightarrow> y \<le> x \<Longrightarrow> x = y"
    by (cases x; cases y) (auto simp: less_eq_swiss_key_def split: if_splits)
  show "x \<le> y \<or> y \<le> x"
    by (cases x; cases y) (auto simp: less_eq_swiss_key_def split: if_splits)
qed

end

definition entry_key :: "swiss_entry \<Rightarrow> swiss_key" where
  "entry_key e = SwissKey (score2 e) (ent_seed (se_entrant e)) (ent_id (se_entrant e))"

definition swiss_order :: "swiss_entry list \<Rightarrow> nat list" where
  "swiss_order entries = sort_key (\<lambda>i. entry_key (entries ! i)) [0..<length entries]"

record swiss_pair =
  sp_id :: match_id
  sp_a :: entrant
  sp_b :: entrant

text \<open>The inner loop: the first unpaired opponent in standing order who was not met yet.\<close>

definition choose_opponent ::
  "swiss_entry list \<Rightarrow> bool list \<Rightarrow> nat list \<Rightarrow> nat \<Rightarrow> nat option" where
  "choose_opponent entries paired idx i =
     List.find (\<lambda>j. j \<noteq> i \<and> \<not> paired ! j \<and>
        ent_id (se_entrant (entries ! j)) \<notin> se_played (entries ! i)) idx"

definition add_played :: "nat \<Rightarrow> entrant_id \<Rightarrow> swiss_entry list \<Rightarrow> swiss_entry list" where
  "add_played i x entries =
     entries[i := (entries ! i)\<lparr>se_played := insert x (se_played (entries ! i))\<rparr>]"

fun pair_loop ::
  "nat list \<Rightarrow> nat list \<Rightarrow> bool list \<Rightarrow> swiss_entry list \<Rightarrow> match_id \<Rightarrow>
     swiss_pair list \<times> swiss_entry list" where
  "pair_loop idx [] paired entries nextId = ([], entries)"
| "pair_loop idx (i # is) paired entries nextId =
     (if paired ! i then pair_loop idx is paired entries nextId
      else case choose_opponent entries paired idx i of
        None \<Rightarrow> pair_loop idx is paired entries nextId
      | Some j \<Rightarrow>
          (let a = se_entrant (entries ! i); b = se_entrant (entries ! j);
               entries' = add_played j (ent_id a) (add_played i (ent_id b) entries);
               (out, entries'') = pair_loop idx is (paired[i := True, j := True]) entries' (nextId + 1)
           in (\<lparr>sp_id = nextId, sp_a = a, sp_b = b\<rparr> # out, entries'')))"

definition pairSwissRound ::
  "swiss_entry list \<Rightarrow> match_id \<Rightarrow> swiss_pair list \<times> swiss_entry list" where
  "pairSwissRound entries startId =
     (let idx = swiss_order entries
      in pair_loop idx idx (replicate (length entries) False) entries startId)"

section \<open>What one round of pairing produces\<close>

text \<open>An induction rule that follows the three paths of the loop body.\<close>

lemma pair_loop_induct [case_names Nil Skip None Pair]:
  assumes "\<And>paired entries nextId. P [] paired entries nextId"
    and "\<And>i is paired entries nextId. paired ! i \<Longrightarrow> P is paired entries nextId \<Longrightarrow>
      P (i # is) paired entries nextId"
    and "\<And>i is paired entries nextId. \<not> paired ! i \<Longrightarrow> choose_opponent entries paired idx i = None \<Longrightarrow>
      P is paired entries nextId \<Longrightarrow> P (i # is) paired entries nextId"
    and "\<And>i is paired entries nextId j. \<not> paired ! i \<Longrightarrow>
      choose_opponent entries paired idx i = Some j \<Longrightarrow>
      P is (paired[i := True, j := True])
        (add_played j (ent_id (se_entrant (entries ! i)))
          (add_played i (ent_id (se_entrant (entries ! j))) entries)) (nextId + 1) \<Longrightarrow>
      P (i # is) paired entries nextId"
  shows "P is paired entries nextId"
proof (induction "is" arbitrary: paired entries nextId)
  case (Cons i "is")
  then show ?case
    using assms(2-4) by (cases "paired ! i"; cases "choose_opponent entries paired idx i") blast+
qed (rule assms(1))

definition entry_entrants :: "swiss_entry list \<Rightarrow> entrant list" where
  "entry_entrants entries = map se_entrant entries"

lemma add_played_entrants [simp]: "entry_entrants (add_played i x entries) = entry_entrants entries"
  by (cases "i < length entries") (auto simp: entry_entrants_def add_played_def map_update intro!: nth_equalityI simp: nth_list_update)

lemma length_add_played [simp]: "length (add_played i x entries) = length entries"
  by (simp add: add_played_def)

lemma add_played_other [simp]: "k \<noteq> i \<Longrightarrow> add_played i x entries ! k = entries ! k"
  by (simp add: add_played_def)

lemma pair_loop_ids:
  "map sp_id (fst (pair_loop idx is paired entries nextId)) =
     ids_from nextId (length (fst (pair_loop idx is paired entries nextId)))"
  by (induction "is" paired entries nextId rule: pair_loop_induct [where idx = idx])
    (simp_all add: ids_from_Suc Let_def case_prod_unfold)

lemma pair_loop_entrants:
  "entry_entrants (snd (pair_loop idx is paired entries nextId)) = entry_entrants entries"
  by (induction "is" paired entries nextId rule: pair_loop_induct [where idx = idx])
    (simp_all add: Let_def case_prod_unfold)

text \<open>A pair stands for two different unpaired entries that have not met.\<close>

definition fair_pair :: "swiss_entry list \<Rightarrow> bool list \<Rightarrow> swiss_pair \<Rightarrow> bool" where
  "fair_pair entries paired p \<longleftrightarrow>
     (\<exists>i j. i < length entries \<and> j < length entries \<and> i \<noteq> j \<and> \<not> paired ! i \<and> \<not> paired ! j \<and>
        sp_a p = se_entrant (entries ! i) \<and> sp_b p = se_entrant (entries ! j) \<and>
        ent_id (sp_b p) \<notin> se_played (entries ! i))"

lemma choose_opponentD:
  "choose_opponent entries paired idx i = Some j \<Longrightarrow>
     j \<in> set idx \<and> j \<noteq> i \<and> \<not> paired ! j \<and>
     ent_id (se_entrant (entries ! j)) \<notin> se_played (entries ! i)"
  unfolding choose_opponent_def by (drule find_Some_iff_hd) simp

lemma se_entrant_add_played [simp]:
  "k < length entries \<Longrightarrow> se_entrant (add_played i x entries ! k) = se_entrant (entries ! k)"
  by (cases "k = i") (simp_all add: add_played_def)

lemma unpaired_after [simp]:
  "k < length paired \<Longrightarrow> paired[i := True, j := True] ! k \<longleftrightarrow> k = i \<or> k = j \<or> paired ! k"
  by (cases "k = j"; cases "k = i") simp_all

lemma fair_pair_later:
  assumes "fair_pair (add_played j x (add_played i y entries)) (paired[i := True, j := True]) p"
    and "length paired = length entries"
  shows "fair_pair entries paired p"
proof -
  from assms(1) obtain i' j' where ij: "i' < length entries" "j' < length entries" "i' \<noteq> j'"
    "\<not> paired[i := True, j := True] ! i'" "\<not> paired[i := True, j := True] ! j'"
    "sp_a p = se_entrant (entries ! i')" "sp_b p = se_entrant (entries ! j')"
    "ent_id (sp_b p) \<notin> se_played (add_played j x (add_played i y entries) ! i')"
    by (auto simp: fair_pair_def)
  then have "i' \<noteq> i" "i' \<noteq> j" "\<not> paired ! i'" "\<not> paired ! j'"
    using assms(2) by simp_all
  with ij show ?thesis unfolding fair_pair_def by (intro exI [of _ i'] exI [of _ j']) simp
qed

lemma pair_loop_fair:
  assumes "set idx \<subseteq> {..<length entries}" "set is \<subseteq> {..<length entries}"
    "length paired = length entries" "p \<in> set (fst (pair_loop idx is paired entries nextId))"
  shows "fair_pair entries paired p"
  using assms
proof (induction "is" paired entries nextId rule: pair_loop_induct [where idx = idx])
  case (Pair i "is" paired entries nextId j)
  note j = choose_opponentD [OF Pair.hyps(2)]
  let ?p = "\<lparr>sp_id = nextId, sp_a = se_entrant (entries ! i), sp_b = se_entrant (entries ! j)\<rparr>"
  from Pair.prems(4) Pair.hyps consider "p = ?p"
    | "p \<in> set (fst (pair_loop idx is (paired[i := True, j := True])
        (add_played j (ent_id (se_entrant (entries ! i)))
          (add_played i (ent_id (se_entrant (entries ! j))) entries)) (nextId + 1)))"
    by (auto simp: Let_def case_prod_unfold)
  then show ?case
  proof cases
    case 1
    with j Pair show ?thesis unfolding fair_pair_def by (intro exI [of _ i] exI [of _ j]) auto
  next
    case 2
    show ?thesis
      by (rule fair_pair_later [OF Pair.IH]) (use 2 Pair.prems in simp_all)
  qed
qed (simp_all add: Let_def case_prod_unfold)

text \<open>The ids on the pairs of a round.\<close>

definition pair_ids :: "swiss_pair list \<Rightarrow> entrant_id list" where
  "pair_ids ps = concat (map (\<lambda>p. [ent_id (sp_a p), ent_id (sp_b p)]) ps)"

definition entry_id :: "swiss_entry list \<Rightarrow> nat \<Rightarrow> entrant_id" where
  "entry_id entries i = ent_id (se_entrant (entries ! i))"

definition unique_ids :: "swiss_entry list \<Rightarrow> bool" where
  "unique_ids entries \<longleftrightarrow> distinct (map ent_id (entry_entrants entries))"

lemma unique_ids_inj:
  "unique_ids entries \<Longrightarrow> i < length entries \<Longrightarrow> j < length entries \<Longrightarrow>
     entry_id entries i = entry_id entries j \<longleftrightarrow> i = j"
  using nth_eq_iff_index_eq [of "map ent_id (entry_entrants entries)" i j]
  by (simp add: unique_ids_def entry_id_def entry_entrants_def)

lemma fair_pair_unpaired:
  assumes "fair_pair entries paired p" "x \<in> {ent_id (sp_a p), ent_id (sp_b p)}"
  obtains i where "i < length entries" "\<not> paired ! i" "x = entry_id entries i"
  using assms by (auto simp: fair_pair_def entry_id_def)

lemma pair_loop_distinct:
  assumes "set idx \<subseteq> {..<length entries}" "set is \<subseteq> {..<length entries}"
    "length paired = length entries" "unique_ids entries"
  shows "distinct (pair_ids (fst (pair_loop idx is paired entries nextId)))"
  using assms
proof (induction "is" paired entries nextId rule: pair_loop_induct [where idx = idx])
  case (Pair i "is" paired entries nextId j)
  note j = choose_opponentD [OF Pair.hyps(2)]
  let ?paired = "paired[i := True, j := True]"
  let ?entries = "add_played j (ent_id (se_entrant (entries ! i)))
          (add_played i (ent_id (se_entrant (entries ! j))) entries)"
  let ?out = "fst (pair_loop idx is ?paired ?entries (nextId + 1))"
  have len: "length ?paired = length ?entries" using Pair.prems by simp
  have i: "i < length entries" "j < length entries" using Pair.prems j by auto
  have uniq: "unique_ids ?entries" using Pair.prems by (simp add: unique_ids_def)
  have rest: "x \<noteq> entry_id entries i \<and> x \<noteq> entry_id entries j" if "x \<in> set (pair_ids ?out)" for x
  proof -
    from that obtain p where p: "p \<in> set ?out" "x \<in> {ent_id (sp_a p), ent_id (sp_b p)}"
      by (auto simp: pair_ids_def)
    have "fair_pair ?entries ?paired p"
      by (rule pair_loop_fair [OF _ _ len p(1)]) (use Pair.prems in simp_all)
    then obtain m where m: "m < length ?entries" "\<not> ?paired ! m" "x = entry_id ?entries m"
      using p(2) by (rule fair_pair_unpaired)
    then have ne: "m \<noteq> i" "m \<noteq> j" and x: "x = entry_id entries m"
      using i Pair.prems(3) by (simp_all add: entry_id_def)
    from m(1) have "m < length entries" by simp
    with i ne Pair.prems(4) show ?thesis unfolding x by (simp add: unique_ids_inj)
  qed
  have ij: "entry_id entries i \<noteq> entry_id entries j" using i j Pair.prems(4) by (simp add: unique_ids_inj)
  have "fst (pair_loop idx (i # is) paired entries nextId) =
      \<lparr>sp_id = nextId, sp_a = se_entrant (entries ! i), sp_b = se_entrant (entries ! j)\<rparr> # ?out"
    using Pair.hyps by (simp add: Let_def case_prod_unfold)
  moreover have "distinct (pair_ids ?out)" by (rule Pair.IH) (use Pair.prems uniq in simp_all)
  ultimately show ?case
    using rest ij by (auto simp: pair_ids_def entry_id_def)
qed (simp_all add: Let_def case_prod_unfold pair_ids_def)

text \<open>The pairing is greedy: two entries left over have already met.\<close>

lemma choose_opponent_None:
  "choose_opponent entries paired idx i = None \<Longrightarrow> j \<in> set idx \<Longrightarrow> j \<noteq> i \<Longrightarrow>
     paired ! j \<or> ent_id (se_entrant (entries ! j)) \<in> se_played (entries ! i)"
  by (auto simp: choose_opponent_def find_None_iff)

lemma pair_loop_maximal:
  assumes "set idx \<subseteq> {..<length entries}" "set is \<subseteq> {..<length entries}"
    "length paired = length entries"
    "i \<in> set is" "j \<in> set idx" "i \<noteq> j" "\<not> paired ! i" "\<not> paired ! j"
    "entry_id entries i \<notin> set (pair_ids (fst (pair_loop idx is paired entries nextId)))"
    "entry_id entries j \<notin> set (pair_ids (fst (pair_loop idx is paired entries nextId)))"
  shows "entry_id entries j \<in> se_played (entries ! i)"
  using assms
proof (induction "is" paired entries nextId rule: pair_loop_induct [where idx = idx])
  case (None i' "is" paired entries nextId)
  then show ?case
    using choose_opponent_None [OF None.hyps(2), of j] by (auto simp: entry_id_def)
next
  case (Pair i' "is" paired entries nextId j')
  note j' = choose_opponentD [OF Pair.hyps(2)]
  let ?entries = "add_played j' (ent_id (se_entrant (entries ! i')))
          (add_played i' (ent_id (se_entrant (entries ! j'))) entries)"
  let ?out = "fst (pair_loop idx is (paired[i' := True, j' := True]) ?entries (nextId + 1))"
  have out: "pair_ids (fst (pair_loop idx (i' # is) paired entries nextId)) =
      entry_id entries i' # entry_id entries j' # pair_ids ?out"
    using Pair.hyps by (simp add: Let_def case_prod_unfold pair_ids_def entry_id_def)
  have i: "entry_id entries i \<noteq> entry_id entries i'" "entry_id entries i \<noteq> entry_id entries j'"
    "entry_id entries i \<notin> set (pair_ids ?out)" using Pair.prems(9) unfolding out by simp_all
  have j: "entry_id entries j \<noteq> entry_id entries i'" "entry_id entries j \<noteq> entry_id entries j'"
    "entry_id entries j \<notin> set (pair_ids ?out)" using Pair.prems(10) unfolding out by simp_all
  have ne: "i \<noteq> i'" "i \<noteq> j'" "j \<noteq> i'" "j \<noteq> j'" using i j by auto
  have lt: "i < length entries" "j < length entries" using Pair.prems(1,2,4,5) by auto
  have same: "entry_id ?entries i = entry_id entries i" "entry_id ?entries j = entry_id entries j"
    using ne lt by (simp_all add: entry_id_def)
  have "entry_id ?entries j \<in> se_played (?entries ! i)"
    by (rule Pair.IH) (use Pair.prems(1-8) ne lt in \<open>simp_all add: i(3) j(3) same\<close>)
  then show ?case using ne lt by (simp add: entry_id_def)
qed (auto simp: Let_def case_prod_unfold)

section \<open>One round\<close>

lemma set_swiss_order: "set (swiss_order entries) = {..<length entries}"
  by (auto simp: swiss_order_def)

lemma pairSwissRound_ids:
  "map sp_id (fst (pairSwissRound entries s)) = ids_from s (length (fst (pairSwissRound entries s)))"
  unfolding pairSwissRound_def Let_def by (rule pair_loop_ids)

lemma pairSwissRound_entrants:
  "entry_entrants (snd (pairSwissRound entries s)) = entry_entrants entries"
  unfolding pairSwissRound_def Let_def by (rule pair_loop_entrants)

lemma pairSwissRound_fair:
  "p \<in> set (fst (pairSwissRound entries s)) \<Longrightarrow>
     fair_pair entries (replicate (length entries) False) p"
  unfolding pairSwissRound_def Let_def
  by (rule pair_loop_fair) (simp_all add: set_swiss_order)

lemma pairSwissRound_distinct:
  "unique_ids entries \<Longrightarrow> distinct (pair_ids (fst (pairSwissRound entries s)))"
  unfolding pairSwissRound_def Let_def
  by (rule pair_loop_distinct) (simp_all add: set_swiss_order)

lemma pairSwissRound_maximal:
  assumes "i < length entries" "j < length entries" "i \<noteq> j"
    "entry_id entries i \<notin> set (pair_ids (fst (pairSwissRound entries s)))"
    "entry_id entries j \<notin> set (pair_ids (fst (pairSwissRound entries s)))"
  shows "entry_id entries j \<in> se_played (entries ! i)"
  using assms unfolding pairSwissRound_def Let_def
  by (intro pair_loop_maximal [of "swiss_order entries" entries "swiss_order entries"
        "replicate (length entries) False" i j s])
    (simp_all add: set_swiss_order)

lemma fair_pair_sides:
  "fair_pair entries paired p \<Longrightarrow>
     sp_a p \<in> set (entry_entrants entries) \<and> sp_b p \<in> set (entry_entrants entries)"
  by (auto simp: fair_pair_def entry_entrants_def)

end
