(* ===== verification/Tournament.thy ===== *)
theory Tournament
  imports Single_Elim Round_Robin Swiss
begin

text \<open>
  The tournament driver, class \<open>Tournament\<close> of \<open>web/src/lib/engine/tournament.ts\<close>: its
  private state, its factory, \<open>record\<close>, \<open>advance\<close> and the queries. A method that mutates
  \<open>this\<close> returns the new state; a method that throws returns the error.
\<close>

record tournament =
  t_format :: tournament_format
  t_entrants :: "entrant list"
  t_matchMap :: match_map
  t_nextId :: match_id
  t_complete :: bool
  t_swissEntries :: "swiss_entry list option"
  t_swissRound :: nat

type_synonym 'a engine = "(engine_error, 'a) result"

section \<open>Queries\<close>

text \<open>\<open>matches()\<close>: the values sorted by id.\<close>

definition matches :: "tournament \<Rightarrow> bracket_match list" where
  "matches t = sort_key m_id (map snd (t_matchMap t))"

definition pending :: "tournament \<Rightarrow> match_id list" where
  "pending t = map m_id (filter isReady (matches t))"

definition isComplete :: "tournament \<Rightarrow> bool" where
  "isComplete t = t_complete t"

definition champion :: "tournament \<Rightarrow> entrant_id option" where
  "champion t =
     (case List.find (\<lambda>m. m_winnerTo m = None \<and> m_outcome m \<noteq> None) (matches t) of
        None \<Rightarrow> None
      | Some finalMatch \<Rightarrow>
          (case m_outcome finalMatch of None \<Rightarrow> None
           | Some out \<Rightarrow>
               (case outcomeWinner out of None \<Rightarrow> None
                | Some w \<Rightarrow> map_option ent_id (matchSide finalMatch w))))"

section \<open>Single elimination: byes and propagation\<close>

text \<open>Step 1 of the loop body: complete the byes of round 0.\<close>

definition auto_bye :: "bracket_match \<Rightarrow> bracket_match" where
  "auto_bye m =
     (if m_round m = 0 \<and> m_outcome m = None
      then (case (m_a m, m_b m) of
              (Some _, None) \<Rightarrow> m\<lparr>m_outcome := Some OutA\<rparr>
            | (None, Some _) \<Rightarrow> m\<lparr>m_outcome := Some OutB\<rparr>
            | _ \<Rightarrow> m)
      else m)"

definition is_auto_bye :: "bracket_match \<Rightarrow> bool" where
  "is_auto_bye m \<longleftrightarrow> m_round m = 0 \<and> m_outcome m = None \<and> isBye m"

definition bye_pass :: "match_map \<Rightarrow> match_map" where
  "bye_pass mm = map (\<lambda>(k, m). (k, auto_bye m)) mm"

text \<open>Step 2: the winners whose target side is still free.\<close>

definition update_of :: "match_map \<Rightarrow> bracket_match \<Rightarrow> (match_id \<times> side \<times> entrant) option" where
  "update_of mm m =
     (case (m_outcome m, m_winnerTo m) of
        (Some out, Some (tgt, side)) \<Rightarrow>
          (case outcomeWinner out of None \<Rightarrow> None
           | Some winnerSide \<Rightarrow>
               (case matchSide m winnerSide of None \<Rightarrow> None
                | Some winner \<Rightarrow>
                    (case map_of mm tgt of None \<Rightarrow> None
                     | Some target \<Rightarrow>
                         if matchSide target side \<noteq> None then None
                         else Some (tgt, side, winner))))
      | _ \<Rightarrow> None)"

definition collect_updates :: "match_map \<Rightarrow> (match_id \<times> side \<times> entrant) list" where
  "collect_updates mm = List.map_filter (update_of mm) (map snd mm)"

definition set_side :: "side \<Rightarrow> entrant \<Rightarrow> bracket_match \<Rightarrow> bracket_match" where
  "set_side s e m = (case s of SideA \<Rightarrow> m\<lparr>m_a := Some e\<rparr> | SideB \<Rightarrow> m\<lparr>m_b := Some e\<rparr>)"

definition apply_updates :: "(match_id \<times> side \<times> entrant) list \<Rightarrow> match_map \<Rightarrow> match_map" where
  "apply_updates ups mm =
     foldl (\<lambda>mm (tgt, side, winner). AList.map_entry tgt (set_side side winner) mm) mm ups"

text \<open>
  The loop ends: a round that changes something decides an open bye or fills a free side.
  What shrinks is the number of fields that are still null.
\<close>

definition open_fields :: "bracket_match \<Rightarrow> nat" where
  "open_fields m =
     (if m_outcome m = None then 1 else 0) + (if m_a m = None then 1 else 0) +
     (if m_b m = None then 1 else 0)"

definition map_open :: "match_map \<Rightarrow> nat" where
  "map_open mm = sum_list (map (open_fields \<circ> snd) mm)"

lemma open_fields_auto_bye:
  "open_fields (auto_bye m) + (if is_auto_bye m then 1 else 0) = open_fields m"
  by (cases "m_a m"; cases "m_b m"; cases "m_outcome m")
    (simp_all add: auto_bye_def is_auto_bye_def isBye_def open_fields_def)

lemma map_open_bye_pass:
  "map_open (bye_pass mm) + length (filter (is_auto_bye \<circ> snd) mm) = map_open mm"
proof (induction mm)
  case (Cons p mm)
  then show ?case
    using open_fields_auto_bye [of "snd p"]
    by (auto simp: map_open_def bye_pass_def case_prod_unfold split: if_splits)
qed (simp add: map_open_def bye_pass_def)

lemma open_fields_set_side:
  "open_fields (set_side s e m) + (if matchSide m s = None then 1 else 0) = open_fields m"
  by (cases s) (auto simp: set_side_def open_fields_def)

lemma map_open_map_entry_le: "map_open (AList.map_entry k (set_side s e) mm) \<le> map_open mm"
proof (induction mm)
  case (Cons p mm)
  then show ?case
    using open_fields_set_side [of s e "snd p"] by (cases p) (auto simp: map_open_def)
qed simp

lemma map_open_map_entry_less:
  "map_of mm k = Some m \<Longrightarrow> matchSide m s = None \<Longrightarrow>
     map_open (AList.map_entry k (set_side s e) mm) < map_open mm"
proof (induction mm)
  case (Cons p mm)
  then show ?case
    using open_fields_set_side [of s e "snd p"]
    by (cases p) (auto simp: map_open_def split: if_splits)
qed simp

lemma map_open_apply_updates_le: "map_open (apply_updates ups mm) \<le> map_open mm"
proof (induction ups arbitrary: mm)
  case (Cons u ups)
  obtain k s e where u: "u = (k, s, e)" by (cases u)
  have "map_open (apply_updates ups (AList.map_entry k (set_side s e) mm))
      \<le> map_open (AList.map_entry k (set_side s e) mm)" by (rule Cons.IH)
  also have "\<dots> \<le> map_open mm" by (rule map_open_map_entry_le)
  finally show ?case by (simp add: apply_updates_def u)
qed (simp add: apply_updates_def)

lemma map_filter_first:
  assumes "List.map_filter f xs = y # ys"
  obtains x where "x \<in> set xs" "f x = Some y"
  using assms
proof (induction xs)
  case (Cons x xs)
  then show ?case by (cases "f x") (auto simp: List.map_filter_def)
qed (simp add: List.map_filter_def)

lemma update_of_Some:
  "update_of mm m = Some (tgt, s, w) \<longleftrightarrow>
     (\<exists>out ws target. m_outcome m = Some out \<and> m_winnerTo m = Some (tgt, s) \<and>
        outcomeWinner out = Some ws \<and> matchSide m ws = Some w \<and>
        map_of mm tgt = Some target \<and> matchSide target s = None)"
  by (auto simp: update_of_def split: option.splits prod.splits if_splits)

lemma map_open_updates_less:
  assumes "collect_updates mm \<noteq> []"
  shows "map_open (apply_updates (collect_updates mm) mm) < map_open mm"
proof -
  obtain u ups where ups: "collect_updates mm = u # ups" using assms by (cases "collect_updates mm") auto
  obtain k s e where u: "u = (k, s, e)" by (cases u)
  from ups obtain m where "update_of mm m = Some u"
    unfolding collect_updates_def by (rule map_filter_first)
  then obtain target where "map_of mm k = Some target" "matchSide target s = None"
    by (auto simp: u update_of_Some)
  then have "map_open (AList.map_entry k (set_side s e) mm) < map_open mm"
    by (rule map_open_map_entry_less)
  with map_open_apply_updates_le [of ups "AList.map_entry k (set_side s e) mm"]
  show ?thesis by (simp add: ups u apply_updates_def)
qed

text \<open>\<open>for (;;) { ... if (!changed) break; }\<close>.\<close>

function advanceSingleElim :: "match_map \<Rightarrow> match_map" where
  "advanceSingleElim mm =
     (let changed1 = (\<exists>(k, m) \<in> set mm. is_auto_bye m);
          mm1 = bye_pass mm;
          updates = collect_updates mm1;
          mm2 = apply_updates updates mm1;
          changed = (changed1 \<or> updates \<noteq> [])
      in if changed then advanceSingleElim mm2 else mm2)"
  by pat_completeness auto
termination
proof (relation "measure map_open")
  fix mm changed1 mm1 updates mm2 changed
  assume eqs: "changed1 = (\<exists>(k, m) \<in> set mm. is_auto_bye m)" "mm1 = bye_pass mm"
    "updates = collect_updates mm1" "mm2 = apply_updates updates mm1"
    "changed = (changed1 \<or> updates \<noteq> [])" and changed
  then have "changed1 \<or> updates \<noteq> []" by simp
  then have "map_open mm2 < map_open mm"
  proof
    assume changed1
    then have "filter (is_auto_bye \<circ> snd) mm \<noteq> []" by (force simp: eqs filter_empty_conv)
    then have "map_open mm1 < map_open mm"
      using map_open_bye_pass [of mm] by (simp add: eqs flip: length_greater_0_conv)
    then show ?thesis using map_open_apply_updates_le [of updates mm1] by (simp add: eqs)
  next
    assume "updates \<noteq> []"
    then have "map_open mm2 < map_open mm1" using map_open_updates_less [of mm1] by (simp add: eqs)
    then show ?thesis using map_open_bye_pass [of mm] by (simp add: eqs)
  qed
  then show "(mm2, mm) \<in> measure map_open" by simp
qed simp

declare advanceSingleElim.simps [simp del]

section \<open>Swiss rounds\<close>

definition swiss_match :: "nat \<Rightarrow> swiss_pair \<Rightarrow> bracket_match" where
  "swiss_match round p =
     \<lparr>m_id = sp_id p, m_round = round, m_slot = 0, m_a = Some (sp_a p), m_b = Some (sp_b p),
      m_outcome = None, m_winnerTo = None\<rparr>"

text \<open>The private method \<open>pairSwissRound\<close>, which loads a round into \<open>matchMap\<close>.\<close>

definition pair_round :: "tournament \<Rightarrow> tournament" where
  "pair_round t =
     (case t_swissEntries t of None \<Rightarrow> t
      | Some entries \<Rightarrow>
          (let (pairs, entries') = pairSwissRound entries (t_nextId t)
           in t\<lparr>t_nextId := t_nextId t + int (length pairs),
                t_matchMap := load_matches (map (swiss_match (t_swissRound t)) pairs) (t_matchMap t),
                t_swissEntries := Some entries'\<rparr>))"

definition swissRoundOpen :: "tournament \<Rightarrow> bool" where
  "swissRoundOpen t \<longleftrightarrow>
     (\<exists>(k, m) \<in> set (t_matchMap t). m_round m = t_swissRound t \<and> m_outcome m = None \<and> isReady m)"

definition upd_nth :: "nat \<Rightarrow> ('a \<Rightarrow> 'a) \<Rightarrow> 'a list \<Rightarrow> 'a list" where
  "upd_nth i f xs = xs[i := f (xs ! i)]"

definition add_win :: "swiss_entry \<Rightarrow> swiss_entry" where
  "add_win e = e\<lparr>se_wins := se_wins e + 1\<rparr>"

definition add_loss :: "swiss_entry \<Rightarrow> swiss_entry" where
  "add_loss e = e\<lparr>se_losses := se_losses e + 1\<rparr>"

definition add_draw :: "swiss_entry \<Rightarrow> swiss_entry" where
  "add_draw e = e\<lparr>se_draws := se_draws e + 1\<rparr>"

fun score_entries :: "outcome \<Rightarrow> nat \<Rightarrow> nat \<Rightarrow> swiss_entry list \<Rightarrow> swiss_entry list" where
  "score_entries OutA ia ib es = upd_nth ib add_loss (upd_nth ia add_win es)"
| "score_entries OutB ia ib es = upd_nth ia add_loss (upd_nth ib add_win es)"
| "score_entries OutDraw ia ib es = upd_nth ib add_draw (upd_nth ia add_draw es)"
| "score_entries OutVoid ia ib es = es"

text \<open>\<open>idToIdx\<close>: filled in order, so a later entry with the same id would win.\<close>

definition id_to_idx :: "swiss_entry list \<Rightarrow> entrant_id \<Rightarrow> nat option" where
  "id_to_idx entries =
     map_of (rev (zip (map (\<lambda>e. ent_id (se_entrant e)) entries) [0..<length entries]))"

definition apply_swiss_match ::
  "(entrant_id \<Rightarrow> nat option) \<Rightarrow> nat \<Rightarrow> swiss_entry list \<Rightarrow> bracket_match \<Rightarrow> swiss_entry list" where
  "apply_swiss_match idx round es m =
     (case m_outcome m of None \<Rightarrow> es
      | Some out \<Rightarrow>
          if m_round m \<noteq> round then es
          else (case (m_a m, m_b m) of
                  (Some a, Some b) \<Rightarrow>
                    (case (idx (ent_id a), idx (ent_id b)) of
                       (Some ia, Some ib) \<Rightarrow> score_entries out ia ib es
                     | _ \<Rightarrow> es)
                | _ \<Rightarrow> es))"

definition applySwissResults :: "tournament \<Rightarrow> tournament" where
  "applySwissResults t =
     (case t_swissEntries t of None \<Rightarrow> t
      | Some entries \<Rightarrow>
          t\<lparr>t_swissEntries :=
               Some (foldl (apply_swiss_match (id_to_idx entries) (t_swissRound t)) entries
                 (map snd (t_matchMap t)))\<rparr>)"

section \<open>Completion, \<open>advance\<close>, \<open>record\<close> and the factory\<close>

definition compute_complete :: "tournament \<Rightarrow> bool" where
  "compute_complete t =
     (case t_format t of
        SingleElimination \<Rightarrow>
          list_ex (\<lambda>m. m_winnerTo m = None \<and> m_outcome m \<noteq> None) (matches t)
      | RoundRobin \<Rightarrow>
          length (t_matchMap t) > 0 \<and> list_all (\<lambda>m. m_outcome m \<noteq> None) (matches t)
      | Swiss rounds \<Rightarrow>
          (let total = length (filter (\<lambda>m. \<not> isBye m) (matches t));
               decided = length (filter (\<lambda>m. m_outcome m \<noteq> None) (matches t))
           in rounds = int (t_swissRound t) + 1 \<and> total > 0 \<and> total = decided))"

definition recomputeComplete :: "tournament \<Rightarrow> tournament" where
  "recomputeComplete t = t\<lparr>t_complete := compute_complete t\<rparr>"

definition advance :: "tournament \<Rightarrow> tournament" where
  "advance t =
     (case t_format t of
        SingleElimination \<Rightarrow>
          recomputeComplete (t\<lparr>t_matchMap := advanceSingleElim (t_matchMap t)\<rparr>)
      | RoundRobin \<Rightarrow> recomputeComplete t
      | Swiss maxRounds \<Rightarrow>
          if swissRoundOpen t then t
          else (let t1 = applySwissResults t
                in recomputeComplete
                     (if int (t_swissRound t1) + 1 < maxRounds
                      then pair_round (t1\<lparr>t_swissRound := t_swissRound t1 + 1\<rparr>) else t1)))"

definition set_outcome :: "outcome \<Rightarrow> bracket_match \<Rightarrow> bracket_match" where
  "set_outcome out m = m\<lparr>m_outcome := Some out\<rparr>"

definition record_result :: "match_id \<Rightarrow> outcome \<Rightarrow> tournament \<Rightarrow> tournament engine" where
  "record_result mid out t =
     (case map_of (t_matchMap t) mid of
        None \<Rightarrow> Inl UnknownMatch
      | Some m \<Rightarrow>
          if \<not> isReady m then Inl NotRecordable
          else if t_format t = SingleElimination \<and> out = OutDraw then Inl DrawNotAllowed
          else Inr (advance (t\<lparr>t_matchMap :=
                 AList.map_entry mid (set_outcome out) (t_matchMap t)\<rparr>)))"

fun ids_unique_loop :: "entrant_id set \<Rightarrow> entrant list \<Rightarrow> bool" where
  "ids_unique_loop seen [] = True"
| "ids_unique_loop seen (e # es) =
     (if ent_id e \<in> seen then False else ids_unique_loop (insert (ent_id e) seen) es)"

definition idsUnique :: "entrant list \<Rightarrow> bool" where
  "idsUnique es = ids_unique_loop {} es"

definition empty_tournament :: "tournament_format \<Rightarrow> entrant list \<Rightarrow> tournament" where
  "empty_tournament fmt ents =
     \<lparr>t_format = fmt, t_entrants = ents, t_matchMap = [], t_nextId = 1, t_complete = False,
      t_swissEntries = None, t_swissRound = 0\<rparr>"

definition new_tournament :: "tournament_format \<Rightarrow> entrant list \<Rightarrow> tournament engine" where
  "new_tournament fmt ents =
     (if length ents < 2 then Inl TooFewEntrants
      else if \<not> idsUnique ents then Inl DuplicateEntrant
      else if fmt = Swiss 0 then Inl InvalidSwissRounds
      else let t = empty_tournament fmt ents
           in case fmt of
                SingleElimination \<Rightarrow>
                  bind_result (buildSingleElim ents (t_nextId t)) (\<lambda>(ms, _).
                    Inr (recomputeComplete
                      (t\<lparr>t_nextId := t_nextId t + int (length ms),
                         t_matchMap := advanceSingleElim (load_matches ms (t_matchMap t))\<rparr>)))
              | RoundRobin \<Rightarrow>
                  (let ms = fst (buildRoundRobin ents (t_nextId t))
                   in Inr (recomputeComplete
                        (t\<lparr>t_nextId := t_nextId t + int (length ms),
                           t_matchMap := load_matches ms (t_matchMap t)\<rparr>)))
              | Swiss rounds \<Rightarrow>
                  Inr (recomputeComplete
                    (pair_round (t\<lparr>t_swissEntries := Some (map SwissEntry ents),
                       t_swissRound := 0\<rparr>))))"

section \<open>Standings and winners\<close>

text \<open>\<open>st.get(id)!.wins++\<close>: a missing id is a \<open>TypeError\<close>.\<close>

definition bump_standing ::
  "entrant_id \<Rightarrow> (standing \<Rightarrow> standing) \<Rightarrow> (entrant_id \<times> standing) list \<Rightarrow>
     (entrant_id \<times> standing) list engine" where
  "bump_standing x f st =
     (case map_of st x of None \<Rightarrow> Inl TypeError | Some _ \<Rightarrow> Inr (AList.map_entry x f st))"

definition inc_wins :: "standing \<Rightarrow> standing" where
  "inc_wins s = s\<lparr>st_wins := st_wins s + 1\<rparr>"

definition inc_losses :: "standing \<Rightarrow> standing" where
  "inc_losses s = s\<lparr>st_losses := st_losses s + 1\<rparr>"

definition inc_draws :: "standing \<Rightarrow> standing" where
  "inc_draws s = s\<lparr>st_draws := st_draws s + 1\<rparr>"

definition tally_match ::
  "bracket_match \<Rightarrow> (entrant_id \<times> standing) list \<Rightarrow> (entrant_id \<times> standing) list engine" where
  "tally_match m st =
     (case (m_outcome m, m_a m, m_b m) of
        (Some out, Some a, Some b) \<Rightarrow>
          (case out of
             OutA \<Rightarrow> bind_result (bump_standing (ent_id a) inc_wins st)
                       (bump_standing (ent_id b) inc_losses)
           | OutB \<Rightarrow> bind_result (bump_standing (ent_id b) inc_wins st)
                       (bump_standing (ent_id a) inc_losses)
           | OutDraw \<Rightarrow> bind_result (bump_standing (ent_id a) inc_draws st)
                       (bump_standing (ent_id b) inc_draws)
           | OutVoid \<Rightarrow> Inr st)
      | _ \<Rightarrow> Inr st)"

definition initial_standings :: "entrant list \<Rightarrow> (entrant_id \<times> standing) list" where
  "initial_standings ents =
     foldl (\<lambda>st e. AList.update (ent_id e)
              \<lparr>st_id = ent_id e, st_place = None, st_wins = 0, st_draws = 0, st_losses = 0\<rparr> st)
       [] ents"

datatype standing_key = StandingKey (key_wins: nat) (key_losses: nat) (key_id: int)

fun standing_cmp :: "standing_key \<Rightarrow> standing_key \<Rightarrow> int" where
  "standing_cmp (StandingKey wa la ia) (StandingKey wb lb ib) =
     (if wb \<noteq> wa then int wb - int wa
      else if la \<noteq> lb then int la - int lb else ia - ib)"

instantiation standing_key :: linorder
begin

definition less_eq_standing_key :: "standing_key \<Rightarrow> standing_key \<Rightarrow> bool" where
  "less_eq_standing_key a b \<longleftrightarrow> standing_cmp a b \<le> 0"

definition less_standing_key :: "standing_key \<Rightarrow> standing_key \<Rightarrow> bool" where
  "less_standing_key a b \<longleftrightarrow> standing_cmp a b < 0"

instance
proof
  fix x y z :: standing_key
  show "(x < y) = (x \<le> y \<and> \<not> y \<le> x)"
    by (cases x; cases y) (auto simp: less_eq_standing_key_def less_standing_key_def)
  show "x \<le> x" by (cases x) (simp add: less_eq_standing_key_def)
  show "x \<le> y \<Longrightarrow> y \<le> z \<Longrightarrow> x \<le> z"
    by (cases x; cases y; cases z) (auto simp: less_eq_standing_key_def split: if_splits)
  show "x \<le> y \<Longrightarrow> y \<le> x \<Longrightarrow> x = y"
    by (cases x; cases y) (auto simp: less_eq_standing_key_def split: if_splits)
  show "x \<le> y \<or> y \<le> x"
    by (cases x; cases y) (auto simp: less_eq_standing_key_def split: if_splits)
qed

end

definition standing_rank :: "standing \<Rightarrow> standing_key" where
  "standing_rank s = StandingKey (st_wins s) (st_losses s) (st_id s)"

definition standings :: "tournament \<Rightarrow> standing list engine" where
  "standings t =
     bind_result (fold_result tally_match (map snd (t_matchMap t)) (initial_standings (t_entrants t)))
       (\<lambda>st. Inr (sort_key standing_rank (map snd st)))"

datatype elim_key = ElimKey (key_round: nat) (key_seed: int)

fun elim_cmp :: "elim_key \<Rightarrow> elim_key \<Rightarrow> int" where
  "elim_cmp (ElimKey ra da) (ElimKey rb db) = (if rb \<noteq> ra then int rb - int ra else da - db)"

instantiation elim_key :: linorder
begin

definition less_eq_elim_key :: "elim_key \<Rightarrow> elim_key \<Rightarrow> bool" where
  "less_eq_elim_key a b \<longleftrightarrow> elim_cmp a b \<le> 0"

definition less_elim_key :: "elim_key \<Rightarrow> elim_key \<Rightarrow> bool" where
  "less_elim_key a b \<longleftrightarrow> elim_cmp a b < 0"

instance
proof
  fix x y z :: elim_key
  show "(x < y) = (x \<le> y \<and> \<not> y \<le> x)"
    by (cases x; cases y) (auto simp: less_eq_elim_key_def less_elim_key_def)
  show "x \<le> x" by (cases x) (simp add: less_eq_elim_key_def)
  show "x \<le> y \<Longrightarrow> y \<le> z \<Longrightarrow> x \<le> z"
    by (cases x; cases y; cases z) (auto simp: less_eq_elim_key_def split: if_splits)
  show "x \<le> y \<Longrightarrow> y \<le> x \<Longrightarrow> x = y"
    by (cases x; cases y) (auto simp: less_eq_elim_key_def split: if_splits)
  show "x \<le> y \<or> y \<le> x"
    by (cases x; cases y) (auto simp: less_eq_elim_key_def split: if_splits)
qed

end

text \<open>\<open>elimRound\<close>: every entrant with null, then the round of each recorded loss.\<close>

definition note_loss ::
  "(entrant_id \<times> nat option) list \<Rightarrow> bracket_match \<Rightarrow> (entrant_id \<times> nat option) list" where
  "note_loss er m =
     (case m_outcome m of None \<Rightarrow> er
      | Some out \<Rightarrow>
          (case loserSideOf out of None \<Rightarrow> er
           | Some ls \<Rightarrow>
               (case matchSide m ls of None \<Rightarrow> er
                | Some loser \<Rightarrow> AList.update (ent_id loser) (Some (m_round m)) er)))"

definition elim_rounds :: "tournament \<Rightarrow> (entrant_id \<times> nat option) list" where
  "elim_rounds t =
     foldl note_loss (foldl (\<lambda>er e. AList.update (ent_id e) None er) [] (t_entrants t))
       (map snd (t_matchMap t))"

definition seed_map :: "entrant list \<Rightarrow> (entrant_id \<times> int) list" where
  "seed_map ents = foldl (\<lambda>sm e. AList.update (ent_id e) (ent_seed e) sm) [] ents"

definition elim_rank :: "tournament \<Rightarrow> entrant_id \<Rightarrow> elim_key" where
  "elim_rank t x =
     ElimKey (case map_of (elim_rounds t) x of Some (Some r) \<Rightarrow> r | _ \<Rightarrow> 0)
       (case map_of (seed_map (t_entrants t)) x of Some s \<Rightarrow> s | None \<Rightarrow> 1000000000)"

definition singleElimOrder :: "tournament \<Rightarrow> entrant_id list" where
  "singleElimOrder t =
     (let champ = champion t;
          ordered = (case champ of None \<Rightarrow> [] | Some c \<Rightarrow> [c]);
          rest = filter (\<lambda>x. Some x \<noteq> champ) (map fst (elim_rounds t))
      in ordered @ sort_key (elim_rank t) rest)"

definition winners :: "tournament \<Rightarrow> entrant_id list engine" where
  "winners t =
     (case t_format t of
        SingleElimination \<Rightarrow> Inr (singleElimOrder t)
      | _ \<Rightarrow> bind_result (standings t) (\<lambda>ss. Inr (map st_id ss)))"

end
