(* ===== verification/Advance.thy ===== *)
theory Advance
  imports Tournament
begin

text \<open>
  What \<open>advanceSingleElim\<close> keeps and what it reaches: the static fields of every match are
  untouched, and the loop stops at a state with no open bye and nothing left to propagate.
\<close>

section \<open>The skeleton: fields the loop never writes\<close>

definition skeleton ::
  "match_map \<Rightarrow> (match_id \<times> match_id \<times> nat \<times> nat \<times> (match_id \<times> side) option) list" where
  "skeleton mm = map (\<lambda>(key, m). (key, m_id m, m_round m, m_slot m, m_winnerTo m)) mm"

lemma keys_skeleton: "map fst (skeleton mm) = map fst mm"
  by (simp add: skeleton_def case_prod_unfold comp_def)

lemma auto_bye_frame [simp]:
  "m_id (auto_bye m) = m_id m" "m_round (auto_bye m) = m_round m"
  "m_slot (auto_bye m) = m_slot m" "m_winnerTo (auto_bye m) = m_winnerTo m"
  "m_a (auto_bye m) = m_a m" "m_b (auto_bye m) = m_b m"
  by (simp_all add: auto_bye_def split: option.split)

lemma set_side_frame [simp]:
  "m_id (set_side s e m) = m_id m" "m_round (set_side s e m) = m_round m"
  "m_slot (set_side s e m) = m_slot m" "m_winnerTo (set_side s e m) = m_winnerTo m"
  "m_outcome (set_side s e m) = m_outcome m"
  by (cases s; simp add: set_side_def)+

lemma matchSide_set_side: "matchSide (set_side s e m) s' = (if s' = s then Some e else matchSide m s')"
  by (cases s; cases s') (simp_all add: set_side_def)

lemma set_outcome_frame [simp]:
  "m_id (set_outcome out m) = m_id m" "m_round (set_outcome out m) = m_round m"
  "m_slot (set_outcome out m) = m_slot m" "m_winnerTo (set_outcome out m) = m_winnerTo m"
  "m_a (set_outcome out m) = m_a m" "m_b (set_outcome out m) = m_b m"
  "m_outcome (set_outcome out m) = Some out"
  by (simp_all add: set_outcome_def)

lemma skeleton_bye_pass [keeps]: "skeleton (bye_pass mm) = skeleton mm"
  by (simp add: skeleton_def bye_pass_def case_prod_unfold comp_def)

lemma skeleton_map_entry:
  assumes "\<And>m. (m_id (f m), m_round (f m), m_slot (f m), m_winnerTo (f m)) =
    (m_id m, m_round m, m_slot m, m_winnerTo m)"
  shows "skeleton (AList.map_entry key f mm) = skeleton mm"
  using assms by (induction mm) (auto simp: skeleton_def)

lemma skeleton_set_outcome [keeps]:
  "skeleton (AList.map_entry key (set_outcome out) mm) = skeleton mm"
  by (rule skeleton_map_entry) simp

lemma skeleton_apply_updates [keeps]: "skeleton (apply_updates ups mm) = skeleton mm"
proof (induction ups arbitrary: mm)
  case (Cons u ups)
  obtain key s e where u: "u = (key, s, e)" by (cases u)
  have "skeleton (AList.map_entry key (set_side s e) mm) = skeleton mm"
    by (rule skeleton_map_entry) simp
  with Cons.IH [of "AList.map_entry key (set_side s e) mm"] show ?case
    by (simp add: apply_updates_def u)
qed (simp add: apply_updates_def)

section \<open>An induction rule for the loop\<close>

text \<open>A property that both passes of the body keep holds when the loop stops.\<close>

lemma advance_invariant:
  assumes "P mm"
    and bye: "\<And>mm. P mm \<Longrightarrow> P (bye_pass mm)"
    and ups: "\<And>mm. P mm \<Longrightarrow> P (apply_updates (collect_updates mm) mm)"
  shows "P (advanceSingleElim mm)"
  using assms(1)
proof (induction mm rule: advanceSingleElim.induct)
  case (1 mm)
  let ?mm2 = "apply_updates (collect_updates (bye_pass mm)) (bye_pass mm)"
  have P2: "P ?mm2" by (intro ups bye 1)
  show ?case
    using "1.IH" P2 by (subst advanceSingleElim.simps) (auto simp: Let_def)
qed

lemma skeleton_advance [keeps]: "skeleton (advanceSingleElim mm) = skeleton mm"
  by (rule advance_invariant [where P = "\<lambda>mm'. skeleton mm' = skeleton mm"]) (simp_all add: keeps)

definition settled :: "match_map \<Rightarrow> bool" where
  "settled mm \<longleftrightarrow> (\<forall>(key, m) \<in> set mm. \<not> is_auto_bye m) \<and> collect_updates mm = []"

lemma auto_bye_id: "\<not> is_auto_bye m \<Longrightarrow> auto_bye m = m"
  by (auto simp: is_auto_bye_def auto_bye_def isBye_def split: option.split)

lemma bye_pass_id: "\<forall>(key, m) \<in> set mm. \<not> is_auto_bye m \<Longrightarrow> bye_pass mm = mm"
  unfolding bye_pass_def by (intro map_idI) (auto simp: auto_bye_id)

lemma settled_advance: "settled (advanceSingleElim mm)"
proof (induction mm rule: advanceSingleElim.induct)
  case (1 mm)
  let ?mm1 = "bye_pass mm"
  show ?case
  proof (cases "(\<exists>(k, m) \<in> set mm. is_auto_bye m) \<or> collect_updates ?mm1 \<noteq> []")
    case True
    with "1.IH" show ?thesis by (subst advanceSingleElim.simps) (simp add: Let_def)
  next
    case False
    then have "?mm1 = mm" by (intro bye_pass_id) auto
    with False show ?thesis
      by (subst advanceSingleElim.simps) (auto simp: Let_def settled_def apply_updates_def)
  qed
qed

lemma advance_settled_id: "settled mm \<Longrightarrow> advanceSingleElim mm = mm"
  by (subst advanceSingleElim.simps)
    (auto simp: Let_def settled_def bye_pass_id apply_updates_def)

lemma collect_updates_empty:
  "collect_updates mm = [] \<longleftrightarrow> (\<forall>(key, m) \<in> set mm. update_of mm m = None)"
  by (auto simp: collect_updates_def map_filter_Nil_iff)

lemma collect_updates_iff:
  "u \<in> set (collect_updates mm) \<longleftrightarrow> (\<exists>(key, m) \<in> set mm. update_of mm m = Some u)"
  by (auto simp: collect_updates_def set_map_filter_Some case_prod_unfold)

text \<open>A settled map: every decided match has passed its winner on.\<close>

lemma settled_propagated:
  assumes "settled mm" "(key, m) \<in> set mm" "matchWinner m = Some w"
    "m_winnerTo m = Some (tgt, s)" "map_of mm tgt = Some target"
  shows "matchSide target s \<noteq> None"
proof
  assume "matchSide target s = None"
  with assms(3-5) have "update_of mm m = Some (tgt, s, w)"
    by (auto simp: update_of_Some matchWinner_def split: option.splits)
  with assms(1,2) show False by (auto simp: settled_def collect_updates_empty)
qed

lemma settled_bye:
  "settled mm \<Longrightarrow> (key, m) \<in> set mm \<Longrightarrow> m_round m = 0 \<Longrightarrow> isBye m \<Longrightarrow> m_outcome m \<noteq> None"
  by (auto simp: settled_def is_auto_bye_def)

section \<open>Effect of a batch of updates\<close>

lemma map_of_bye_pass: "map_of (bye_pass mm) key = map_option auto_bye (map_of mm key)"
  by (induction mm) (auto simp: bye_pass_def)

lemma map_of_apply_updates_frame:
  assumes "map_of mm key = Some m"
  obtains m' where "map_of (apply_updates ups mm) key = Some m'"
    "m_id m' = m_id m" "m_round m' = m_round m" "m_slot m' = m_slot m"
    "m_winnerTo m' = m_winnerTo m" "m_outcome m' = m_outcome m"
    "\<And>s. (\<And>e. (key, s, e) \<notin> set ups) \<Longrightarrow> matchSide m' s = matchSide m s"
    "\<And>s e. (key, s, e) \<in> set ups \<Longrightarrow> \<exists>e'. (key, s, e') \<in> set ups \<and> matchSide m' s = Some e'"
  using assms
proof (induction ups arbitrary: mm m thesis)
  case Nil
  from Nil.prems(1) [of m] Nil.prems(2) show ?case by (simp add: apply_updates_def)
next
  case (Cons u ups)
  obtain k s e where u: "u = (k, s, e)" by (cases u)
  let ?mm = "AList.map_entry k (set_side s e) mm"
  let ?m = "if key = k then set_side s e m else m"
  have m: "map_of ?mm key = Some ?m" using Cons.prems(2) by (auto simp: map_of_map_entry)
  have step: "apply_updates (u # ups) mm = apply_updates ups ?mm" by (simp add: apply_updates_def u)
  show ?case
  proof (rule Cons.IH [OF _ m])
    fix m'
    assume m': "map_of (apply_updates ups ?mm) key = Some m'" "m_id m' = m_id ?m"
      "m_round m' = m_round ?m" "m_slot m' = m_slot ?m" "m_winnerTo m' = m_winnerTo ?m"
      "m_outcome m' = m_outcome ?m"
      and keep: "\<And>s. (\<And>e. (key, s, e) \<notin> set ups) \<Longrightarrow> matchSide m' s = matchSide ?m s"
      and fill: "\<And>s e. (key, s, e) \<in> set ups \<Longrightarrow> \<exists>e'. (key, s, e') \<in> set ups \<and> matchSide m' s = Some e'"
    show thesis
    proof (rule Cons.prems(1) [of m'])
      show "map_of (apply_updates (u # ups) mm) key = Some m'" using m' by (simp add: step)
      show "m_id m' = m_id m" "m_round m' = m_round m" "m_slot m' = m_slot m"
        "m_winnerTo m' = m_winnerTo m" "m_outcome m' = m_outcome m"
        using m' by (simp_all split: if_splits)
    next
      fix s' assume "\<And>e. (key, s', e) \<notin> set (u # ups)"
      then show "matchSide m' s' = matchSide m s'"
        using keep [of s'] by (auto simp: u matchSide_set_side)
    next
      fix s' e' assume inn: "(key, s', e') \<in> set (u # ups)"
      show "\<exists>e''. (key, s', e'') \<in> set (u # ups) \<and> matchSide m' s' = Some e''"
      proof (cases "\<exists>e. (key, s', e) \<in> set ups")
        case True
        then show ?thesis using fill [of s'] by auto
      next
        case False
        with inn have "key = k" "s' = s" "e' = e" by (auto simp: u)
        with False keep [of s'] show ?thesis by (auto simp: u matchSide_set_side)
      qed
    qed
  qed
qed

end
