(* ===== verification/Knockout.thy ===== *)
theory Knockout
  imports Advance
begin

text \<open>
  The invariant of a single-elimination bracket. A match is addressed by its round and slot;
  the invariant ties the sides of every match to the winners of its two feeders, so that
  the mutable \<open>a\<close>/\<open>b\<close> fields of the code carry no information beyond the recorded outcomes.
\<close>

abbreviation nid :: "nat \<Rightarrow> nat \<Rightarrow> nat \<Rightarrow> match_id" where
  "nid k r i \<equiv> se_id k 1 r i"

definition node :: "match_map \<Rightarrow> nat \<Rightarrow> nat \<Rightarrow> nat \<Rightarrow> bracket_match" where
  "node mm k r i = the (map_of mm (nid k r i))"

definition se_shape :: "nat \<Rightarrow> match_map \<Rightarrow> bool" where
  "se_shape k mm \<longleftrightarrow>
     skeleton mm = map (\<lambda>(r, i). (nid k r i, nid k r i, r, i, winner_target k 1 r i)) (se_positions k)"

section \<open>Lookup in a bracket\<close>

lemma shape_keys: "se_shape k mm \<Longrightarrow> map fst mm = ids_from 1 (2 ^ k - 1)"
proof -
  assume "se_shape k mm"
  then have "map fst mm = map (\<lambda>(r, i). nid k r i) (se_positions k)"
    by (simp add: se_shape_def flip: keys_skeleton) (simp add: comp_def case_prod_unfold)
  then show ?thesis by (simp only: se_positions_ids)
qed

lemma shape_length: "se_shape k mm \<Longrightarrow> length mm = 2 ^ k - 1"
  by (metis length_ids_from length_map shape_keys)

lemma shape_distinct: "se_shape k mm \<Longrightarrow> distinct (map fst mm)"
  by (simp add: shape_keys)

lemma shape_at:
  assumes "se_shape k mm" "j < length mm"
  obtains r i m where "se_positions k ! j = (r, i)" "se_valid k r i" "mm ! j = (nid k r i, m)"
    "node mm k r i = m" "map_of mm (nid k r i) = Some m"
    "m_id m = nid k r i" "m_round m = r" "m_slot m = i" "m_winnerTo m = winner_target k 1 r i"
proof -
  obtain r i where ri: "se_positions k ! j = (r, i)" by force
  obtain key m where km: "mm ! j = (key, m)" by force
  have len: "j < length (se_positions k)"
    using assms shape_length length_se_positions by simp
  then have valid: "se_valid k r i" using nth_mem [OF len] by (simp add: ri set_se_positions)
  have "skeleton mm ! j = (nid k r i, nid k r i, r, i, winner_target k 1 r i)"
    using assms(1) len by (simp add: se_shape_def ri)
  then have f: "key = nid k r i" "m_id m = nid k r i" "m_round m = r" "m_slot m = i"
    "m_winnerTo m = winner_target k 1 r i"
    using assms(2) by (simp_all add: skeleton_def km)
  have "(nid k r i, m) \<in> set mm" using nth_mem [OF assms(2)] by (simp add: km f)
  then have "map_of mm (nid k r i) = Some m" by (simp add: shape_distinct [OF assms(1)])
  with that ri valid km f show thesis by (simp add: node_def)
qed

lemma shape_list:
  assumes "se_shape k mm"
  shows "mm = map (\<lambda>(r, i). (nid k r i, node mm k r i)) (se_positions k)"
proof (rule nth_equalityI)
  show "length mm = length (map (\<lambda>(r, i). (nid k r i, node mm k r i)) (se_positions k))"
    by (simp add: shape_length [OF assms] length_se_positions)
  fix j assume "j < length mm"
  then show "mm ! j = map (\<lambda>(r, i). (nid k r i, node mm k r i)) (se_positions k) ! j"
    by (rule shape_at [OF assms]) (use \<open>j < length mm\<close> shape_length [OF assms] in
        \<open>simp add: length_se_positions\<close>)
qed

lemma shape_node:
  assumes "se_shape k mm" "se_valid k r i"
  shows "map_of mm (nid k r i) = Some (node mm k r i)"
    and "m_id (node mm k r i) = nid k r i" and "m_round (node mm k r i) = r"
    and "m_slot (node mm k r i) = i" and "m_winnerTo (node mm k r i) = winner_target k 1 r i"
proof -
  obtain j where j: "j < length (se_positions k)" "se_positions k ! j = (r, i)"
    using assms(2) by (metis in_set_conv_nth set_se_positions)
  then have "j < length mm" using shape_length [OF assms(1)] length_se_positions by simp
  then show "map_of mm (nid k r i) = Some (node mm k r i)"
    "m_id (node mm k r i) = nid k r i" "m_round (node mm k r i) = r"
    "m_slot (node mm k r i) = i" "m_winnerTo (node mm k r i) = winner_target k 1 r i"
    by (rule shape_at [OF assms(1)]; simp add: j)+
qed

lemma shape_entry:
  assumes "se_shape k mm" "(key, m) \<in> set mm"
  obtains r i where "se_valid k r i" "key = nid k r i" "m = node mm k r i"
proof -
  obtain j where j: "j < length mm" "mm ! j = (key, m)" using assms(2) by (metis in_set_conv_nth)
  from j(1) show thesis by (rule shape_at [OF assms(1)]) (use j that in auto)
qed

lemma shape_entries:
  assumes "se_shape k mm"
  shows "(\<forall>(key, m) \<in> set mm. P m) \<longleftrightarrow> (\<forall>r i. se_valid k r i \<longrightarrow> P (node mm k r i))"
proof -
  have "set mm = (\<lambda>(r, i). (nid k r i, node mm k r i)) ` set (se_positions k)"
    by (subst shape_list [OF assms]) (rule set_map)
  then have "(\<forall>(key, m) \<in> set mm. P m) \<longleftrightarrow>
      (\<forall>x \<in> set (se_positions k). P (node mm k (fst x) (snd x)))"
    by (simp add: case_prod_unfold)
  then show ?thesis by (auto simp flip: set_se_positions)
qed

lemma shape_cong: "skeleton mm' = skeleton mm \<Longrightarrow> se_shape k mm' = se_shape k mm"
  by (simp add: se_shape_def)

lemma shape_bye_pass [simp]: "se_shape k (bye_pass mm) = se_shape k mm"
  by (rule shape_cong) (rule skeleton_bye_pass)

lemma shape_apply_updates [simp]: "se_shape k (apply_updates ups mm) = se_shape k mm"
  by (rule shape_cong) (rule skeleton_apply_updates)

lemma shape_set_outcome [simp]:
  "se_shape k (AList.map_entry key (set_outcome out) mm) = se_shape k mm"
  by (rule shape_cong) (rule skeleton_set_outcome)

lemma shape_advance [simp]: "se_shape k (advanceSingleElim mm) = se_shape k mm"
  by (rule shape_cong) (rule skeleton_advance)

lemma node_bye_pass:
  "se_shape k mm \<Longrightarrow> se_valid k r i \<Longrightarrow> node (bye_pass mm) k r i = auto_bye (node mm k r i)"
  by (simp add: node_def [of "bye_pass mm"] map_of_bye_pass shape_node(1))

lemma node_set_outcome:
  "se_shape k mm \<Longrightarrow> se_valid k r i \<Longrightarrow>
     node (AList.map_entry key (set_outcome out) mm) k r i =
       (if nid k r i = key then set_outcome out (node mm k r i) else node mm k r i)"
  by (auto simp: node_def [of "AList.map_entry key (set_outcome out) mm"] map_of_map_entry shape_node(1))

section \<open>Updates of a bracket\<close>

definition side_ix :: "side \<Rightarrow> nat" where
  "side_ix s = (case s of SideA \<Rightarrow> 0 | SideB \<Rightarrow> 1)"

lemma side_ix_side_of: "2 * (i div 2) + side_ix (side_of i) = i"
  by (simp add: side_ix_def side_of_def) presburger

lemma side_of_child: "side_of (2 * i + side_ix s) = s" "(2 * i + side_ix s) div 2 = i"
  by (cases s; simp add: side_ix_def side_of_def)+

lemma side_ix_less: "side_ix s < 2"
  by (cases s) (simp_all add: side_ix_def)

text \<open>An update goes from a decided match to the free side it feeds.\<close>

lemma update_source:
  assumes "se_shape k mm" "(key, s, e) \<in> set (collect_updates mm)" "se_valid k r i" "key = nid k r i"
  shows "0 < r \<and> matchWinner (node mm k (r - 1) (2 * i + side_ix s)) = Some e \<and>
    matchSide (node mm k r i) s = None"
proof -
  from assms(2) obtain key' m where m: "(key', m) \<in> set mm" "update_of mm m = Some (key, s, e)"
    by (auto simp: collect_updates_iff)
  from assms(1) m(1) obtain r' i' where v': "se_valid k r' i'" and mn: "m = node mm k r' i'"
    by (rule shape_entry)
  from m(2) obtain out ws target where u: "m_outcome m = Some out" "m_winnerTo m = Some (key, s)"
    "outcomeWinner out = Some ws" "matchSide m ws = Some e"
    "map_of mm key = Some target" "matchSide target s = None" by (auto simp: update_of_Some)
  have wt: "r' + 1 < k" "key = nid k (r' + 1) (i' div 2)" "s = side_of i'"
    using u(2) shape_node(5) [OF assms(1) v'] by (auto simp: mn winner_target_def split: if_splits)
  have pos: "r = r' + 1 \<and> i = i' div 2"
    using se_id_inject [of k 1 r i "r' + 1" "i' div 2"] assms(3,4) wt se_valid_parent [OF v'] by simp
  have "2 * i + side_ix s = i'" using pos wt(3) side_ix_side_of by simp
  with pos u mn have "matchWinner (node mm k (r - 1) (2 * i + side_ix s)) = Some e"
    by (simp add: matchWinner_def)
  moreover have "target = node mm k r i"
    using u(5) shape_node(1) [OF assms(1,3)] assms(4) by simp
  ultimately show ?thesis using pos u(6) by simp
qed

lemma node_apply_updates:
  assumes "se_shape k mm" "se_valid k r i"
  defines "mm' \<equiv> apply_updates (collect_updates mm) mm"
  shows "m_outcome (node mm' k r i) = m_outcome (node mm k r i)"
    and "matchSide (node mm k r i) s = Some e \<Longrightarrow> matchSide (node mm' k r i) s = Some e"
    and "matchSide (node mm k r i) s = None \<Longrightarrow> matchSide (node mm' k r i) s = Some e \<Longrightarrow>
      0 < r \<and> matchWinner (node mm k (r - 1) (2 * i + side_ix s)) = Some e"
proof -
  note src = update_source [OF assms(1) _ assms(2) refl]
  obtain m' where m': "map_of mm' (nid k r i) = Some m'" "m_outcome m' = m_outcome (node mm k r i)"
    and keep: "\<And>s. (\<And>e. (nid k r i, s, e) \<notin> set (collect_updates mm)) \<Longrightarrow>
      matchSide m' s = matchSide (node mm k r i) s"
    and fill: "\<And>s e. (nid k r i, s, e) \<in> set (collect_updates mm) \<Longrightarrow>
      \<exists>e'. (nid k r i, s, e') \<in> set (collect_updates mm) \<and> matchSide m' s = Some e'"
    unfolding mm'_def
    by (rule map_of_apply_updates_frame [OF shape_node(1) [OF assms(1,2)], of "collect_updates mm"]) blast
  have n: "node mm' k r i = m'" by (simp add: node_def m')
  show "m_outcome (node mm' k r i) = m_outcome (node mm k r i)" by (simp add: n m')
  show "matchSide (node mm' k r i) s = Some e" if "matchSide (node mm k r i) s = Some e"
    using keep [of s] src [of s] that by (auto simp: n)
  show "0 < r \<and> matchWinner (node mm k (r - 1) (2 * i + side_ix s)) = Some e"
    if "matchSide (node mm k r i) s = None" "matchSide (node mm' k r i) s = Some e"
    using keep [of s] fill [of s] src [of s] that by (auto simp: n)
qed

section \<open>The invariant\<close>

text \<open>A field that fits the bracket: more than half of the slots are taken.\<close>

definition seated :: "nat \<Rightarrow> entrant list \<Rightarrow> bool" where
  "seated k es \<longleftrightarrow> 1 \<le> k \<and> k \<le> 30 \<and> 2 ^ (k - 1) < length es \<and> length es \<le> 2 ^ k"

lemma seat_None: "seat k es x = None \<longleftrightarrow> length es \<le> bitReverse x k"
  by (simp add: seat_def Let_def)

lemma seat_even:
  assumes "seated k es" "2 * i < 2 ^ k"
  shows "seat k es (2 * i) \<noteq> None"
proof -
  have k: "0 < k" "k \<le> 32" using assms(1) by (simp_all add: seated_def)
  let ?y = "bitReverse (2 * i) k"
  have "?y < 2 ^ k" using k by (simp add: bitReverse_less)
  moreover have "bitReverse ?y k = 2 * i" using k assms(2) by (simp add: bitReverse_bitReverse)
  ultimately have "?y < 2 ^ (k - 1)" using bitReverse_even [of k ?y] k by simp
  with assms(1) show ?thesis by (simp add: seat_None seated_def)
qed

definition node_ok :: "nat \<Rightarrow> entrant list \<Rightarrow> match_map \<Rightarrow> nat \<Rightarrow> nat \<Rightarrow> bool" where
  "node_ok k es mm r i \<longleftrightarrow>
     (r = 0 \<longrightarrow> m_a (node mm k r i) = seat k es (2 * i) \<and>
                m_b (node mm k r i) = seat k es (2 * i + 1)) \<and>
     (0 < r \<longrightarrow> (\<forall>s e. matchSide (node mm k r i) s = Some e \<longrightarrow>
                matchWinner (node mm k (r - 1) (2 * i + side_ix s)) = Some e)) \<and>
     (m_outcome (node mm k r i) \<noteq> None \<longrightarrow>
        (r = 0 \<and> m_b (node mm k r i) = None \<and> m_outcome (node mm k r i) = Some OutA) \<or>
        (m_a (node mm k r i) \<noteq> None \<and> m_b (node mm k r i) \<noteq> None))"

lemma node_okI:
  assumes "r = 0 \<Longrightarrow> matchSide (node mm k r i) SideA = seat k es (2 * i)"
    and "r = 0 \<Longrightarrow> matchSide (node mm k r i) SideB = seat k es (2 * i + 1)"
    and "\<And>s e. 0 < r \<Longrightarrow> matchSide (node mm k r i) s = Some e \<Longrightarrow>
      matchWinner (node mm k (r - 1) (2 * i + side_ix s)) = Some e"
    and "m_outcome (node mm k r i) \<noteq> None \<Longrightarrow>
      (r = 0 \<and> m_b (node mm k r i) = None \<and> m_outcome (node mm k r i) = Some OutA) \<or>
      (\<forall>s. matchSide (node mm k r i) s \<noteq> None)"
  shows "node_ok k es mm r i"
  unfolding node_ok_def using assms(1,2) assms(3) assms(4)
  by (metis matchSide_simps(1) matchSide_simps(2))

lemma node_okD:
  assumes "node_ok k es mm r i"
  shows "r = 0 \<Longrightarrow> matchSide (node mm k r i) SideA = seat k es (2 * i)"
    and "r = 0 \<Longrightarrow> matchSide (node mm k r i) SideB = seat k es (2 * i + 1)"
    and "0 < r \<Longrightarrow> matchSide (node mm k r i) s = Some e \<Longrightarrow>
      matchWinner (node mm k (r - 1) (2 * i + side_ix s)) = Some e"
    and "m_outcome (node mm k r i) \<noteq> None \<Longrightarrow>
      (r = 0 \<and> m_b (node mm k r i) = None \<and> m_outcome (node mm k r i) = Some OutA) \<or>
      (\<forall>s. matchSide (node mm k r i) s \<noteq> None)"
  using assms unfolding node_ok_def
  by (auto simp: matchSide_def split: side.splits)

lemma auto_bye_outcome:
  "m_a m \<noteq> None \<Longrightarrow>
     m_outcome (auto_bye m) = m_outcome m \<or>
     m_round m = 0 \<and> m_b m = None \<and> m_outcome (auto_bye m) = Some OutA"
  by (cases "m_a m"; cases "m_b m") (simp_all add: auto_bye_def)

definition se_inv :: "nat \<Rightarrow> entrant list \<Rightarrow> match_map \<Rightarrow> bool" where
  "se_inv k es mm \<longleftrightarrow> se_shape k mm \<and> (\<forall>r i. se_valid k r i \<longrightarrow> node_ok k es mm r i)"

lemma se_inv_shape: "se_inv k es mm \<Longrightarrow> se_shape k mm"
  by (simp add: se_inv_def)

lemma se_inv_node: "se_inv k es mm \<Longrightarrow> se_valid k r i \<Longrightarrow> node_ok k es mm r i"
  by (simp add: se_inv_def)

lemma matchWinner_auto_bye: "matchWinner m = Some e \<Longrightarrow> matchWinner (auto_bye m) = Some e"
  by (simp add: matchWinner_def auto_bye_def split: option.splits)

lemma child_valid: "se_valid k r i \<Longrightarrow> 0 < r \<Longrightarrow> se_valid k (r - 1) (2 * i + side_ix s)"
  using se_valid_child [of k "r - 1" i "side_ix s"] by (simp add: side_ix_less)

lemma se_inv_bye_pass:
  assumes "seated k es" "se_inv k es mm"
  shows "se_inv k es (bye_pass mm)"
  unfolding se_inv_def
proof (intro conjI allI impI)
  note sh = se_inv_shape [OF assms(2)]
  show "se_shape k (bye_pass mm)" using sh by simp
  fix r i assume v: "se_valid k r i"
  note ok = se_inv_node [OF assms(2) v] and n = node_bye_pass [OF sh v]
  have feeders: "matchWinner (node (bye_pass mm) k (r - 1) (2 * i + side_ix s)) = Some e"
    if "0 < r" "matchSide (node mm k r i) s = Some e" for s e
    using ok that node_bye_pass [OF sh child_valid [OF v that(1)]]
    by (auto simp: node_ok_def intro: matchWinner_auto_bye)
  have sides: "matchSide (auto_bye m) s = matchSide m s" for m s by (cases s) simp_all
  show "node_ok k es (bye_pass mm) r i"
  proof (rule node_okI)
    assume "m_outcome (node (bye_pass mm) k r i) \<noteq> None"
    moreover have "r = 0 \<Longrightarrow> m_a (node mm k r i) \<noteq> None"
      using node_okD(1) [OF ok] seat_even [OF assms(1), of i] se_valid_slot [of k i] v by simp
    moreover have "0 < r \<Longrightarrow> m_outcome (auto_bye (node mm k r i)) = m_outcome (node mm k r i)"
      using shape_node(3) [OF sh v] by (simp add: auto_bye_def)
    ultimately show "(r = 0 \<and> m_b (node (bye_pass mm) k r i) = None \<and>
        m_outcome (node (bye_pass mm) k r i) = Some OutA) \<or>
        (\<forall>s. matchSide (node (bye_pass mm) k r i) s \<noteq> None)"
      unfolding n sides using node_okD(4) [OF ok] auto_bye_outcome [of "node mm k r i"]
      by (cases "r = 0"; cases "m_outcome (auto_bye (node mm k r i)) = m_outcome (node mm k r i)")
        (simp_all del: matchSide_simps)
  qed (unfold n sides, use node_okD(1,2) [OF ok] feeders in \<open>simp_all del: matchSide_simps\<close>)
qed

lemma se_inv_apply_updates:
  assumes "se_inv k es mm"
  shows "se_inv k es (apply_updates (collect_updates mm) mm)"
  unfolding se_inv_def
proof (intro conjI allI impI)
  let ?mm = "apply_updates (collect_updates mm) mm"
  note sh = se_inv_shape [OF assms]
  show "se_shape k ?mm" using sh by simp
  fix r i assume v: "se_valid k r i"
  note ok = se_inv_node [OF assms v] and upd = node_apply_updates [OF sh]
  have winner: "matchWinner (node ?mm k r' i') = Some e"
    if "se_valid k r' i'" "matchWinner (node mm k r' i') = Some e" for r' i' e
    using that(2) upd(1,2) [OF that(1)] by (auto simp: matchWinner_def split: option.splits)
  have feeders: "matchWinner (node ?mm k (r - 1) (2 * i + side_ix s)) = Some e"
    if "0 < r" "matchSide (node ?mm k r i) s = Some e" for s e
  proof (cases "matchSide (node mm k r i) s")
    case None
    then show ?thesis using upd(3) [OF v None that(2)] winner child_valid [OF v that(1)] by blast
  next
    case (Some e')
    with upd(2) [OF v Some] that have "e' = e" by simp
    with Some that ok have "matchWinner (node mm k (r - 1) (2 * i + side_ix s)) = Some e"
      by (simp add: node_ok_def)
    then show ?thesis by (rule winner [OF child_valid [OF v that(1)]])
  qed
  have kept: "r = 0 \<Longrightarrow> matchSide (node ?mm k r i) s = matchSide (node mm k r i) s" for s
    using upd(2) [OF v, of s] upd(3) [OF v, of s]
    by (cases "matchSide (node mm k r i) s"; cases "matchSide (node ?mm k r i) s") auto
  have some: "matchSide (node mm k r i) s \<noteq> None \<Longrightarrow> matchSide (node ?mm k r i) s \<noteq> None" for s
    using upd(2) [OF v, of s] by auto
  show "node_ok k es ?mm r i"
  proof (rule node_okI)
    assume "m_outcome (node ?mm k r i) \<noteq> None"
    then have "(r = 0 \<and> m_b (node mm k r i) = None \<and> m_outcome (node mm k r i) = Some OutA) \<or>
        (\<forall>s. matchSide (node mm k r i) s \<noteq> None)"
      using node_okD(4) [OF ok] upd(1) [OF v] by simp
    then show "(r = 0 \<and> m_b (node ?mm k r i) = None \<and> m_outcome (node ?mm k r i) = Some OutA) \<or>
        (\<forall>s. matchSide (node ?mm k r i) s \<noteq> None)"
      using some kept [of SideB] upd(1) [OF v] by auto
  qed (use node_okD(1,2) [OF ok] kept feeders in \<open>simp_all del: matchSide_simps\<close>)
qed

lemma se_inv_advance:
  assumes "seated k es" "se_inv k es mm"
  shows "se_inv k es (advanceSingleElim mm)"
  by (rule advance_invariant [of "se_inv k es"])
    (simp_all add: assms se_inv_bye_pass se_inv_apply_updates)

lemma se_inv_set_outcome:
  assumes "se_inv k es mm" "map_of mm key = Some m" "isReady m"
  shows "se_inv k es (AList.map_entry key (set_outcome out) mm)"
  unfolding se_inv_def
proof (intro conjI allI impI)
  let ?mm = "AList.map_entry key (set_outcome out) mm"
  note sh = se_inv_shape [OF assms(1)]
  show "se_shape k ?mm" using sh by simp
  fix r i assume v: "se_valid k r i"
  note ok = se_inv_node [OF assms(1) v] and n = node_set_outcome [OF sh]
  have winner: "matchWinner (node ?mm k r' i') = Some e"
    if v': "se_valid k r' i'" and w: "matchWinner (node mm k r' i') = Some e" for r' i' e
  proof -
    have "nid k r' i' \<noteq> key"
    proof
      assume "nid k r' i' = key"
      with assms(2,3) w shape_node(1) [OF sh v'] show False
        by (simp add: matchWinner_def isReady_def)
    qed
    with w v' show ?thesis by (simp add: n)
  qed
  have feeders: "matchWinner (node ?mm k (r - 1) (2 * i + side_ix s)) = Some e"
    if "0 < r" "matchSide (node mm k r i) s = Some e" for s e
    by (rule winner [OF child_valid [OF v that(1)]]) (use ok that in \<open>simp add: node_ok_def\<close>)
  have sides: "matchSide (node ?mm k r i) s = matchSide (node mm k r i) s" for s
    using v by (cases s) (simp_all add: n)
  have ready: "nid k r i = key \<Longrightarrow> m_a (node mm k r i) \<noteq> None \<and> m_b (node mm k r i) \<noteq> None"
    using assms(2,3) shape_node(1) [OF sh v] by (auto simp: isReady_def)
  have ready': "nid k r i = key \<Longrightarrow> matchSide (node mm k r i) s \<noteq> None" for s
    using ready by (cases s) simp_all
  show "node_ok k es ?mm r i"
  proof (rule node_okI)
    assume "m_outcome (node ?mm k r i) \<noteq> None"
    then show "(r = 0 \<and> m_b (node ?mm k r i) = None \<and> m_outcome (node ?mm k r i) = Some OutA) \<or>
        (\<forall>s. matchSide (node ?mm k r i) s \<noteq> None)"
      using node_okD(4) [OF ok] ready' v sides by (cases "nid k r i = key") (auto simp: n)
  qed (use node_okD(1,2) [OF ok] sides feeders in \<open>simp_all del: matchSide_simps\<close>)
qed

end
