(* ===== verification/Elimination.thy ===== *)
theory Elimination
  imports Knockout "HOL-Library.FuncSet"
begin

text \<open>
  Counting decided matches. A bracket for \<open>n\<close> entrants starts with its byes decided; every
  recorded result decides exactly one more match, and the final is decided exactly when all
  matches are. Hence a cup takes \<open>n - 1\<close> results.
\<close>

definition outcomes :: "match_map \<Rightarrow> outcome option list" where
  "outcomes mm = map (\<lambda>(key, m). m_outcome m) mm"

definition decided :: "match_map \<Rightarrow> nat" where
  "decided mm = length (filter (\<lambda>x. x \<noteq> None) (outcomes mm))"

definition byes_done :: "match_map \<Rightarrow> bool" where
  "byes_done mm \<longleftrightarrow> (\<forall>(key, m) \<in> set mm. \<not> is_auto_bye m)"

section \<open>Recording decides one match\<close>

lemma outcomes_apply_updates [keeps]: "outcomes (apply_updates ups mm) = outcomes mm"
proof (induction ups arbitrary: mm)
  case (Cons u ups)
  obtain key s e where u: "u = (key, s, e)" by (cases u)
  have "outcomes (AList.map_entry key (set_side s e) mm) = outcomes mm"
    by (induction mm) (auto simp: outcomes_def)
  with Cons.IH [of "AList.map_entry key (set_side s e) mm"] show ?case
    by (simp add: apply_updates_def u)
qed (simp add: apply_updates_def)

lemma decided_set_outcome:
  assumes "map_of mm key = Some m" "m_outcome m = None"
  shows "decided (AList.map_entry key (set_outcome out) mm) = decided mm + 1"
  using assms by (induction mm) (auto simp: decided_def outcomes_def split: if_splits)

lemma se_round0_sides:
  assumes "se_inv k es mm" "se_inv k es mm'" "se_valid k 0 i"
  shows "isBye (node mm' k 0 i) = isBye (node mm k 0 i)"
  using node_okD(1,2) [OF se_inv_node [OF assms(1,3)]] node_okD(1,2) [OF se_inv_node [OF assms(2,3)]]
  by (simp add: isBye_def)

lemma byes_done_nodes:
  "se_shape k mm \<Longrightarrow> byes_done mm \<longleftrightarrow> (\<forall>r i. se_valid k r i \<longrightarrow> \<not> is_auto_bye (node mm k r i))"
  unfolding byes_done_def by (rule shape_entries)

text \<open>Once the byes are decided, the loop only moves winners.\<close>

lemma advance_outcomes:
  assumes "seated k es" "se_inv k es mm" "byes_done mm"
  shows "outcomes (advanceSingleElim mm) = outcomes mm"
proof -
  let ?P = "\<lambda>mm'. se_inv k es mm' \<and> byes_done mm' \<and> outcomes mm' = outcomes mm"
  have "?P (advanceSingleElim mm)"
  proof (rule advance_invariant [of ?P])
    show "?P mm" using assms by simp
  next
    fix mm' assume "?P mm'"
    then show "?P (bye_pass mm')" by (simp add: bye_pass_id byes_done_def)
  next
    fix mm' assume P: "?P mm'"
    let ?u = "apply_updates (collect_updates mm') mm'"
    have inv: "se_inv k es ?u" using P by (simp add: se_inv_apply_updates)
    have "\<not> is_auto_bye (node ?u k r i)" if v: "se_valid k r i" for r i
    proof
      assume bye: "is_auto_bye (node ?u k r i)"
      then have r: "r = 0" using shape_node(3) [of k ?u r i] inv v by (simp add: is_auto_bye_def se_inv_def)
      have "is_auto_bye (node mm' k 0 i)"
        using bye P inv v r se_round0_sides [of k es ?u mm' i] node_apply_updates(1) [of k mm' 0 i]
          shape_node(3) [of k mm' 0 i]
        by (simp add: is_auto_bye_def se_inv_def)
      then show False
        using P v r byes_done_nodes [of k mm'] by (simp add: se_inv_def)
    qed
    then have "byes_done ?u"
      using byes_done_nodes [OF se_inv_shape [OF inv]] by simp
    with P inv show "?P ?u" by (simp add: keeps)
  qed
  then show ?thesis by simp
qed

lemma settled_byes_done: "settled mm \<Longrightarrow> byes_done mm"
  by (simp add: settled_def byes_done_def)

lemma byes_done_set_outcome:
  assumes "byes_done mm"
  shows "byes_done (AList.map_entry key (set_outcome out) mm)"
  using assms by (induction mm) (auto simp: byes_done_def is_auto_bye_def split: if_splits)

lemma se_record_step:
  fixes out :: outcome
  assumes "seated k es" "se_inv k es mm" "settled mm" "map_of mm key = Some m" "isReady m"
  defines "mm' \<equiv> advanceSingleElim (AList.map_entry key (set_outcome out) mm)"
  shows "se_inv k es mm'" "settled mm'" "decided mm' = decided mm + 1"
    "outcomes mm' = outcomes (AList.map_entry key (set_outcome out) mm)"
proof -
  have inv: "se_inv k es (AList.map_entry key (set_outcome out) mm)"
    using assms by (intro se_inv_set_outcome)
  then show "se_inv k es mm'" unfolding mm'_def by (rule se_inv_advance [OF assms(1)])
  show "settled mm'" unfolding mm'_def by (rule settled_advance)
  show "outcomes mm' = outcomes (AList.map_entry key (set_outcome out) mm)"
    unfolding mm'_def using assms inv
    by (intro advance_outcomes byes_done_set_outcome settled_byes_done)
  moreover have "decided (AList.map_entry key (set_outcome out) mm) = decided mm + 1"
    by (rule decided_set_outcome [OF assms(4)]) (use assms(5) in \<open>simp add: isReady_def\<close>)
  ultimately show "decided mm' = decided mm + 1" by (simp add: decided_def)
qed

section \<open>Decided matches as positions\<close>

definition decided_at :: "nat \<Rightarrow> match_map \<Rightarrow> (nat \<times> nat) set" where
  "decided_at k mm = {(r, i). se_valid k r i \<and> m_outcome (node mm k r i) \<noteq> None}"

lemma distinct_se_positions: "distinct (se_positions k)"
  by (metis (no_types, lifting) distinct_ids_from distinct_map se_positions_ids)

lemma finite_positions [simp]: "finite {(r, i). se_valid k r i}"
proof -
  have "{(r, i). se_valid k r i} = set (se_positions k)" using set_se_positions by auto
  then show ?thesis by simp
qed

lemma card_positions: "card {(r, i). se_valid k r i} = 2 ^ k - 1"
proof -
  have "{(r, i). se_valid k r i} = set (se_positions k)" using set_se_positions by auto
  then show ?thesis by (simp add: distinct_card distinct_se_positions length_se_positions)
qed

lemma decided_card:
  assumes "se_shape k mm"
  shows "decided mm = card (decided_at k mm)"
proof -
  have "outcomes mm = map (\<lambda>(r, i). m_outcome (node mm k r i)) (se_positions k)"
    by (subst shape_list [OF assms]) (simp add: outcomes_def case_prod_unfold comp_def)
  then have "decided mm =
      length (filter (\<lambda>(r, i). m_outcome (node mm k r i) \<noteq> None) (se_positions k))"
    by (simp add: decided_def filter_map comp_def case_prod_unfold)
  also have "\<dots> = card (set (filter (\<lambda>(r, i). m_outcome (node mm k r i) \<noteq> None) (se_positions k)))"
    by (rule distinct_card [symmetric]) (simp add: distinct_se_positions)
  also have "set (filter (\<lambda>(r, i). m_outcome (node mm k r i) \<noteq> None) (se_positions k)) = decided_at k mm"
    using set_se_positions by (auto simp: decided_at_def)
  finally show ?thesis .
qed

lemma decided_le: "se_shape k mm \<Longrightarrow> decided mm \<le> 2 ^ k - 1"
  unfolding decided_card card_positions [symmetric]
  by (rule card_mono) (auto simp: decided_at_def)

lemma decided_all_iff:
  assumes "se_shape k mm"
  shows "decided mm = 2 ^ k - 1 \<longleftrightarrow> (\<forall>r i. se_valid k r i \<longrightarrow> m_outcome (node mm k r i) \<noteq> None)"
proof
  assume "decided mm = 2 ^ k - 1"
  then have "decided_at k mm = {(r, i). se_valid k r i}"
    by (intro card_subset_eq) (auto simp: decided_at_def decided_card [OF assms] card_positions)
  then have "(r, i) \<in> decided_at k mm" if "se_valid k r i" for r i using that by simp
  then show "\<forall>r i. se_valid k r i \<longrightarrow> m_outcome (node mm k r i) \<noteq> None"
    by (simp add: decided_at_def)
next
  assume "\<forall>r i. se_valid k r i \<longrightarrow> m_outcome (node mm k r i) \<noteq> None"
  then have "decided_at k mm = {(r, i). se_valid k r i}" by (auto simp: decided_at_def)
  then show "decided mm = 2 ^ k - 1" by (simp add: decided_card [OF assms] card_positions)
qed

text \<open>A decided match has decided feeders, so a decided final means that all is decided.\<close>

lemma decided_feeder:
  assumes "se_inv k es mm" "se_valid k (Suc r) i" "m_outcome (node mm k (Suc r) i) \<noteq> None" "b < 2"
  shows "m_outcome (node mm k r (2 * i + b)) \<noteq> None"
proof -
  note ok = se_inv_node [OF assms(1,2)]
  obtain s where s: "side_ix s = b"
    using assms(4) that [of SideA] that [of SideB] by (auto simp: side_ix_def less_2_cases_iff)
  obtain e where "matchSide (node mm k (Suc r) i) s = Some e"
    using node_okD(4) [OF ok assms(3)] by auto
  then have "matchWinner (node mm k r (2 * i + b)) = Some e"
    using node_okD(3) [OF ok] s by fastforce
  then show ?thesis by (auto simp: matchWinner_def split: option.splits)
qed

lemma final_decides_all:
  assumes "se_inv k es mm" "m_outcome (node mm k (k - 1) 0) \<noteq> None" "se_valid k r i"
  shows "m_outcome (node mm k r i) \<noteq> None"
  using assms(3)
proof (induction "k - 1 - r" arbitrary: r i)
  case 0
  then have "r = k - 1" "i = 0" by (auto simp: se_valid_def)
  with assms(2) show ?case by simp
next
  case (Suc d)
  then have "r + 1 < k" by (simp add: se_valid_def)
  then have v: "se_valid k (Suc r) (i div 2)" using se_valid_parent [OF Suc.prems] by simp
  have "m_outcome (node mm k (Suc r) (i div 2)) \<noteq> None"
    by (rule Suc.hyps(1)) (use Suc.hyps(2) v in simp_all)
  then have "m_outcome (node mm k r (2 * (i div 2) + i mod 2)) \<noteq> None"
    by (intro decided_feeder [OF assms(1) v]) simp_all
  then show ?case by simp
qed

lemma final_iff_all:
  assumes "se_inv k es mm" "1 \<le> k"
  shows "m_outcome (node mm k (k - 1) 0) \<noteq> None \<longleftrightarrow> decided mm = 2 ^ k - 1"
proof -
  have "se_valid k (k - 1) 0" using assms(2) by (simp add: se_valid_def)
  then show ?thesis
    using decided_all_iff [OF se_inv_shape [OF assms(1)]] final_decides_all [OF assms(1)] by blast
qed

section \<open>The initial bracket\<close>

definition fresh_bracket :: "nat \<Rightarrow> entrant list \<Rightarrow> match_map" where
  "fresh_bracket k es = map (\<lambda>m. (m_id m, m)) (se_matches (2 ^ k) es 1)"

lemma fresh_bracket_list:
  "k \<le> 32 \<Longrightarrow> fresh_bracket k es = map (\<lambda>(r, i). (nid k r i, se_node k es 1 r i)) (se_positions k)"
  by (simp add: fresh_bracket_def se_matches_nodes comp_def case_prod_unfold)
    (simp add: se_node_def)

lemma fresh_shape: "k \<le> 32 \<Longrightarrow> se_shape k (fresh_bracket k es)"
  by (simp add: se_shape_def skeleton_def fresh_bracket_list comp_def case_prod_unfold)
    (simp add: se_node_def)

lemma fresh_node:
  assumes "k \<le> 32" "se_valid k r i"
  shows "node (fresh_bracket k es) k r i = se_node k es 1 r i"
proof -
  have "(nid k r i, se_node k es 1 r i) \<in> set (fresh_bracket k es)"
    using assms(2) by (force simp: fresh_bracket_list [OF assms(1)] simp flip: set_se_positions)
  then have "map_of (fresh_bracket k es) (nid k r i) = Some (se_node k es 1 r i)"
    by (simp add: shape_distinct [OF fresh_shape [OF assms(1)]])
  then show ?thesis by (simp add: node_def)
qed

lemma fresh_inv: "k \<le> 32 \<Longrightarrow> se_inv k es (fresh_bracket k es)"
proof -
  assume k: "k \<le> 32"
  have "node_ok k es (fresh_bracket k es) r i" if "se_valid k r i" for r i
  proof (rule node_okI)
    fix s e assume "0 < r" "matchSide (node (fresh_bracket k es) k r i) s = Some e"
    then show "matchWinner (node (fresh_bracket k es) k (r - 1) (2 * i + side_ix s)) = Some e"
      by (cases s) (simp_all add: fresh_node [OF k that] se_node_def)
  qed (unfold fresh_node [OF k that], simp_all add: se_node_def)
  with fresh_shape [OF k] show ?thesis by (simp add: se_inv_def)
qed

text \<open>Until the first result is recorded only byes are decided.\<close>

definition only_byes :: "nat \<Rightarrow> match_map \<Rightarrow> bool" where
  "only_byes k mm \<longleftrightarrow>
     (\<forall>r i. se_valid k r i \<longrightarrow> m_outcome (node mm k r i) \<noteq> None \<longrightarrow>
        r = 0 \<and> m_outcome (node mm k r i) = Some OutA \<and> m_b (node mm k 0 i) = None)"

lemma advance_only_byes:
  assumes "seated k es" "se_inv k es mm" "only_byes k mm"
  shows "only_byes k (advanceSingleElim mm)"
proof -
  let ?P = "\<lambda>mm. se_inv k es mm \<and> only_byes k mm"
  have "?P (advanceSingleElim mm)"
  proof (rule advance_invariant [of ?P])
    show "?P mm" using assms by simp
  next
    fix mm assume P: "?P mm"
    have inv: "se_inv k es (bye_pass mm)" using P assms(1) by (simp add: se_inv_bye_pass)
    have "r = 0 \<and> m_outcome (node (bye_pass mm) k r i) = Some OutA \<and> m_b (node (bye_pass mm) k 0 i) = None"
      if v: "se_valid k r i" and out: "m_outcome (node (bye_pass mm) k r i) \<noteq> None" for r i
    proof (cases "m_outcome (node mm k r i)")
      case None
      note n = node_bye_pass [OF se_inv_shape [OF conjunct1 [OF P]] v]
      have ab: "is_auto_bye (node mm k r i)"
      proof (rule ccontr)
        assume "\<not> is_auto_bye (node mm k r i)"
        then have "auto_bye (node mm k r i) = node mm k r i" by (rule auto_bye_id)
        with None out n show False by simp
      qed
      then have r: "r = 0"
        using shape_node(3) [OF se_inv_shape [OF conjunct1 [OF P]] v] by (simp add: is_auto_bye_def)
      have "m_outcome (node (bye_pass mm) k r i) \<noteq> None \<Longrightarrow> isBye (node (bye_pass mm) k r i)"
        using ab by (simp add: n is_auto_bye_def isBye_def)
      with out r node_okD(4) [OF se_inv_node [OF inv v] out] show ?thesis
        by (auto simp: isBye_def matchSide_def split: side.splits)
    next
      case (Some x)
      then have eq: "node (bye_pass mm) k r i = node mm k r i"
        using node_bye_pass [OF se_inv_shape [OF conjunct1 [OF P]] v] by (simp add: auto_bye_def)
      from Some P v have "r = 0 \<and> m_outcome (node mm k r i) = Some OutA \<and> m_b (node mm k 0 i) = None"
        unfolding only_byes_def by (metis option.distinct(1))
      with eq show ?thesis by (metis (no_types))
    qed
    with inv show "?P (bye_pass mm)" by (simp add: only_byes_def)
  next
    fix mm assume P: "?P mm"
    let ?u = "apply_updates (collect_updates mm) mm"
    have inv: "se_inv k es ?u" using P by (simp add: se_inv_apply_updates)
    have "m_outcome (node ?u k r i) = m_outcome (node mm k r i)" if "se_valid k r i" for r i
      using node_apply_updates(1) [OF se_inv_shape [OF conjunct1 [OF P]] that] .
    moreover have "m_b (node ?u k 0 i) = m_b (node mm k 0 i)" if "se_valid k 0 i" for i
      using node_okD(2) [OF se_inv_node [OF inv that]]
        node_okD(2) [OF se_inv_node [OF conjunct1 [OF P] that]] by simp
    ultimately show "?P ?u" using P inv unfolding only_byes_def by metis
  qed
  then show ?thesis by simp
qed

lemma fresh_only_byes: "k \<le> 32 \<Longrightarrow> only_byes k (fresh_bracket k es)"
  by (simp add: only_byes_def fresh_node se_node_def)

section \<open>How many byes\<close>

lemma bye_slots:
  assumes "seated k es"
  shows "card {i. i < 2 ^ (k - 1) \<and> seat k es (2 * i + 1) = None} = 2 ^ k - length es"
proof -
  have k: "0 < k" "k \<le> 32" "2 ^ (k - 1) < length es" using assms by (simp_all add: seated_def)
  have dbl: "(2::nat) ^ k = 2 * 2 ^ (k - 1)" using k by (simp flip: power_Suc)
  have odd_rev: "bitReverse y k = 2 * (bitReverse y k div 2) + 1" if "2 ^ (k - 1) \<le> y" "y < 2 ^ k" for y
  proof -
    have "odd (bitReverse y k)" using that k bitReverse_even [of k y] by simp
    then show ?thesis by simp
  qed
  have "bij_betw (\<lambda>i. bitReverse (2 * i + 1) k)
      {i. i < 2 ^ (k - 1) \<and> seat k es (2 * i + 1) = None} {length es..<2 ^ k}"
  proof (rule bij_betwI [where g = "\<lambda>y. bitReverse y k div 2"])
    show "(\<lambda>i. bitReverse (2 * i + 1) k) \<in>
        {i. i < 2 ^ (k - 1) \<and> seat k es (2 * i + 1) = None} \<rightarrow> {length es..<2 ^ k}"
      using k by (auto simp: seat_None bitReverse_less)
  next
    show "(\<lambda>y. bitReverse y k div 2) \<in>
        {length es..<2 ^ k} \<rightarrow> {i. i < 2 ^ (k - 1) \<and> seat k es (2 * i + 1) = None}"
    proof (rule funcsetI)
      fix y assume y: "y \<in> {length es..<2 ^ k}"
      have "bitReverse y k < 2 ^ k" using k by (simp add: bitReverse_less)
      moreover have "2 * (bitReverse y k div 2) + 1 = bitReverse y k" using odd_rev [of y] y k by simp
      ultimately show "bitReverse y k div 2 \<in> {i. i < 2 ^ (k - 1) \<and> seat k es (2 * i + 1) = None}"
        using y k dbl by (simp add: seat_None bitReverse_bitReverse)
    qed
  next
    fix i assume "i \<in> {i. i < 2 ^ (k - 1) \<and> seat k es (2 * i + 1) = None}"
    then show "bitReverse (bitReverse (2 * i + 1) k) k div 2 = i"
      using k dbl by (simp add: bitReverse_bitReverse)
  next
    fix y assume y: "y \<in> {length es..<2 ^ k}"
    have "bitReverse (2 * (bitReverse y k div 2) + 1) k = bitReverse (bitReverse y k) k"
      using odd_rev [of y] y k by simp
    then show "bitReverse (2 * (bitReverse y k div 2) + 1) k = y"
      using y k by (simp add: bitReverse_bitReverse)
  qed
  then show ?thesis by (simp add: bij_betw_same_card)
qed

lemma initial_decided:
  assumes "seated k es" and eq: "mm = advanceSingleElim (fresh_bracket k es)"
  shows "se_inv k es mm" "settled mm" "decided mm = 2 ^ k - length es" "only_byes k mm"
proof -
  have k: "k \<le> 32" "0 < k" using assms(1) by (simp_all add: seated_def)
  show inv: "se_inv k es mm" unfolding eq by (intro se_inv_advance assms fresh_inv k)
  show stl: "settled mm" unfolding eq by (rule settled_advance)
  show ob: "only_byes k mm" unfolding eq
    by (intro advance_only_byes [of k es] assms fresh_inv fresh_only_byes k)
  have side_b: "m_b (node mm k 0 i) = seat k es (2 * i + 1)" if "se_valid k 0 i" for i
    using node_okD(2) [OF se_inv_node [OF inv that]] by simp
  have byed: "m_outcome (node mm k 0 i) \<noteq> None"
    if v: "se_valid k 0 i" and none: "seat k es (2 * i + 1) = None" for i
  proof -
    have "m_a (node mm k 0 i) = seat k es (2 * i)"
      using node_okD(1) [OF se_inv_node [OF inv v]] by simp
    then have "m_a (node mm k 0 i) \<noteq> None"
      using seat_even [OF assms(1), of i] se_valid_slot [OF v] by simp
    then have bye: "isBye (node mm k 0 i)" using side_b [OF v] none by (simp add: isBye_def)
    have mem: "(nid k 0 i, node mm k 0 i) \<in> set mm"
      by (rule map_of_SomeD [OF shape_node(1) [OF se_inv_shape [OF inv] v]])
    show ?thesis
      by (rule settled_bye [OF stl mem shape_node(3) [OF se_inv_shape [OF inv] v] bye])
  qed
  have "(r, i) \<in> decided_at k mm \<longleftrightarrow>
      (r, i) \<in> Pair 0 ` {i. i < 2 ^ (k - 1) \<and> seat k es (2 * i + 1) = None}" for r i
  proof
    assume "(r, i) \<in> decided_at k mm"
    then have v: "se_valid k r i" and out: "m_outcome (node mm k r i) \<noteq> None"
      by (simp_all add: decided_at_def)
    from ob v out have "r = 0" "m_b (node mm k 0 i) = None" by (auto simp: only_byes_def)
    with v side_b [of i] show "(r, i) \<in> Pair 0 ` {i. i < 2 ^ (k - 1) \<and> seat k es (2 * i + 1) = None}"
      by (auto simp: se_valid_def)
  next
    assume "(r, i) \<in> Pair 0 ` {i. i < 2 ^ (k - 1) \<and> seat k es (2 * i + 1) = None}"
    then have r: "r = 0" "i < 2 ^ (k - 1)" "seat k es (2 * i + 1) = None" by auto
    then have "se_valid k 0 i" using k by (simp add: se_valid_def)
    with r byed [of i] show "(r, i) \<in> decided_at k mm" by (simp add: decided_at_def)
  qed
  then have "decided_at k mm = Pair 0 ` {i. i < 2 ^ (k - 1) \<and> seat k es (2 * i + 1) = None}"
    by auto
  then have "card (decided_at k mm) = card {i. i < 2 ^ (k - 1) \<and> seat k es (2 * i + 1) = None}"
    by (simp add: card_image inj_on_def)
  then show "decided mm = 2 ^ k - length es"
    by (simp only: decided_card [OF se_inv_shape [OF inv]] bye_slots [OF assms(1)])
qed

end
