(* ===== verification/Driver.thy ===== *)
theory Driver
  imports Elimination
begin

text \<open>
  The driver as a state machine: what \<open>Tournament.new\<close>, \<open>record\<close> and \<open>advance\<close> keep for
  every format.
\<close>

section \<open>Reachable tournaments\<close>

inductive reachable :: "tournament_format \<Rightarrow> entrant list \<Rightarrow> tournament \<Rightarrow> bool"
  for fmt :: tournament_format and es :: "entrant list" where
  created: "new_tournament fmt es = Inr t \<Longrightarrow> reachable fmt es t"
| recorded: "reachable fmt es t \<Longrightarrow> record_result i out t = Inr t' \<Longrightarrow> reachable fmt es t'"
| advanced: "reachable fmt es t \<Longrightarrow> reachable fmt es (advance t)"

definition replay :: "(match_id \<times> outcome) list \<Rightarrow> tournament \<Rightarrow> tournament engine" where
  "replay rs t = fold_result (\<lambda>(i, out) t. record_result i out t) rs t"

lemma replay_Nil [simp]: "replay [] t = Inr t"
  by (simp add: replay_def)

lemma replay_Cons [simp]: "replay ((i, out) # rs) t = bind_result (record_result i out t) (replay rs)"
  by (simp add: replay_def [abs_def])

lemma replay_append: "replay (rs @ rs') t = bind_result (replay rs t) (replay rs')"
  by (simp add: replay_def [abs_def] fold_result_append)

lemma replay_invariant:
  assumes "replay rs t = Inr t'" "P t"
    and "\<And>i out t t'. (i, out) \<in> set rs \<Longrightarrow> P t \<Longrightarrow> record_result i out t = Inr t' \<Longrightarrow> P t'"
  shows "P t'"
  using assms(1,2) unfolding replay_def
  by (rule fold_result_invariant) (auto intro: assms(3))

lemma replay_reachable: "reachable fmt es t \<Longrightarrow> replay rs t = Inr t' \<Longrightarrow> reachable fmt es t'"
  by (rule replay_invariant [where P = "reachable fmt es"]) (auto intro: recorded)

lemma record_result_Inr:
  "record_result i out t = Inr t' \<longleftrightarrow>
     (\<exists>m. map_of (t_matchMap t) i = Some m \<and> isReady m \<and>
        \<not> (t_format t = SingleElimination \<and> out = OutDraw) \<and>
        t' = advance (t\<lparr>t_matchMap := AList.map_entry i (set_outcome out) (t_matchMap t)\<rparr>))"
  by (auto simp: record_result_def split: option.splits)

section \<open>What a batch of a Swiss round loads\<close>

lemma keyed_skeleton:
  assumes "skeleton mm' = skeleton mm"
  shows "keyed mm' \<longleftrightarrow> keyed mm" "length mm' = length mm"
proof -
  have fst: "map fst mm' = map fst mm" using assms by (metis keys_skeleton)
  then show len: "length mm' = length mm" by (metis length_map)
  have "(\<forall>(k, m) \<in> set mm. m_id m = k) \<longleftrightarrow> (\<forall>(k, i, _) \<in> set (skeleton mm). i = k)" for mm
    by (auto simp: skeleton_def)
  with assms fst len show "keyed mm' \<longleftrightarrow> keyed mm" by (simp add: keyed_def)
qed

definition swiss_build :: "nat \<Rightarrow> swiss_entry list \<Rightarrow> match_id \<Rightarrow> bracket_match list" where
  "swiss_build rd entries s = map (swiss_match rd) (fst (pairSwissRound entries s))"

lemma swiss_build_fresh: "fresh_batch (entry_entrants entries) s (swiss_build rd entries s)"
proof -
  have "map m_id (swiss_build rd entries s) = map sp_id (fst (pairSwissRound entries s))"
    by (simp add: swiss_build_def swiss_match_def)
  then have "map m_id (swiss_build rd entries s) = ids_from s (length (swiss_build rd entries s))"
    by (simp add: pairSwissRound_ids swiss_build_def)
  moreover have "sides_of (swiss_match rd p) \<subseteq> set (entry_entrants entries)"
    if "p \<in> set (fst (pairSwissRound entries s))" for p
    using fair_pair_sides [OF pairSwissRound_fair [OF that]] by (simp add: sides_of_def swiss_match_def)
  ultimately show ?thesis by (auto simp: fresh_batch_def swiss_build_def swiss_match_def)
qed

definition swiss_first_round ::
  "entrant list \<Rightarrow> match_id \<Rightarrow> (engine_error, bracket_match list) result" where
  "swiss_first_round es s = Inr (swiss_build 0 (map SwissEntry es) s)"

lemma entry_entrants_new [simp]: "entry_entrants (map SwissEntry es) = es"
  by (simp add: entry_entrants_def comp_def SwissEntry_def)

interpretation swiss_round: match_source swiss_first_round
  using swiss_build_fresh [of "map SwissEntry _"]
  by unfold_locales (auto simp: swiss_first_round_def)

text \<open>What scoring a round leaves alone.\<close>

definition swiss_frame :: "swiss_entry list \<Rightarrow> (entrant \<times> entrant_id set) list" where
  "swiss_frame entries = map (\<lambda>e. (se_entrant e, se_played e)) entries"

lemma swiss_frame_entrants: "swiss_frame a = swiss_frame b \<Longrightarrow> entry_entrants a = entry_entrants b"
proof -
  have "entry_entrants x = map fst (swiss_frame x)" for x
    by (simp add: swiss_frame_def entry_entrants_def)
  then show "swiss_frame a = swiss_frame b \<Longrightarrow> entry_entrants a = entry_entrants b" by simp
qed

lemma swiss_frame_upd_nth:
  assumes "\<And>e. se_entrant (f e) = se_entrant e \<and> se_played (f e) = se_played e"
  shows "swiss_frame (upd_nth i f es) = swiss_frame es"
  by (cases "i < length es")
    (simp_all add: swiss_frame_def upd_nth_def map_update assms list_update_same_conv list_update_beyond)

lemma swiss_frame_apply_match [simp]: "swiss_frame (apply_swiss_match idx rd es m) = swiss_frame es"
proof -
  have "swiss_frame (score_entries out ia ib es) = swiss_frame es" for out ia ib
    by (cases out) (simp_all add: swiss_frame_upd_nth add_win_def add_loss_def add_draw_def)
  then show ?thesis
    by (simp add: apply_swiss_match_def split: option.split)
qed

lemma swiss_frame_apply_matches: "swiss_frame (foldl (apply_swiss_match idx rd) es ms) = swiss_frame es"
  by (induction ms arbitrary: es) simp_all

section \<open>The invariant of the driver\<close>

definition sides_within :: "entrant set \<Rightarrow> match_map \<Rightarrow> bool" where
  "sides_within S mm \<longleftrightarrow> (\<forall>(key, m) \<in> set mm. sides_of m \<subseteq> S)"

lemma sides_within_map_of: "sides_within S mm \<Longrightarrow> map_of mm key = Some m \<Longrightarrow> sides_of m \<subseteq> S"
  by (auto simp: sides_within_def dest!: map_of_SomeD)

lemma sides_within_map_entry:
  assumes "sides_within S mm" "\<And>m. sides_of m \<subseteq> S \<Longrightarrow> sides_of (f m) \<subseteq> S"
  shows "sides_within S (AList.map_entry key f mm)"
  using assms(1) by (induction mm) (auto simp: sides_within_def intro: assms(2) [THEN subsetD])

lemma sides_within_set_outcome:
  "sides_within S mm \<Longrightarrow> sides_within S (AList.map_entry key (set_outcome out) mm)"
  by (rule sides_within_map_entry) (simp_all add: sides_of_def)

lemma sides_within_apply_updates:
  assumes "sides_within S mm" "\<forall>(tgt, s, e) \<in> set ups. e \<in> S"
  shows "sides_within S (apply_updates ups mm)"
  using assms
proof (induction ups arbitrary: mm)
  case (Cons u ups)
  obtain key s e where u: "u = (key, s, e)" by (cases u)
  have "sides_within S (AList.map_entry key (set_side s e) mm)"
    using Cons.prems u
    by (intro sides_within_map_entry) (cases s; auto simp: sides_of_def set_side_def)+
  with Cons show ?case by (simp add: apply_updates_def u)
qed (simp add: apply_updates_def)

lemma sides_within_advance:
  assumes "sides_within S mm"
  shows "sides_within S (advanceSingleElim mm)"
proof (rule advance_invariant [of "sides_within S"])
  show "sides_within S mm" by (rule assms)
next
  fix mm assume "sides_within S mm"
  then show "sides_within S (bye_pass mm)" by (auto simp: sides_within_def bye_pass_def sides_of_def)
next
  fix mm assume mm: "sides_within S mm"
  have "e \<in> S" if "(tgt, s, e) \<in> set (collect_updates mm)" for tgt s e
  proof -
    from that obtain key m where m: "(key, m) \<in> set mm" "update_of mm m = Some (tgt, s, e)"
      by (auto simp: collect_updates_iff)
    then obtain ws where "matchSide m ws = Some e" by (auto simp: update_of_Some)
    with mm m(1) show ?thesis by (auto simp: sides_within_def dest!: matchSide_sides)
  qed
  with mm show "sides_within S (apply_updates (collect_updates mm) mm)"
    by (intro sides_within_apply_updates) auto
qed

definition entries_ok :: "tournament_format \<Rightarrow> entrant list \<Rightarrow> swiss_entry list option \<Rightarrow> bool" where
  "entries_ok fmt es x \<longleftrightarrow>
     (case fmt of Swiss n \<Rightarrow> (\<exists>entries. x = Some entries \<and> entry_entrants entries = es)
      | _ \<Rightarrow> x = None)"

definition driver_inv :: "tournament_format \<Rightarrow> entrant list \<Rightarrow> tournament \<Rightarrow> bool" where
  "driver_inv fmt es t \<longleftrightarrow>
     t_format t = fmt \<and> t_entrants t = es \<and> 2 \<le> length es \<and> idsUnique es \<and>
     keyed (t_matchMap t) \<and> t_nextId t = 1 + int (length (t_matchMap t)) \<and>
     sides_within (set es) (t_matchMap t) \<and> entries_ok fmt es (t_swissEntries t)"

lemma recompute_frame [simp]:
  "t_format (recomputeComplete t) = t_format t" "t_entrants (recomputeComplete t) = t_entrants t"
  "t_matchMap (recomputeComplete t) = t_matchMap t" "t_nextId (recomputeComplete t) = t_nextId t"
  "t_swissEntries (recomputeComplete t) = t_swissEntries t"
  "t_swissRound (recomputeComplete t) = t_swissRound t"
  "t_complete (recomputeComplete t) = compute_complete t"
  by (simp_all add: recomputeComplete_def)

lemma compute_complete_recompute [simp]: "compute_complete (recomputeComplete t) = compute_complete t"
  by (simp add: recomputeComplete_def compute_complete_def matches_def split: tournament_format.split)

lemma driver_inv_recompute [simp]: "driver_inv fmt es (recomputeComplete t) = driver_inv fmt es t"
  by (simp add: driver_inv_def)

lemma driver_inv_load:
  assumes "driver_inv fmt es t" "fresh_batch es (t_nextId t) ms" "entries_ok fmt es x"
  shows "driver_inv fmt es (t\<lparr>t_nextId := t_nextId t + int (length ms),
    t_matchMap := load_matches ms (t_matchMap t), t_swissEntries := x\<rparr>)"
proof -
  have k: "keyed (t_matchMap t)" "map m_id ms = ids_from (1 + int (length (t_matchMap t))) (length ms)"
    using assms by (simp_all add: driver_inv_def fresh_batch_def)
  note load = load_matches_keyed [OF k]
  have "sides_within (set es) (load_matches ms (t_matchMap t))"
    using assms unfolding load(1) by (auto simp: driver_inv_def sides_within_def fresh_batch_def)
  moreover have "length (load_matches ms (t_matchMap t)) = length (t_matchMap t) + length ms"
    unfolding load(1) by simp
  ultimately show ?thesis using assms load(2) by (simp add: driver_inv_def)
qed

lemma driver_inv_pair_round:
  assumes "driver_inv fmt es t"
  shows "driver_inv fmt es (pair_round t)"
proof (cases "t_swissEntries t")
  case (Some entries)
  obtain pairs entries' where p: "pairSwissRound entries (t_nextId t) = (pairs, entries')" by force
  from assms Some have ent: "entry_entrants entries = es"
    by (auto simp: driver_inv_def entries_ok_def split: tournament_format.splits)
  have "entry_entrants entries' = es"
    using pairSwissRound_entrants [of entries "t_nextId t"] by (simp add: p ent)
  with assms Some have ok: "entries_ok fmt es (Some entries')"
    by (auto simp: driver_inv_def entries_ok_def split: tournament_format.splits)
  have "fresh_batch es (t_nextId t) (map (swiss_match (t_swissRound t)) pairs)"
    using swiss_build_fresh [of entries "t_nextId t" "t_swissRound t"] by (simp add: swiss_build_def p ent)
  from driver_inv_load [OF assms this ok] show ?thesis by (simp add: pair_round_def Some p)
qed (simp add: pair_round_def assms)

lemma driver_inv_matchMap:
  assumes "driver_inv fmt es t" "skeleton mm = skeleton (t_matchMap t)" "sides_within (set es) mm"
  shows "driver_inv fmt es (t\<lparr>t_matchMap := mm\<rparr>)"
  using assms keyed_skeleton [OF assms(2)] by (simp add: driver_inv_def)

lemma driver_inv_apply_swiss:
  assumes "driver_inv fmt es t"
  shows "driver_inv fmt es (applySwissResults t)"
proof (cases "t_swissEntries t")
  case (Some entries)
  have "entry_entrants (foldl (apply_swiss_match (id_to_idx entries) (t_swissRound t)) entries
      (map snd (t_matchMap t))) = entry_entrants entries"
    by (rule swiss_frame_entrants) (rule swiss_frame_apply_matches)
  with assms Some show ?thesis
    by (auto simp: applySwissResults_def driver_inv_def entries_ok_def split: tournament_format.splits)
qed (simp add: applySwissResults_def assms)

lemma driver_inv_advance:
  assumes "driver_inv fmt es t"
  shows "driver_inv fmt es (advance t)"
proof (cases "t_format t")
  case SingleElimination
  have "sides_within (set es) (advanceSingleElim (t_matchMap t))"
    using assms by (intro sides_within_advance) (simp add: driver_inv_def)
  with assms SingleElimination show ?thesis
    by (simp add: advance_def driver_inv_matchMap keeps)
next
  case RoundRobin
  then show ?thesis by (simp add: advance_def assms)
next
  case (Swiss n)
  have 1: "driver_inv fmt es (applySwissResults t)" by (rule driver_inv_apply_swiss [OF assms])
  then have "driver_inv fmt es
      (pair_round ((applySwissResults t)\<lparr>t_swissRound := t_swissRound (applySwissResults t) + 1\<rparr>))"
    by (intro driver_inv_pair_round) (simp add: driver_inv_def)
  with 1 Swiss assms show ?thesis by (simp add: advance_def Let_def)
qed

lemma driver_inv_record:
  assumes "driver_inv fmt es t" "record_result i out t = Inr t'"
  shows "driver_inv fmt es t'"
proof -
  have "driver_inv fmt es (t\<lparr>t_matchMap := AList.map_entry i (set_outcome out) (t_matchMap t)\<rparr>)"
    using assms(1) by (intro driver_inv_matchMap)
      (simp_all add: keeps driver_inv_def sides_within_set_outcome)
  then show ?thesis using assms(2) driver_inv_advance by (auto simp: record_result_Inr)
qed

lemma empty_frame [simp]:
  "t_nextId (empty_tournament fmt es) = 1" "t_matchMap (empty_tournament fmt es) = []"
  "t_swissEntries (empty_tournament fmt es) = None" "t_format (empty_tournament fmt es) = fmt"
  "t_entrants (empty_tournament fmt es) = es" "t_swissRound (empty_tournament fmt es) = 0"
  by (simp_all add: empty_tournament_def)

lemma driver_inv_empty:
  "2 \<le> length es \<Longrightarrow> idsUnique es \<Longrightarrow> entries_ok fmt es x \<Longrightarrow>
     driver_inv fmt es ((empty_tournament fmt es)\<lparr>t_swissEntries := x\<rparr>)"
  by (simp add: driver_inv_def empty_tournament_def sides_within_def)

lemma driver_inv_new:
  assumes "new_tournament fmt es = Inr t"
  shows "driver_inv fmt es t"
proof -
  have es: "2 \<le> length es" "idsUnique es" using assms by (auto simp: new_tournament_def split: if_splits)
  let ?e = "empty_tournament fmt es"
  have none: "?e\<lparr>t_swissEntries := None\<rparr> = ?e" by (simp add: empty_tournament_def)
  show ?thesis
  proof (cases fmt)
    case SingleElimination
    with assms es obtain ms rounds where b: "buildSingleElim es 1 = Inr (ms, rounds)"
      and t: "t = recomputeComplete (?e\<lparr>t_nextId := 1 + int (length ms),
        t_matchMap := advanceSingleElim (load_matches ms [])\<rparr>)"
      by (auto simp: new_tournament_def bind_result_eq_Inr Let_def)
    have ok: "entries_ok fmt es None" by (simp add: entries_ok_def SingleElimination)
    have "single_elim_build es 1 = Inr ms" by (simp add: single_elim_build_def b)
    then have "fresh_batch es (t_nextId ?e) ms" unfolding empty_frame by (rule single_elim.build_fresh)
    from driver_inv_load [OF _ this ok] driver_inv_empty [OF es ok]
    have load: "driver_inv fmt es (?e\<lparr>t_nextId := 1 + int (length ms), t_matchMap := load_matches ms []\<rparr>)"
      by (simp add: none) (simp add: empty_tournament_def)
    then have within: "sides_within (set es) (load_matches ms [])" by (simp add: driver_inv_def)
    have "driver_inv fmt es (?e\<lparr>t_nextId := 1 + int (length ms), t_matchMap := load_matches ms []\<rparr>
        \<lparr>t_matchMap := advanceSingleElim (load_matches ms [])\<rparr>)"
      by (rule driver_inv_matchMap [OF load]) (simp_all add: keeps sides_within_advance within)
    then show ?thesis by (simp add: t)
  next
    case RoundRobin
    let ?ms = "rr_matches es 1"
    have t: "t = recomputeComplete (?e\<lparr>t_nextId := 1 + int (length ?ms), t_matchMap := load_matches ?ms []\<rparr>)"
      using assms es RoundRobin by (simp add: new_tournament_def Let_def rr_matches_def)
    have ok: "entries_ok fmt es None" by (simp add: entries_ok_def RoundRobin)
    have "fresh_batch es (t_nextId ?e) ?ms" unfolding empty_frame by (rule rr_fresh)
    from driver_inv_load [OF _ this ok] driver_inv_empty [OF es ok] show ?thesis
      by (simp add: t none) (simp add: empty_tournament_def)
  next
    case (Swiss n)
    let ?t = "?e\<lparr>t_swissEntries := Some (map SwissEntry es), t_swissRound := 0\<rparr>"
    have t: "t = recomputeComplete (pair_round ?t)"
      using assms es Swiss by (auto simp: new_tournament_def Let_def split: if_splits)
    have "entries_ok fmt es (Some (map SwissEntry es))" by (simp add: entries_ok_def Swiss)
    from driver_inv_empty [OF es this] have "driver_inv fmt es ?t" by (simp add: empty_tournament_def)
    then show ?thesis by (simp add: t driver_inv_pair_round)
  qed
qed

lemma reachable_inv: "reachable fmt es t \<Longrightarrow> driver_inv fmt es t"
  by (induction rule: reachable.induct)
    (auto intro: driver_inv_new driver_inv_record driver_inv_advance)

end
