(* ===== verification/Queries.thy ===== *)
theory Queries
  imports Driver
begin

text \<open>
  The queries of the driver on every reachable tournament: \<open>pending\<close>, \<open>standings\<close>,
  \<open>winners\<close>, and what \<open>record\<close> may not undo.
\<close>

section \<open>Lookup by id\<close>

lemma reachable_matches:
  assumes "reachable fmt es t"
  shows "m \<in> set (matches t) \<longleftrightarrow> map_of (t_matchMap t) (m_id m) = Some m"
proof -
  have k: "keyed (t_matchMap t)" using reachable_inv [OF assms] by (simp add: driver_inv_def)
  show ?thesis
  proof
    assume "m \<in> set (matches t)"
    then obtain key where "(key, m) \<in> set (t_matchMap t)" by (auto simp: matches_def)
    with k have "map_of (t_matchMap t) key = Some m" by (simp add: keyed_map_of)
    with keyed_id [OF k this] show "map_of (t_matchMap t) (m_id m) = Some m" by simp
  qed (force simp: matches_def dest: map_of_SomeD)
qed

lemma pending_iff:
  assumes "reachable fmt es t"
  shows "i \<in> set (pending t) \<longleftrightarrow> (\<exists>m. map_of (t_matchMap t) i = Some m \<and> isReady m)"
proof -
  have k: "keyed (t_matchMap t)" using reachable_inv [OF assms] by (simp add: driver_inv_def)
  show ?thesis
    using reachable_matches [OF assms] keyed_id [OF k]
    by (auto simp: pending_def image_iff)
qed

section \<open>Decided matches stay\<close>

definition outcome_of :: "tournament \<Rightarrow> match_id \<Rightarrow> outcome option" where
  "outcome_of t i = (case map_of (t_matchMap t) i of None \<Rightarrow> None | Some m \<Rightarrow> m_outcome m)"

text \<open>\<open>m'\<close> is \<open>m\<close> with more fields filled in.\<close>

definition refines :: "bracket_match \<Rightarrow> bracket_match \<Rightarrow> bool" where
  "refines m m' \<longleftrightarrow>
     (\<forall>x. m_outcome m = Some x \<longrightarrow> m_outcome m' = Some x) \<and>
     (\<forall>s e. matchSide m s = Some e \<longrightarrow> matchSide m' s = Some e)"

definition grows :: "match_map \<Rightarrow> match_map \<Rightarrow> bool" where
  "grows mm mm' \<longleftrightarrow>
     (\<forall>i m. map_of mm i = Some m \<longrightarrow> (\<exists>m'. map_of mm' i = Some m' \<and> refines m m'))"

lemma refines_refl [simp]: "refines m m"
  by (simp add: refines_def)

lemma refines_trans: "refines m m' \<Longrightarrow> refines m' m'' \<Longrightarrow> refines m m''"
  by (simp add: refines_def)

lemma grows_refl [simp]: "grows mm mm"
  by (simp add: grows_def)

lemma grows_trans: "grows mm mm' \<Longrightarrow> grows mm' mm'' \<Longrightarrow> grows mm mm''"
  unfolding grows_def by (meson refines_trans)

lemma grows_bye_pass: "grows mm (bye_pass mm)"
proof -
  have "refines m (auto_bye m)" for m
    by (auto simp: refines_def matchSide_def auto_bye_def split: side.split option.split)
  then show ?thesis by (simp add: grows_def map_of_bye_pass)
qed

lemma grows_updates: "grows mm (apply_updates (collect_updates mm) mm)"
  unfolding grows_def
proof (intro allI impI)
  fix i m assume m: "map_of mm i = Some m"
  obtain m' where m': "map_of (apply_updates (collect_updates mm) mm) i = Some m'" "m_outcome m' = m_outcome m"
    and keep: "\<And>s. (\<And>e. (i, s, e) \<notin> set (collect_updates mm)) \<Longrightarrow> matchSide m' s = matchSide m s"
    by (rule map_of_apply_updates_frame [OF m, of "collect_updates mm"]) blast
  have "matchSide m' s = Some e" if e: "matchSide m s = Some e" for s e
  proof -
    have "(i, s, e') \<notin> set (collect_updates mm)" for e'
    proof
      assume "(i, s, e') \<in> set (collect_updates mm)"
      then obtain m2 where "update_of mm m2 = Some (i, s, e')" by (auto simp: collect_updates_iff)
      then show False using m e by (auto simp: update_of_Some)
    qed
    with keep e show ?thesis by simp
  qed
  with m' show "\<exists>m'. map_of (apply_updates (collect_updates mm) mm) i = Some m' \<and> refines m m'"
    by (simp add: refines_def)
qed

lemma grows_advance: "grows mm (advanceSingleElim mm)"
  by (rule advance_invariant [where P = "grows mm"])
    (blast intro: grows_refl grows_trans grows_bye_pass grows_updates)+

lemma grows_set_outcome:
  "map_of mm i = Some m \<Longrightarrow> m_outcome m = None \<Longrightarrow> grows mm (AList.map_entry i (set_outcome out) mm)"
  by (auto simp: grows_def map_of_map_entry refines_def matchSide_def split: side.split)

lemma grows_load:
  assumes "keyed mm" "map m_id ms = ids_from (1 + int (length mm)) (length ms)"
  shows "grows mm (load_matches ms mm)"
  unfolding load_matches_keyed(1) [OF assms] by (auto simp: grows_def map_add_def)

lemma grows_pair_round:
  assumes "driver_inv fmt es t"
  shows "grows (t_matchMap t) (t_matchMap (pair_round t))"
proof (cases "t_swissEntries t")
  case (Some entries)
  have "fresh_batch (entry_entrants entries) (t_nextId t) (swiss_build (t_swissRound t) entries (t_nextId t))"
    by (rule swiss_build_fresh)
  with assms have "grows (t_matchMap t)
      (load_matches (swiss_build (t_swissRound t) entries (t_nextId t)) (t_matchMap t))"
    by (intro grows_load) (simp_all add: driver_inv_def fresh_batch_def)
  with Some show ?thesis by (simp add: pair_round_def swiss_build_def case_prod_unfold Let_def)
qed (simp add: pair_round_def)

lemma applySwiss_frame [simp]:
  "t_matchMap (applySwissResults t) = t_matchMap t" "t_swissRound (applySwissResults t) = t_swissRound t"
  "t_nextId (applySwissResults t) = t_nextId t" "t_format (applySwissResults t) = t_format t"
  by (simp_all add: applySwissResults_def split: option.split)

lemma grows_advance_driver:
  assumes "driver_inv fmt es t"
  shows "grows (t_matchMap t) (t_matchMap (advance t))"
proof (cases "t_format t")
  case (Swiss n)
  let ?t = "(applySwissResults t)\<lparr>t_swissRound := t_swissRound (applySwissResults t) + 1\<rparr>"
  have "driver_inv fmt es ?t" using driver_inv_apply_swiss [OF assms] by (simp add: driver_inv_def)
  from grows_pair_round [OF this] Swiss show ?thesis by (simp add: advance_def Let_def)
qed (simp_all add: advance_def grows_advance)

lemma grows_record:
  assumes "driver_inv fmt es t" "record_result i out t = Inr t'"
  shows "grows (t_matchMap t) (t_matchMap t')" "outcome_of t' i = Some out"
proof -
  let ?mm = "AList.map_entry i (set_outcome out) (t_matchMap t)"
  from assms(2) obtain m where m: "map_of (t_matchMap t) i = Some m" "isReady m"
    and t': "t' = advance (t\<lparr>t_matchMap := ?mm\<rparr>)" by (auto simp: record_result_Inr)
  have g1: "grows (t_matchMap t) ?mm"
    by (rule grows_set_outcome [OF m(1)]) (use m(2) in \<open>simp add: isReady_def\<close>)
  have "driver_inv fmt es (t\<lparr>t_matchMap := ?mm\<rparr>)"
    using assms(1) by (intro driver_inv_matchMap)
      (simp_all add: keeps driver_inv_def sides_within_set_outcome)
  from grows_advance_driver [OF this] have g2: "grows ?mm (t_matchMap t')" by (simp add: t')
  from g1 g2 show "grows (t_matchMap t) (t_matchMap t')" by (rule grows_trans)
  have "map_of ?mm i = Some (set_outcome out m)" by (simp add: map_of_map_entry m)
  with g2 show "outcome_of t' i = Some out" by (fastforce simp: grows_def refines_def outcome_of_def)
qed

section \<open>Standings\<close>

text \<open>What one match adds to the row of the entrant id \<open>x\<close>.\<close>

fun on_side :: "entrant_id \<Rightarrow> entrant option \<Rightarrow> nat" where
  "on_side x None = 0"
| "on_side x (Some e) = (if ent_id e = x then 1 else 0)"

definition played_out :: "bracket_match \<Rightarrow> outcome \<Rightarrow> bool" where
  "played_out m out \<longleftrightarrow> m_outcome m = Some out \<and> m_a m \<noteq> None \<and> m_b m \<noteq> None"

definition win_points :: "entrant_id \<Rightarrow> bracket_match \<Rightarrow> nat" where
  "win_points x m = (if played_out m OutA then on_side x (m_a m)
     else if played_out m OutB then on_side x (m_b m) else 0)"

definition loss_points :: "entrant_id \<Rightarrow> bracket_match \<Rightarrow> nat" where
  "loss_points x m = (if played_out m OutA then on_side x (m_b m)
     else if played_out m OutB then on_side x (m_a m) else 0)"

definition draw_points :: "entrant_id \<Rightarrow> bracket_match \<Rightarrow> nat" where
  "draw_points x m = (if played_out m OutDraw then on_side x (m_a m) + on_side x (m_b m) else 0)"

text \<open>The table after the matches \<open>ms\<close>: one row per id in \<open>ids\<close>, in that order.\<close>

definition table_ok :: "entrant_id list \<Rightarrow> bracket_match list \<Rightarrow> (entrant_id \<times> standing) list \<Rightarrow> bool" where
  "table_ok ids ms st \<longleftrightarrow>
     map fst st = ids \<and>
     (\<forall>x s. map_of st x = Some s \<longrightarrow> st_id s = x \<and>
        st_wins s = sum_list (map (win_points x) ms) \<and>
        st_losses s = sum_list (map (loss_points x) ms) \<and>
        st_draws s = sum_list (map (draw_points x) ms))"

lemma bump_ok: "x \<in> set (map fst st) \<Longrightarrow> bump_standing x f st = Inr (AList.map_entry x f st)"
  by (cases "map_of st x") (simp_all add: bump_standing_def map_of_eq_None_iff)

lemma tally_step:
  assumes "table_ok ids ms st" "ent_id ` sides_of m \<subseteq> set ids"
  shows "\<exists>st'. tally_match m st = Inr st' \<and> table_ok ids (ms @ [m]) st'"
proof -
  have keys: "map fst st = ids" using assms(1) by (simp add: table_ok_def)
  have skip: ?thesis if "tally_match m st = Inr st" "\<And>x. win_points x m = 0" "\<And>x. loss_points x m = 0"
    "\<And>x. draw_points x m = 0"
    using that assms(1) by (simp add: table_ok_def)
  show ?thesis
  proof (cases "\<exists>out a b. m_outcome m = Some out \<and> m_a m = Some a \<and> m_b m = Some b")
    case False
    then show ?thesis
      by (intro skip) (auto simp: tally_match_def win_points_def loss_points_def draw_points_def
          played_out_def split: option.splits)
  next
    case True
    then obtain out a b where m: "m_outcome m = Some out" "m_a m = Some a" "m_b m = Some b" by blast
    have mem: "ent_id a \<in> set ids" "ent_id b \<in> set ids" using assms(2) m by (auto simp: sides_of_def)
    have bump: "bind_result (bump_standing x f st) (bump_standing y g) =
        Inr (AList.map_entry y g (AList.map_entry x f st))" if "x \<in> set ids" "y \<in> set ids" for x y f g
      using that keys by (simp add: bump_ok)
    have ok: "table_ok ids (ms @ [m]) (AList.map_entry y g (AList.map_entry x f st))"
      if "\<And>z s. map_of st z = Some s \<Longrightarrow>
          (let s' = (if z = y then g else id) ((if z = x then f else id) s) in
           st_id s' = st_id s \<and> st_wins s' = st_wins s + win_points z m \<and>
           st_losses s' = st_losses s + loss_points z m \<and> st_draws s' = st_draws s + draw_points z m)"
      for x y f g
      using assms(1) that
      by (fastforce simp: table_ok_def map_of_map_entry Let_def split: if_splits)
    show ?thesis
    proof (cases out)
      case OutVoid
      then show ?thesis
        by (intro skip) (auto simp: tally_match_def m win_points_def loss_points_def draw_points_def
            played_out_def)
    qed (auto simp: tally_match_def m bump [OF mem] bump [OF mem(2,1)] Let_def win_points_def
        loss_points_def draw_points_def played_out_def inc_wins_def inc_losses_def inc_draws_def
        intro!: ok)
  qed
qed

lemma tally_all:
  assumes "table_ok ids ms0 st" "\<forall>m \<in> set ms. ent_id ` sides_of m \<subseteq> set ids"
  shows "\<exists>st'. fold_result tally_match ms st = Inr st' \<and> table_ok ids (ms0 @ ms) st'"
  using assms
proof (induction ms arbitrary: ms0 st)
  case (Cons m ms)
  from Cons.prems tally_step [OF Cons.prems(1), of m] obtain st1
    where 1: "tally_match m st = Inr st1" "table_ok ids (ms0 @ [m]) st1" by auto
  from Cons.IH [OF 1(2)] Cons.prems(2) 1(1) show ?case by simp
qed simp

lemma initial_table:
  assumes "distinct (map ent_id es)"
  shows "table_ok (map ent_id es) [] (initial_standings es)"
proof -
  have "initial_standings es = map (\<lambda>e. (ent_id e,
      \<lparr>st_id = ent_id e, st_place = None, st_wins = 0, st_draws = 0, st_losses = 0\<rparr>)) es"
    unfolding initial_standings_def using foldl_update_keys [of ent_id es "[]"] assms by simp
  then show ?thesis by (auto simp: table_ok_def comp_def dest!: map_of_SomeD)
qed

lemma idsUnique_iff: "idsUnique es \<longleftrightarrow> distinct (map ent_id es)"
proof -
  have "ids_unique_loop seen es \<longleftrightarrow> distinct (map ent_id es) \<and> seen \<inter> ent_id ` set es = {}" for seen
    by (induction es arbitrary: seen) auto
  then show ?thesis by (simp add: idsUnique_def)
qed

lemma standings_table:
  assumes "driver_inv fmt es t"
  obtains st where "standings t = Inr (sort_key standing_rank (map snd st))"
    "table_ok (map ent_id es) (map snd (t_matchMap t)) st"
proof -
  have es: "t_entrants t = es" "distinct (map ent_id es)"
    using assms by (simp_all add: driver_inv_def idsUnique_iff)
  have "\<forall>m \<in> set (map snd (t_matchMap t)). ent_id ` sides_of m \<subseteq> set (map ent_id es)"
    using assms by (force simp: driver_inv_def sides_within_def)
  from tally_all [OF initial_table [OF es(2)] this] obtain st where
    "fold_result tally_match (map snd (t_matchMap t)) (initial_standings es) = Inr st"
    "table_ok (map ent_id es) (map snd (t_matchMap t)) st" by auto
  with that show thesis by (simp add: standings_def es)
qed

lemma table_rows:
  assumes "table_ok ids ms st" "distinct ids"
  shows "map st_id (map snd st) = ids"
    and "s \<in> snd ` set st \<Longrightarrow> st_wins s = sum_list (map (win_points (st_id s)) ms) \<and>
      st_losses s = sum_list (map (loss_points (st_id s)) ms) \<and>
      st_draws s = sum_list (map (draw_points (st_id s)) ms)"
proof -
  have look: "map_of st x = Some s" if "(x, s) \<in> set st" for x s
    using assms that by (simp add: table_ok_def)
  have "\<forall>p \<in> set st. st_id (snd p) = fst p" using assms(1) look by (fastforce simp: table_ok_def)
  then have rows: "map st_id (map snd st) = map fst st" by simp
  show "map st_id (map snd st) = ids" unfolding rows using assms(1) by (simp add: table_ok_def)
  show "st_wins s = sum_list (map (win_points (st_id s)) ms) \<and>
      st_losses s = sum_list (map (loss_points (st_id s)) ms) \<and>
      st_draws s = sum_list (map (draw_points (st_id s)) ms)" if "s \<in> snd ` set st"
    using that assms(1) look by (fastforce simp: table_ok_def)
qed

text \<open>The order of the table, as the comparator of \<open>standings\<close> states it.\<close>

definition ranks_before :: "standing \<Rightarrow> standing \<Rightarrow> bool" where
  "ranks_before a b \<longleftrightarrow> st_wins b < st_wins a \<or>
     (st_wins a = st_wins b \<and> (st_losses a < st_losses b \<or>
       (st_losses a = st_losses b \<and> st_id a \<le> st_id b)))"

lemma ranks_before_rank: "standing_rank a \<le> standing_rank b \<longleftrightarrow> ranks_before a b"
  by (auto simp: standing_rank_def less_eq_standing_key_def ranks_before_def)

lemma sorted_ranks: "sorted_wrt ranks_before (sort_key standing_rank ss)"
proof -
  have "sorted_wrt (\<lambda>a b. standing_rank a \<le> standing_rank b) (sort_key standing_rank ss)"
    using sorted_sort_key [of standing_rank ss] by (simp add: sorted_map)
  then show ?thesis by (simp add: ranks_before_rank)
qed

end
