(* ===== verification/Cup.thy ===== *)
theory Cup
  imports Queries
begin

text \<open>
  Knock-out cups end to end: the driver of \<open>tournament.ts\<close> run on a list of results.
\<close>

definition cup_inv :: "nat \<Rightarrow> entrant list \<Rightarrow> nat \<Rightarrow> tournament \<Rightarrow> bool" where
  "cup_inv k es n t \<longleftrightarrow>
     t_format t = SingleElimination \<and> t_entrants t = es \<and> seated k es \<and>
     se_inv k es (t_matchMap t) \<and> settled (t_matchMap t) \<and>
     decided (t_matchMap t) + length es = 2 ^ k + n \<and> t_complete t = compute_complete t"

section \<open>Establishing and keeping the invariant\<close>

lemma new_cup:
  assumes "new_tournament SingleElimination es = Inr t"
  obtains k where "seated k es" "distinct (map ent_id es)"
    "t = recomputeComplete ((empty_tournament SingleElimination es)\<lparr>t_nextId := 2 ^ k,
       t_matchMap := advanceSingleElim (fresh_bracket k es)\<rparr>)"
proof -
  from assms have es: "2 \<le> length es" "idsUnique es" by (auto simp: new_tournament_def split: if_splits)
  from assms es obtain ms rounds where b: "buildSingleElim es 1 = Inr (ms, rounds)"
    and t: "t = recomputeComplete ((empty_tournament SingleElimination es)\<lparr>t_nextId := 1 + int (length ms),
      t_matchMap := advanceSingleElim (load_matches ms [])\<rparr>)"
    by (auto simp: new_tournament_def bind_result_eq_Inr Let_def)
  from b obtain k where k: "1 \<le> k" "k \<le> 30" "ms = se_matches (2 ^ k) es 1"
    "max (length es) 2 \<le> 2 ^ k" "2 ^ (k - 1) < max (length es) 2" by (rule buildSingleElim_Inr)
  have "single_elim_build es 1 = Inr ms" by (simp add: single_elim_build_def b)
  then have load: "load_matches ms [] = fresh_bracket k es"
    unfolding fresh_bracket_def k(3) [symmetric] by (rule single_elim.build_load)
  have "length ms = 2 ^ k - 1" unfolding k(3) using k(2) by (simp add: se_matches_nodes length_se_positions)
  then have "1 + int (length ms) = 2 ^ k" by (simp add: of_nat_diff)
  with that [of k] k es t load show thesis by (simp add: seated_def idsUnique_iff)
qed

lemma elimination_created:
  assumes "2 \<le> length es" "idsUnique es" "length es \<le> 2 ^ 30"
  shows "\<exists>t. new_tournament SingleElimination es = Inr t"
proof -
  have "int (length es) \<le> int (2 ^ 30)" using assms(3) by (simp only: of_nat_le_iff)
  then have "max (int (length es)) 2 \<le> 2 ^ 30" by simp
  then obtain k where "nextPow2 (max (int (length es)) 2) = Some (2 ^ k)" by (rule nextPow2_least) blast
  then have "\<exists>ms k. buildSingleElim es 1 = Inr (ms, k)" by (auto simp: buildSingleElim_def)
  with assms(1,2) show ?thesis by (auto simp: new_tournament_def empty_tournament_def)
qed

lemma cup_inv_new:
  assumes "new_tournament SingleElimination es = Inr t"
  obtains k where "cup_inv k es 0 t" "only_byes k (t_matchMap t)"
proof -
  from assms obtain k where k: "seated k es"
    "t = recomputeComplete ((empty_tournament SingleElimination es)\<lparr>t_nextId := 2 ^ k,
       t_matchMap := advanceSingleElim (fresh_bracket k es)\<rparr>)" by (rule new_cup)
  note init = initial_decided [OF k(1) refl]
  have "length es \<le> 2 ^ k" using k(1) by (simp add: seated_def)
  with init k(1) have "cup_inv k es 0 t" by (simp add: cup_inv_def k(2) compute_complete_def matches_def)
  with that init(4) k(2) show thesis by simp
qed

lemma cup_inv_record:
  assumes "cup_inv k es n t" "record_result i out t = Inr t'"
  shows "cup_inv k es (n + 1) t'"
    and "outcomes (t_matchMap t') = outcomes (AList.map_entry i (set_outcome out) (t_matchMap t))"
    and "out \<noteq> OutDraw"
proof -
  from assms obtain m where m: "map_of (t_matchMap t) i = Some m" "isReady m" "out \<noteq> OutDraw"
    and t': "t' = recomputeComplete (t\<lparr>t_matchMap := advanceSingleElim
      (AList.map_entry i (set_outcome out) (t_matchMap t))\<rparr>)"
    by (auto simp: record_result_Inr cup_inv_def advance_def)
  have inv: "seated k es" "se_inv k es (t_matchMap t)" "settled (t_matchMap t)"
    using assms(1) by (simp_all add: cup_inv_def)
  note step = se_record_step [OF inv m(1,2), of out]
  show "cup_inv k es (n + 1) t'"
    using step assms(1) by (simp add: cup_inv_def t' compute_complete_def matches_def)
  show "outcomes (t_matchMap t') = outcomes (AList.map_entry i (set_outcome out) (t_matchMap t))"
    using step(4) by (simp add: t')
  show "out \<noteq> OutDraw" by (rule m(3))
qed

lemma cup_inv_replay:
  assumes "cup_inv k es n t" "replay rs t = Inr t'"
  shows "cup_inv k es (n + length rs) t'"
  using assms
proof (induction rs arbitrary: t n)
  case (Cons r rs)
  obtain i out where r: "r = (i, out)" by force
  with Cons.prems(2) obtain t1 where t1: "record_result i out t = Inr t1" "replay rs t1 = Inr t'"
    by (auto simp: bind_result_eq_Inr)
  from Cons.IH [OF cup_inv_record(1) [OF Cons.prems(1) t1(1)] t1(2)] show ?case by simp
qed simp

section \<open>Completion\<close>

lemma final_valid: "1 \<le> k \<Longrightarrow> se_valid k (k - 1) 0"
  by (simp add: se_valid_def)

lemma no_target_iff: "se_valid k r i \<Longrightarrow> winner_target k s r i = None \<longleftrightarrow> r = k - 1 \<and> i = 0"
  by (auto simp: winner_target_def se_valid_def)

lemma matches_set: "set (matches t) = snd ` set (t_matchMap t)"
  by (simp add: matches_def)

lemma cup_matches:
  assumes "se_shape k (t_matchMap t)"
  shows "m \<in> set (matches t) \<longleftrightarrow> (\<exists>r i. se_valid k r i \<and> m = node (t_matchMap t) k r i)"
proof
  assume "m \<in> set (matches t)"
  then obtain key where "(key, m) \<in> set (t_matchMap t)" by (auto simp: matches_set)
  with assms show "\<exists>r i. se_valid k r i \<and> m = node (t_matchMap t) k r i"
    by (rule shape_entry) blast
next
  assume "\<exists>r i. se_valid k r i \<and> m = node (t_matchMap t) k r i"
  then obtain r i where "se_valid k r i" "m = node (t_matchMap t) k r i" by blast
  with assms show "m \<in> set (matches t)"
    unfolding matches_set by (metis map_of_SomeD shape_node(1) image_eqI snd_conv)
qed

lemma compute_complete_final:
  assumes "cup_inv k es n t"
  shows "compute_complete t \<longleftrightarrow> m_outcome (node (t_matchMap t) k (k - 1) 0) \<noteq> None"
proof -
  have inv: "se_shape k (t_matchMap t)" "1 \<le> k" "t_format t = SingleElimination"
    using assms by (simp_all add: cup_inv_def seated_def se_inv_def)
  have "compute_complete t \<longleftrightarrow> (\<exists>m \<in> set (matches t). m_winnerTo m = None \<and> m_outcome m \<noteq> None)"
    by (simp add: compute_complete_def inv(3) list_ex_iff)
  also have "\<dots> \<longleftrightarrow> m_outcome (node (t_matchMap t) k (k - 1) 0) \<noteq> None"
  proof
    assume "\<exists>m \<in> set (matches t). m_winnerTo m = None \<and> m_outcome m \<noteq> None"
    then obtain r i where ri: "se_valid k r i" "m_winnerTo (node (t_matchMap t) k r i) = None"
      "m_outcome (node (t_matchMap t) k r i) \<noteq> None" by (auto simp: cup_matches [OF inv(1)])
    then have "r = k - 1 \<and> i = 0" using shape_node(5) [OF inv(1)] no_target_iff by metis
    with ri(3) show "m_outcome (node (t_matchMap t) k (k - 1) 0) \<noteq> None" by simp
  next
    assume out: "m_outcome (node (t_matchMap t) k (k - 1) 0) \<noteq> None"
    have "m_winnerTo (node (t_matchMap t) k (k - 1) 0) = None"
      using shape_node(5) [OF inv(1) final_valid [OF inv(2)]] no_target_iff [OF final_valid [OF inv(2)]]
      by simp
    with out final_valid [OF inv(2)] show "\<exists>m \<in> set (matches t). m_winnerTo m = None \<and> m_outcome m \<noteq> None"
      using cup_matches [OF inv(1)] by blast
  qed
  finally show ?thesis .
qed

lemma cup_complete_count:
  assumes "cup_inv k es n t"
  shows "isComplete t \<longleftrightarrow> n + 1 = length es" "n + 1 \<le> length es"
proof -
  have inv: "se_inv k es (t_matchMap t)" "1 \<le> k" "decided (t_matchMap t) + length es = 2 ^ k + n"
    using assms by (simp_all add: cup_inv_def seated_def)
  have "isComplete t \<longleftrightarrow> decided (t_matchMap t) = 2 ^ k - 1"
    using assms compute_complete_final [OF assms] final_iff_all [OF inv(1,2)]
    by (simp add: isComplete_def cup_inv_def)
  moreover have one: "(1::nat) \<le> 2 ^ k" by simp
  ultimately show "isComplete t \<longleftrightarrow> n + 1 = length es" using inv(3) by linarith
  show "n + 1 \<le> length es"
    using decided_le [OF se_inv_shape [OF inv(1)]] inv(3) one by linarith
qed

section \<open>Progress\<close>

text \<open>Every decided match has a winner.\<close>

definition void_free :: "match_map \<Rightarrow> bool" where
  "void_free mm \<longleftrightarrow> (\<forall>x \<in> set (outcomes mm). x \<in> {None, Some OutA, Some OutB})"

lemma void_free_entry: "void_free mm \<Longrightarrow> (key, m) \<in> set mm \<Longrightarrow> m_outcome m \<in> {None, Some OutA, Some OutB}"
  by (force simp: void_free_def outcomes_def)

lemma void_free_set_outcome:
  "void_free mm \<Longrightarrow> out \<in> {OutA, OutB} \<Longrightarrow> void_free (AList.map_entry key (set_outcome out) mm)"
  by (induction mm) (auto simp: void_free_def outcomes_def)

lemma void_free_replay:
  assumes "cup_inv k es n t" "replay rs t = Inr t'" "void_free (t_matchMap t)" "OutVoid \<notin> snd ` set rs"
  shows "void_free (t_matchMap t')"
  using assms
proof (induction rs arbitrary: t n)
  case (Cons r rs)
  obtain i out where r: "r = (i, out)" by force
  with Cons.prems(2) obtain t1 where t1: "record_result i out t = Inr t1" "replay rs t1 = Inr t'"
    by (auto simp: bind_result_eq_Inr)
  note step = cup_inv_record [OF Cons.prems(1) t1(1)]
  have "out \<in> {OutA, OutB}" using step(3) Cons.prems(4) r by (cases out) auto
  then have "void_free (t_matchMap t1)"
    using void_free_set_outcome [OF Cons.prems(3)] step(2) by (simp add: void_free_def)
  with Cons.IH [OF step(1) t1(2)] Cons.prems(4) show ?case by simp
qed simp

lemma void_free_new:
  assumes "cup_inv k es 0 t" "only_byes k (t_matchMap t)"
  shows "void_free (t_matchMap t)"
proof -
  have sh: "se_shape k (t_matchMap t)" using assms by (simp add: cup_inv_def se_inv_def)
  have "\<forall>(key, m) \<in> set (t_matchMap t). m_outcome m \<in> {None, Some OutA, Some OutB}"
    unfolding shape_entries [OF sh] using assms(2) by (fastforce simp: only_byes_def)
  then show ?thesis by (auto simp: void_free_def outcomes_def)
qed

text \<open>A cup from the factory, after some results.\<close>

lemma cup_run:
  assumes "new_tournament SingleElimination es = Inr t0" "replay rs t0 = Inr t"
  obtains k where "cup_inv k es (length rs) t" "OutVoid \<notin> snd ` set rs \<Longrightarrow> void_free (t_matchMap t)"
proof -
  from assms(1) obtain k where k: "cup_inv k es 0 t0" "only_byes k (t_matchMap t0)" by (rule cup_inv_new)
  from cup_inv_replay [OF k(1) assms(2)] have "cup_inv k es (length rs) t" by simp
  with that void_free_replay [OF k(1) assms(2) void_free_new [OF k]] show thesis by blast
qed

lemma decided_winner:
  assumes "se_inv k es mm" "seated k es" "void_free mm" "se_valid k r i" "m_outcome (node mm k r i) \<noteq> None"
  shows "matchWinner (node mm k r i) \<noteq> None"
proof -
  note ok = se_inv_node [OF assms(1,4)] and sh = se_inv_shape [OF assms(1)]
  have "(nid k r i, node mm k r i) \<in> set mm" by (rule map_of_SomeD [OF shape_node(1) [OF sh assms(4)]])
  from void_free_entry [OF assms(3) this] assms(5)
  have out: "m_outcome (node mm k r i) = Some OutA \<or> m_outcome (node mm k r i) = Some OutB" by auto
  have "m_a (node mm k 0 i) \<noteq> None" if "r = 0"
    using node_okD(1) [OF ok] that seat_even [OF assms(2), of i] se_valid_slot [of k i] assms(4) by simp
  with node_okD(4) [OF ok assms(5)] out show ?thesis
    by (auto simp: matchWinner_def) (metis matchSide_simps option.distinct(1))+
qed

lemma open_ready:
  assumes "se_inv k es mm" "seated k es" "settled mm" "void_free mm"
    "se_valid k r i" "m_outcome (node mm k r i) = None"
    "\<And>r' i'. r' < r \<Longrightarrow> se_valid k r' i' \<Longrightarrow> m_outcome (node mm k r' i') \<noteq> None"
  shows "isReady (node mm k r i)"
proof -
  note ok = se_inv_node [OF assms(1,5)] and sh = se_inv_shape [OF assms(1)]
  have "matchSide (node mm k r i) s \<noteq> None" for s
  proof (cases r)
    case 0
    have mem: "(nid k r i, node mm k r i) \<in> set mm" by (rule map_of_SomeD [OF shape_node(1) [OF sh assms(5)]])
    have "\<not> isBye (node mm k r i)"
      using settled_bye [OF assms(3) mem] shape_node(3) [OF sh assms(5)] 0 assms(6) by auto
    moreover have "m_a (node mm k r i) \<noteq> None"
      using node_okD(1) [OF ok] 0 seat_even [OF assms(2), of i] se_valid_slot [of k i] assms(5) by simp
    ultimately show ?thesis by (cases s) (auto simp: isBye_def)
  next
    case (Suc r')
    let ?i = "2 * i + side_ix s"
    have v: "se_valid k r' ?i" using child_valid [OF assms(5), of s] Suc by simp
    have "m_outcome (node mm k r' ?i) \<noteq> None" using assms(7) [OF _ v] Suc by simp
    then obtain w where w: "matchWinner (node mm k r' ?i) = Some w"
      using decided_winner [OF assms(1,2,4) v] by blast
    have tgt: "m_winnerTo (node mm k r' ?i) = Some (nid k r i, s)"
      using shape_node(5) [OF sh v] assms(5) Suc by (simp add: winner_target_def side_of_child se_valid_def)
    show ?thesis
      by (rule settled_propagated [OF assms(3) map_of_SomeD [OF shape_node(1) [OF sh v]] w tgt
            shape_node(1) [OF sh assms(5)]])
  qed
  from this [of SideA] this [of SideB] assms(6) show ?thesis by (simp add: isReady_def)
qed

lemma cup_progress:
  assumes "cup_inv k es n t" "void_free (t_matchMap t)" "\<not> isComplete t"
  shows "pending t \<noteq> []"
proof -
  let ?mm = "t_matchMap t"
  have inv: "seated k es" "se_inv k es ?mm" "settled ?mm" "1 \<le> k"
    using assms(1) by (simp_all add: cup_inv_def seated_def)
  let ?open = "\<lambda>r. \<exists>i. se_valid k r i \<and> m_outcome (node ?mm k r i) = None"
  have "?open (k - 1)"
    using assms(1,3) compute_complete_final [OF assms(1)] final_valid [OF inv(4)]
    by (auto simp: isComplete_def cup_inv_def)
  then have ex: "?open (LEAST r. ?open r)" by (rule LeastI)
  then obtain i where i: "se_valid k (LEAST r. ?open r) i" "m_outcome (node ?mm k (LEAST r. ?open r) i) = None"
    by blast
  have "isReady (node ?mm k (LEAST r. ?open r) i)"
    by (rule open_ready [OF inv(2,1,3) assms(2) i]) (metis (mono_tags, lifting) not_less_Least)
  moreover have "node ?mm k (LEAST r. ?open r) i \<in> set (matches t)"
    using i(1) cup_matches [OF se_inv_shape [OF inv(2)]] by blast
  ultimately show ?thesis by (auto simp: pending_def filter_empty_conv)
qed

section \<open>The way of one entrant through the bracket\<close>

lemma div_pow_Suc: "x div 2 ^ Suc r = (x::nat) div 2 ^ r div 2"
  by (metis div_mult2_eq power_Suc2)

lemma matchWinner_side: "matchWinner m = Some e \<Longrightarrow> \<exists>s. matchSide m s = Some e"
  by (auto simp: matchWinner_def split: option.splits)

text \<open>Who stands on a side started in a slot below it and won every match on the way.\<close>

lemma way_up:
  assumes "se_inv k es mm" "se_valid k r i" "matchSide (node mm k r i) s = Some e"
  obtains x where "x < 2 ^ k" "seat k es x = Some e" "x div 2 ^ r = 2 * i + side_ix s"
    "\<And>r'. r' < r \<Longrightarrow> matchWinner (node mm k r' (x div 2 ^ Suc r')) = Some e"
  using assms(2,3)
proof (induction r arbitrary: i s thesis)
  case 0
  let ?x = "2 * i + side_ix s"
  have "matchSide (node mm k 0 i) s = seat k es ?x"
    using node_okD(1,2) [OF se_inv_node [OF assms(1) "0.prems"(2)]]
    by (cases s) (simp_all add: side_ix_def)
  moreover have "?x < 2 ^ k" using se_valid_slot [OF "0.prems"(2)] side_ix_less [of s] by linarith
  ultimately show ?case using "0.prems"(1) [of ?x] "0.prems"(3) by simp
next
  case (Suc r)
  let ?i = "2 * i + side_ix s"
  have v: "se_valid k r ?i" using child_valid [OF Suc.prems(2), of s] by simp
  have w: "matchWinner (node mm k r ?i) = Some e"
    using node_okD(3) [OF se_inv_node [OF assms(1) Suc.prems(2)]] Suc.prems(3) by fastforce
  then obtain s' where s': "matchSide (node mm k r ?i) s' = Some e" using matchWinner_side by blast
  show ?case
  proof (rule Suc.IH [OF _ v s'])
    fix x
    assume x: "x < 2 ^ k" "seat k es x = Some e" "x div 2 ^ r = 2 * ?i + side_ix s'"
      and won: "\<And>r'. r' < r \<Longrightarrow> matchWinner (node mm k r' (x div 2 ^ Suc r')) = Some e"
    have top: "x div 2 ^ Suc r = ?i" using x(3) side_ix_less [of s'] by (simp add: div_pow_Suc del: power_Suc)
    show thesis
    proof (rule Suc.prems(1) [OF x(1,2) top])
      fix r' assume "r' < Suc r"
      then show "matchWinner (node mm k r' (x div 2 ^ Suc r')) = Some e"
        using won [of r'] w top by (cases "r' = r") simp_all
    qed
  qed
qed

lemma seat_unique:
  assumes "k \<le> 32" "distinct es" "x < 2 ^ k" "y < 2 ^ k" "seat k es x = Some e" "seat k es y = Some e"
  shows "x = y"
proof -
  have "bitReverse x k = bitReverse y k"
    using assms(2,5,6) by (auto simp: seat_def Let_def nth_eq_iff_index_eq split: if_splits)
  then show ?thesis using assms(1,3,4) by (metis bitReverse_bitReverse)
qed

lemma ids_distinct: "distinct (map ent_id es) \<Longrightarrow> distinct es"
  by (simp add: distinct_map)

definition matchLoser :: "bracket_match \<Rightarrow> entrant option" where
  "matchLoser m =
     (case m_outcome m of None \<Rightarrow> None
      | Some out \<Rightarrow> (case loserSideOf out of None \<Rightarrow> None | Some l \<Rightarrow> matchSide m l))"

lemma matchLoser_side:
  "matchLoser m = Some e \<Longrightarrow> matchWinner m = Some w \<Longrightarrow>
     \<exists>s. matchSide m s = Some e \<and> matchSide m (other_side s) = Some w"
  by (auto simp: matchLoser_def matchWinner_def other_side_def loser_is_other_winner
      split: option.splits side.splits)

lemma sides_differ:
  assumes "se_inv k es mm" "seated k es" "distinct es" "se_valid k r i"
    "matchSide (node mm k r i) s = Some e" "matchSide (node mm k r i) s' = Some e"
  shows "s = s'"
proof -
  obtain x where x: "x < 2 ^ k" "seat k es x = Some e" "x div 2 ^ r = 2 * i + side_ix s"
    using assms(1,4,5) by (rule way_up)
  obtain y where y: "y < 2 ^ k" "seat k es y = Some e" "y div 2 ^ r = 2 * i + side_ix s'"
    using assms(1,4,6) by (rule way_up)
  have "k \<le> 32" using assms(2) by (simp add: seated_def)
  with seat_unique [OF this assms(3) x(1) y(1) x(2) y(2)] x(3) y(3) have "side_ix s = side_ix s'" by simp
  then show ?thesis by (cases s; cases s') (simp_all add: side_ix_def)
qed

lemma winner_not_loser:
  assumes "se_inv k es mm" "seated k es" "distinct es" "se_valid k r i"
    "matchLoser (node mm k r i) = Some e"
  shows "matchWinner (node mm k r i) \<noteq> Some e"
proof
  assume "matchWinner (node mm k r i) = Some e"
  with assms(5) obtain s where "matchSide (node mm k r i) s = Some e"
    "matchSide (node mm k r i) (other_side s) = Some e" using matchLoser_side by blast
  then have "s = other_side s" by (rule sides_differ [OF assms(1-4)])
  then show False by (cases s) (simp_all add: other_side_def)
qed

lemma loser_slot:
  assumes "se_inv k es mm" "se_valid k r i" "matchLoser (node mm k r i) = Some e"
  obtains x where "x < 2 ^ k" "seat k es x = Some e" "x div 2 ^ Suc r = i"
    "\<And>r'. r' < r \<Longrightarrow> matchWinner (node mm k r' (x div 2 ^ Suc r')) = Some e"
proof -
  obtain s where "matchSide (node mm k r i) s = Some e"
    using assms(3) by (auto simp: matchLoser_def split: option.splits)
  with assms(1,2) obtain x where x: "x < 2 ^ k" "seat k es x = Some e" "x div 2 ^ r = 2 * i + side_ix s"
    "\<And>r'. r' < r \<Longrightarrow> matchWinner (node mm k r' (x div 2 ^ Suc r')) = Some e" by (rule way_up) blast
  have "x div 2 ^ Suc r = i" using x(3) side_ix_less [of s] by (simp add: div_pow_Suc del: power_Suc)
  with that x show thesis by blast
qed

lemma lose_once:
  assumes "se_inv k es mm" "seated k es" "distinct es"
    "se_valid k r i" "matchLoser (node mm k r i) = Some e"
    "se_valid k r' i'" "matchLoser (node mm k r' i') = Some e"
  shows "r = r' \<and> i = i'"
proof -
  have k: "k \<le> 32" using assms(2) by (simp add: seated_def)
  obtain x where x: "x < 2 ^ k" "seat k es x = Some e" "x div 2 ^ Suc r = i"
    "\<And>q. q < r \<Longrightarrow> matchWinner (node mm k q (x div 2 ^ Suc q)) = Some e"
    using assms(1,4,5) by (rule loser_slot) blast
  obtain y where y: "y < 2 ^ k" "seat k es y = Some e" "y div 2 ^ Suc r' = i'"
    "\<And>q. q < r' \<Longrightarrow> matchWinner (node mm k q (y div 2 ^ Suc q)) = Some e"
    using assms(1,6,7) by (rule loser_slot) blast
  have "x = y" by (rule seat_unique [OF k assms(3) x(1) y(1) x(2) y(2)])
  then have "\<not> r < r'" "\<not> r' < r"
    using winner_not_loser [OF assms(1-5)] winner_not_loser [OF assms(1-3) assms(6,7)] x y by metis+
  with x(3) y(3) \<open>x = y\<close> show ?thesis by simp
qed

lemma slot_valid:
  assumes "x < 2 ^ k" "q < k"
  shows "se_valid k q (x div 2 ^ Suc q)"
proof -
  have "k = k - 1 - q + Suc q" using assms(2) by simp
  then have "(2::nat) ^ k = 2 ^ (k - 1 - q) * 2 ^ Suc q" by (metis power_add)
  with assms(1) have "x div 2 ^ Suc q < 2 ^ (k - 1 - q)" by (metis less_mult_imp_div_less)
  with assms(2) show ?thesis by (simp add: se_valid_def)
qed

text \<open>In a finished cup every entrant climbs until the first match that is not won.\<close>

lemma climb:
  assumes "se_inv k es mm" "seated k es" "settled mm" "x < 2 ^ k" "seat k es x = Some e" "r < k"
    "\<And>q. q < r \<Longrightarrow> matchWinner (node mm k q (x div 2 ^ Suc q)) = Some e"
  shows "matchSide (node mm k r (x div 2 ^ Suc r)) (side_of (x div 2 ^ r)) = Some e"
proof -
  note valid = slot_valid [OF assms(4)]
  note ok = se_inv_node [OF assms(1) valid [OF assms(6)]] and sh = se_inv_shape [OF assms(1)]
  show ?thesis
  proof (cases r)
    case 0
    have "matchSide (node mm k 0 (x div 2)) (side_of x) = seat k es (2 * (x div 2) + side_ix (side_of x))"
      using node_okD(1,2) [OF ok] 0 by (cases "side_of x") (simp_all add: side_ix_def)
    then show ?thesis using 0 assms(5) side_ix_side_of [of x] by simp
  next
    case (Suc q)
    let ?y = "x div 2 ^ Suc q"
    have up: "x div 2 ^ Suc r = ?y div 2" using Suc by (simp add: div_pow_Suc del: power_Suc)
    have v: "se_valid k q ?y" using assms(6) Suc by (intro valid) simp
    have w: "matchWinner (node mm k q ?y) = Some e" using assms(7) [of q] Suc by simp
    have tgt: "m_winnerTo (node mm k q ?y) = Some (nid k r (x div 2 ^ Suc r), side_of ?y)"
      using shape_node(5) [OF sh v] assms(6) Suc unfolding up by (simp add: winner_target_def)
    obtain e' where e': "matchSide (node mm k r (x div 2 ^ Suc r)) (side_of ?y) = Some e'"
      using settled_propagated [OF assms(3) map_of_SomeD [OF shape_node(1) [OF sh v]] w tgt
          shape_node(1) [OF sh valid [OF assms(6)]]] by blast
    have "matchWinner (node mm k (r - 1) (2 * (x div 2 ^ Suc r) + side_ix (side_of ?y))) = Some e'"
      using node_okD(3) [OF ok] e' Suc by fastforce
    then have "matchWinner (node mm k q ?y) = Some e'"
      unfolding up side_ix_side_of using Suc by simp
    with w e' Suc show ?thesis by simp
  qed
qed

lemma seat_exists:
  assumes "seated k es" "e \<in> set es"
  obtains x where "x < 2 ^ k" "seat k es x = Some e"
proof -
  have k: "k \<le> 32" "length es \<le> 2 ^ k" using assms(1) by (simp_all add: seated_def)
  obtain j where j: "j < length es" "sort_key ent_seed es ! j = e"
    using assms(2) by (metis in_set_conv_nth length_sort set_sort)
  have "bitReverse j k < 2 ^ k" "bitReverse (bitReverse j k) k = j"
    using k j(1) by (simp_all add: bitReverse_less bitReverse_bitReverse)
  with that [of "bitReverse j k"] j show thesis by (simp add: seat_def Let_def)
qed

lemma side_wins_or_loses:
  assumes "matchSide m s = Some e" "matchWinner m = Some w" "w \<noteq> e"
  shows "matchLoser m = Some e"
proof -
  from assms(2) obtain out ws where o: "m_outcome m = Some out" "outcomeWinner out = Some ws"
    "matchSide m ws = Some w" by (auto simp: matchWinner_def split: option.splits)
  with assms(1,3) have "ws \<noteq> s" by auto
  then have "other_side ws = s" by (cases ws; cases s) (simp_all add: other_side_def)
  with o assms(1) show ?thesis by (simp add: matchLoser_def loser_is_other_winner)
qed

lemma fate:
  assumes "se_inv k es mm" "seated k es" "settled mm" "void_free mm" "e \<in> set es"
    and all: "\<And>r i. se_valid k r i \<Longrightarrow> m_outcome (node mm k r i) \<noteq> None"
  shows "matchWinner (node mm k (k - 1) 0) = Some e \<or>
    (\<exists>r i. se_valid k r i \<and> matchLoser (node mm k r i) = Some e)"
proof -
  obtain x where x: "x < 2 ^ k" "seat k es x = Some e" using assms(2,5) by (rule seat_exists)
  let ?won = "\<lambda>q. matchWinner (node mm k q (x div 2 ^ Suc q)) = Some e"
  show ?thesis
  proof (cases "\<forall>q < k. ?won q")
    case True
    have k: "k - 1 < k" using assms(2) by (simp add: seated_def)
    then have "Suc (k - 1) = k" by simp
    with True k x(1) have "?won (k - 1)" "x div 2 ^ Suc (k - 1) = 0" by (blast, simp)
    then show ?thesis by simp
  next
    case False
    then have ex: "\<exists>q. q < k \<and> \<not> ?won q" by blast
    define r where "r = (LEAST q. q < k \<and> \<not> ?won q)"
    from LeastI_ex [OF ex] have r: "r < k" "\<not> ?won r" by (simp_all add: r_def)
    have below: "?won q" if "q < r" for q
      using not_less_Least [of q "\<lambda>q. q < k \<and> \<not> ?won q"] that r(1) by (auto simp: r_def)
    note v = slot_valid [OF x(1) r(1)]
    obtain w where w: "matchWinner (node mm k r (x div 2 ^ Suc r)) = Some w"
      using decided_winner [OF assms(1,2,4) v all [OF v]] by blast
    have "matchLoser (node mm k r (x div 2 ^ Suc r)) = Some e"
      by (rule side_wins_or_loses [OF climb [OF assms(1-3) x r(1) below] w]) (use r(2) w in auto)
    with v show ?thesis by blast
  qed
qed

section \<open>Champion and placing\<close>

lemma champion_final:
  assumes "cup_inv k es n t"
  shows "champion t = map_option ent_id (matchWinner (node (t_matchMap t) k (k - 1) 0))"
proof -
  let ?P = "\<lambda>m. m_winnerTo m = None \<and> m_outcome m \<noteq> None"
  let ?final = "node (t_matchMap t) k (k - 1) 0"
  have sh: "se_shape k (t_matchMap t)" and k: "1 \<le> k"
    using assms by (simp_all add: cup_inv_def se_inv_def seated_def)
  have only: "m = ?final" if "m \<in> set (matches t)" "m_winnerTo m = None" for m
  proof -
    from that(1) obtain r i where ri: "se_valid k r i" "m = node (t_matchMap t) k r i"
      using cup_matches [OF sh] by blast
    with that(2) shape_node(5) [OF sh ri(1)] no_target_iff [OF ri(1)] show ?thesis by simp
  qed
  show ?thesis
  proof (cases "m_outcome ?final")
    case None
    then have "\<not> ?P m" if "m \<in> set (matches t)" for m using only [OF that] None by (cases "m_winnerTo m") auto
    then have "List.find ?P (matches t) = None" by (simp add: find_None_iff)
    with None show ?thesis by (simp add: champion_def matchWinner_def)
  next
    case (Some out)
    have "?final \<in> set (matches t)" using final_valid [OF k] cup_matches [OF sh] by blast
    moreover have "m_winnerTo ?final = None"
      using shape_node(5) [OF sh final_valid [OF k]] no_target_iff [OF final_valid [OF k]] by simp
    ultimately have "List.find ?P (matches t) \<noteq> None" using Some by (auto simp: find_None_iff)
    then obtain m where m: "List.find ?P (matches t) = Some m" by blast
    then have "m = ?final" using find_Some_iff_hd [OF m] only by blast
    with m Some show ?thesis by (auto simp: champion_def matchWinner_def split: option.split)
  qed
qed

lemma cup_champion:
  assumes "cup_inv k es n t" "void_free (t_matchMap t)" "isComplete t"
  obtains c where "matchWinner (node (t_matchMap t) k (k - 1) 0) = Some c" "champion t = Some (ent_id c)"
    "c \<in> set es"
proof -
  have inv: "se_inv k es (t_matchMap t)" "seated k es" "1 \<le> k"
    using assms(1) by (simp_all add: cup_inv_def seated_def)
  have out: "m_outcome (node (t_matchMap t) k (k - 1) 0) \<noteq> None"
    using assms(1,3) compute_complete_final [OF assms(1)] by (simp add: isComplete_def cup_inv_def)
  obtain c where c: "matchWinner (node (t_matchMap t) k (k - 1) 0) = Some c"
    using decided_winner [OF inv(1,2) assms(2) final_valid [OF inv(3)] out] by blast
  then obtain s where "matchSide (node (t_matchMap t) k (k - 1) 0) s = Some c"
    using matchWinner_side by blast
  then have "c \<in> set es" using way_up [OF inv(1) final_valid [OF inv(3)]] seat_in by metis
  with that c champion_final [OF assms(1)] show thesis by simp
qed

lemma note_loss_loser:
  "note_loss er m =
     (case matchLoser m of None \<Rightarrow> er | Some l \<Rightarrow> AList.update (ent_id l) (Some (m_round m)) er)"
  by (simp add: note_loss_def matchLoser_def split: option.split)

lemma foldl_note_loss:
  assumes "\<And>m l. m \<in> set ms \<Longrightarrow> matchLoser m = Some l \<Longrightarrow> ent_id l \<in> set (map fst er)"
  shows "map fst (foldl note_loss er ms) = map fst er"
    and "m \<in> set ms \<Longrightarrow> matchLoser m = Some l \<Longrightarrow>
      (\<And>m' l'. m' \<in> set ms \<Longrightarrow> matchLoser m' = Some l' \<Longrightarrow> ent_id l' = ent_id l \<Longrightarrow> m_round m' = m_round m) \<Longrightarrow>
      map_of (foldl note_loss er ms) (ent_id l) = Some (Some (m_round m))"
proof -
  have step: "map fst (note_loss er m) = map fst er" if "\<And>l. matchLoser m = Some l \<Longrightarrow> ent_id l \<in> set (map fst er)" for er m
    using that by (auto simp: note_loss_loser update_keys split: option.split)
  show keys: "map fst (foldl note_loss er ms) = map fst er"
    using assms
  proof (induction ms arbitrary: er)
    case (Cons m ms)
    have eq: "map fst (note_loss er m) = map fst er" by (rule step) (rule Cons.prems, simp_all)
    have "map fst (foldl note_loss (note_loss er m) ms) = map fst (note_loss er m)"
      by (rule Cons.IH) (unfold eq, rule Cons.prems, simp_all)
    with eq show ?case by simp
  qed simp
  show "map_of (foldl note_loss er ms) (ent_id l) = Some (Some (m_round m))"
    if "m \<in> set ms" "matchLoser m = Some l"
      "\<And>m' l'. m' \<in> set ms \<Longrightarrow> matchLoser m' = Some l' \<Longrightarrow> ent_id l' = ent_id l \<Longrightarrow> m_round m' = m_round m"
    using that
  proof (induction ms rule: rev_induct)
    case (snoc m1 ms)
    let ?er = "foldl note_loss er ms"
    show ?case
    proof (cases "\<exists>l'. matchLoser m1 = Some l' \<and> ent_id l' = ent_id l")
      case True
      then obtain l' where l': "matchLoser m1 = Some l'" "ent_id l' = ent_id l" by blast
      have "m_round m1 = m_round m" by (rule snoc.prems(3) [OF _ l']) simp
      with l' show ?thesis by (simp add: note_loss_loser update_conv')
    next
      case False
      then have "m \<in> set ms" using snoc.prems(1,2) by auto
      then have "map_of ?er (ent_id l) = Some (Some (m_round m))"
        by (rule snoc.IH [OF _ snoc.prems(2)]) (rule snoc.prems(3), simp)
      with False show ?thesis
        by (cases "matchLoser m1") (simp_all add: note_loss_loser [of _ m1] update_conv')
    qed
  qed simp
qed

lemma cup_losers:
  assumes "cup_inv k es n t" "m \<in> set (map snd (t_matchMap t))" "matchLoser m = Some l"
  obtains r i where "se_valid k r i" "m = node (t_matchMap t) k r i" "m_round m = r" "l \<in> set es"
proof -
  have inv: "se_inv k es (t_matchMap t)" "se_shape k (t_matchMap t)"
    using assms(1) by (simp_all add: cup_inv_def se_inv_def)
  from assms(2) obtain key where "(key, m) \<in> set (t_matchMap t)" by auto
  with inv(2) obtain r i where ri: "se_valid k r i" "m = node (t_matchMap t) k r i" by (rule shape_entry)
  obtain x where "seat k es x = Some l" using loser_slot [OF inv(1) ri(1)] assms(3) ri(2) by metis
  with that ri shape_node(3) [OF inv(2) ri(1)] seat_in show thesis by simp
qed

lemma elim_rounds_keys:
  assumes "cup_inv k es n t" "distinct (map ent_id es)"
  shows "map fst (elim_rounds t) = map ent_id es"
    and "m \<in> set (map snd (t_matchMap t)) \<Longrightarrow> matchLoser m = Some l \<Longrightarrow>
      map_of (elim_rounds t) (ent_id l) = Some (Some (m_round m))"
proof -
  have es: "t_entrants t = es" using assms(1) by (simp add: cup_inv_def)
  have init: "foldl (\<lambda>er e. AList.update (ent_id e) None er) [] es = map (\<lambda>e. (ent_id e, None)) es"
    using foldl_update_keys [of ent_id es "[]" "\<lambda>_. None"] assms(2) by simp
  have inn: "ent_id l \<in> set (map fst (map (\<lambda>e. (ent_id e, None)) es))"
    if "m \<in> set (map snd (t_matchMap t))" "matchLoser m = Some l" for m l
    using cup_losers [OF assms(1) that] by (metis (no_types, lifting) image_eqI list.set_map map_map fst_conv comp_apply map_eq_conv)
  show "map fst (elim_rounds t) = map ent_id es"
    unfolding elim_rounds_def es init
    by (subst foldl_note_loss(1)) (erule (1) inn, simp add: comp_def)
  show "map_of (elim_rounds t) (ent_id l) = Some (Some (m_round m))"
    if m: "m \<in> set (map snd (t_matchMap t))" and l: "matchLoser m = Some l"
    unfolding elim_rounds_def es init
  proof (rule foldl_note_loss(2) [OF inn m l])
    fix m' l' assume m': "m' \<in> set (map snd (t_matchMap t))" "matchLoser m' = Some l'" "ent_id l' = ent_id l"
    have inv: "se_inv k es (t_matchMap t)" "seated k es" using assms(1) by (simp_all add: cup_inv_def)
    obtain r i where 1: "se_valid k r i" "m = node (t_matchMap t) k r i" "m_round m = r" "l \<in> set es"
      using assms(1) m l by (rule cup_losers)
    obtain r' i' where 2: "se_valid k r' i'" "m' = node (t_matchMap t) k r' i'" "m_round m' = r'" "l' \<in> set es"
      using assms(1) m'(1,2) by (rule cup_losers)
    have "l' = l" using assms(2) m'(3) 1(4) 2(4) by (meson distinct_map inj_onD)
    then have "r = r' \<and> i = i'"
      using lose_once [OF inv ids_distinct [OF assms(2)] 1(1) _ 2(1)] 1(2) 2(2) l m'(2) by simp
    with 1(3) 2(3) show "m_round m' = m_round m" by simp
  qed
qed

lemma cup_order_perm:
  assumes "cup_inv k es n t" "distinct (map ent_id es)" "champion t = Some c" "c \<in> ent_id ` set es"
  shows "mset (singleElimOrder t) = mset (map ent_id es)" "hd (singleElimOrder t) = c"
proof -
  let ?ids = "map ent_id es"
  have order: "singleElimOrder t = c # sort_key (elim_rank t) (filter (\<lambda>x. x \<noteq> c) ?ids)"
    by (simp add: singleElimOrder_def assms(3) elim_rounds_keys(1) [OF assms(1,2)] Let_def)
  show "hd (singleElimOrder t) = c" by (simp add: order)
  have "mset (filter (\<lambda>x. x \<noteq> c) ?ids) = mset ?ids - {#c#}"
  proof -
    have "filter (\<lambda>x. x \<noteq> c) ?ids = remove1 c ?ids"
      using assms(2) by (simp add: distinct_remove1_removeAll removeAll_filter_not_eq eq_commute [of c])
    then show ?thesis by simp
  qed
  then show "mset (singleElimOrder t) = mset ?ids"
    using assms(4) by (simp add: order)
qed

lemma cup_order_rank:
  assumes "cup_inv k es n t" "distinct (map ent_id es)" "champion t = Some c"
    and "0 < p" "p < q" "q < length (singleElimOrder t)"
    and "m \<in> set (matches t)" "matchLoser m = Some l" "singleElimOrder t ! p = ent_id l"
    and "m' \<in> set (matches t)" "matchLoser m' = Some l'" "singleElimOrder t ! q = ent_id l'"
  shows "m_round m' \<le> m_round m"
proof -
  let ?rest = "sort_key (elim_rank t) (filter (\<lambda>x. x \<noteq> c) (map ent_id es))"
  have order: "singleElimOrder t = c # ?rest"
    by (simp add: singleElimOrder_def assms(3) elim_rounds_keys(1) [OF assms(1,2)] Let_def)
  have "sorted (map (elim_rank t) ?rest)" by simp
  then have "elim_rank t (?rest ! (p - 1)) \<le> elim_rank t (?rest ! (q - 1))"
    using assms(4-6) sorted_nth_mono [of "map (elim_rank t) ?rest" "p - 1" "q - 1"]
    by (simp add: order)
  then have "elim_rank t (ent_id l) \<le> elim_rank t (ent_id l')"
    using assms(4-6,9,12) by (simp add: order nth_Cons')
  moreover have "map_of (elim_rounds t) (ent_id l) = Some (Some (m_round m))"
    "map_of (elim_rounds t) (ent_id l') = Some (Some (m_round m'))"
    using elim_rounds_keys(2) [OF assms(1,2)] assms(7,8,10,11) by (simp_all add: matches_set)
  ultimately show ?thesis by (auto simp: elim_rank_def less_eq_elim_key_def split: if_splits)
qed

section \<open>The bracket is a function of the recorded outcomes\<close>

definition outcome_at :: "match_map \<Rightarrow> match_id \<Rightarrow> outcome option" where
  "outcome_at mm i = (case map_of mm i of None \<Rightarrow> None | Some m \<Rightarrow> m_outcome m)"

lemma outcome_at_zip: "map fst mm = map fst mm' \<Longrightarrow> outcomes mm = outcomes mm' \<Longrightarrow> outcome_at mm = outcome_at mm'"
proof (induction mm mm' rule: list_induct2')
  case (4 p mm q mm')
  then have "outcome_at mm = outcome_at mm'" by (simp add: outcomes_def)
  with 4 show ?case by (cases p; cases q) (auto simp: outcome_at_def fun_eq_iff outcomes_def)
qed (simp_all add: outcomes_def)

lemma outcome_at_set_outcome:
  "map_of mm i = Some m \<Longrightarrow>
     outcome_at (AList.map_entry i (set_outcome out) mm) = (outcome_at mm)(i \<mapsto> out)"
  by (auto simp: outcome_at_def map_of_map_entry fun_eq_iff split: option.split)

lemma bracket_determined:
  assumes "se_inv k es mm" "settled mm" "se_inv k es mm'" "settled mm'" "outcome_at mm = outcome_at mm'"
  shows "mm = mm'"
proof -
  note sh = se_inv_shape [OF assms(1)] se_inv_shape [OF assms(3)]
  have out: "m_outcome (node mm k r i) = m_outcome (node mm' k r i)" if v: "se_valid k r i" for r i
    using fun_cong [OF assms(5), of "nid k r i"] shape_node(1) [OF sh(1) v] shape_node(1) [OF sh(2) v]
    by (simp add: outcome_at_def)
  have passed: "matchSide (node mm2 k (Suc r) i) s = Some e"
    if inv: "se_inv k es mm2" "settled mm2" and v: "se_valid k (Suc r) i"
      and w: "matchWinner (node mm2 k r (2 * i + side_ix s)) = Some e" for mm2 r i s e
  proof -
    note sh = se_inv_shape [OF inv(1)]
    have v': "se_valid k r (2 * i + side_ix s)" using child_valid [OF v, of s] by simp
    have tgt: "m_winnerTo (node mm2 k r (2 * i + side_ix s)) = Some (nid k (Suc r) i, s)"
      using shape_node(5) [OF sh v'] v by (simp add: winner_target_def side_of_child se_valid_def)
    obtain e' where e': "matchSide (node mm2 k (Suc r) i) s = Some e'"
      using settled_propagated [OF inv(2) map_of_SomeD [OF shape_node(1) [OF sh v']] w tgt
          shape_node(1) [OF sh v]] by blast
    with node_okD(3) [OF se_inv_node [OF inv(1) v]] w show ?thesis by fastforce
  qed
  have nodes: "node mm k r i = node mm' k r i" if "se_valid k r i" for r i
    using that
  proof (induction r arbitrary: i)
    case 0
    have "m_a (node mm k 0 i) = m_a (node mm' k 0 i)" "m_b (node mm k 0 i) = m_b (node mm' k 0 i)"
      using node_okD(1,2) [OF se_inv_node [OF assms(1) 0]] node_okD(1,2) [OF se_inv_node [OF assms(3) 0]]
      by simp_all
    then show ?case
      using shape_node(2-5) [OF sh(1) 0] shape_node(2-5) [OF sh(2) 0] out [OF 0]
      by (intro bracket_match.equality) simp_all
  next
    case (Suc r)
    have feeder: "matchWinner (node mm k r (2 * i + side_ix s)) =
        matchWinner (node mm' k r (2 * i + side_ix s))" for s
      using Suc.IH child_valid [OF Suc.prems, of s] by simp
    have side: "matchSide (node mm1 k (Suc r) i) s = matchWinner (node mm1 k r (2 * i + side_ix s))"
      if "se_inv k es mm1" "settled mm1" for mm1 s
      using node_okD(3) [OF se_inv_node [OF that(1) Suc.prems], of s] passed [OF that Suc.prems, of s]
      by (cases "matchSide (node mm1 k (Suc r) i) s";
          cases "matchWinner (node mm1 k r (2 * i + side_ix s))") fastforce+
    have "matchSide (node mm k (Suc r) i) s = matchSide (node mm' k (Suc r) i) s" for s
      using side [OF assms(1,2)] side [OF assms(3,4)] feeder by simp
    from this [of SideA] this [of SideB] show ?case
      using shape_node(2-5) [OF sh(1) Suc.prems] shape_node(2-5) [OF sh(2) Suc.prems] out [OF Suc.prems]
      by (intro bracket_match.equality) simp_all
  qed
  have "mm = map (\<lambda>(r, i). (nid k r i, node mm k r i)) (se_positions k)" by (rule shape_list [OF sh(1)])
  also have "\<dots> = map (\<lambda>(r, i). (nid k r i, node mm' k r i)) (se_positions k)"
    by (rule map_cong [OF refl]) (auto simp: nodes set_se_positions)
  also have "\<dots> = mm'" by (rule shape_list [OF sh(2), symmetric])
  finally show ?thesis .
qed

section \<open>Replaying results\<close>

lemma record_cup_frame:
  assumes "t_format t = SingleElimination" "record_result i out t = Inr t'"
  shows "t' = recomputeComplete (t\<lparr>t_matchMap := t_matchMap t'\<rparr>)"
  using assms by (auto simp: record_result_Inr advance_def recomputeComplete_def compute_complete_def matches_def)

lemma recompute_twice:
  "recomputeComplete ((recomputeComplete (t\<lparr>t_matchMap := a\<rparr>))\<lparr>t_matchMap := b\<rparr>) =
     recomputeComplete (t\<lparr>t_matchMap := b\<rparr>)"
  by (simp add: recomputeComplete_def compute_complete_def matches_def split: tournament_format.split)

lemma replay_outcomes:
  assumes "cup_inv k es n t" "replay rs t = Inr t'"
  shows "outcome_at (t_matchMap t') = outcome_at (t_matchMap t) ++ map_of rs \<and>
    distinct (map fst rs) \<and> (\<forall>i \<in> fst ` set rs. outcome_at (t_matchMap t) i = None) \<and>
    t' = recomputeComplete (t\<lparr>t_matchMap := t_matchMap t'\<rparr>)"
  using assms
proof (induction rs arbitrary: t n)
  case Nil
  then show ?case by (simp add: recomputeComplete_def cup_inv_def)
next
  case (Cons r rs)
  obtain i out where r: "r = (i, out)" by force
  with Cons.prems(2) obtain t1 where t1: "record_result i out t = Inr t1" "replay rs t1 = Inr t'"
    by (auto simp: bind_result_eq_Inr)
  note step = cup_inv_record [OF Cons.prems(1) t1(1)]
  from t1(1) obtain m where m: "map_of (t_matchMap t) i = Some m" "isReady m"
    by (auto simp: record_result_Inr)
  have fmt: "t_format t = SingleElimination" using Cons.prems(1) by (simp add: cup_inv_def)
  have frame: "t1 = recomputeComplete (t\<lparr>t_matchMap := t_matchMap t1\<rparr>)"
    by (rule record_cup_frame [OF fmt t1(1)])
  have "se_shape k (t_matchMap t)" "se_shape k (t_matchMap t1)"
    using Cons.prems(1) step(1) by (simp_all add: cup_inv_def se_inv_def)
  then have "map fst (t_matchMap t1) = map fst (AList.map_entry i (set_outcome out) (t_matchMap t))"
    by (simp add: shape_keys)
  then have at1: "outcome_at (t_matchMap t1) = (outcome_at (t_matchMap t))(i \<mapsto> out)"
    using outcome_at_zip [OF _ step(2)] outcome_at_set_outcome [OF m(1)] by simp
  have none: "outcome_at (t_matchMap t) i = None" using m by (simp add: outcome_at_def isReady_def)
  note IH = Cons.IH [OF step(1) t1(2)]
  from IH at1 have fresh: "i \<notin> fst ` set rs" by fastforce
  then have "map_of rs i = None" by (simp add: map_of_eq_None_iff)
  then have "(outcome_at (t_matchMap t))(i \<mapsto> out) ++ map_of rs =
      outcome_at (t_matchMap t) ++ map_of ((i, out) # rs)"
    by (auto simp: fun_eq_iff map_add_def split: option.split)
  moreover have "t' = recomputeComplete (t\<lparr>t_matchMap := t_matchMap t'\<rparr>)"
  proof -
    have "t' = recomputeComplete (t1\<lparr>t_matchMap := t_matchMap t'\<rparr>)" using IH by blast
    also have "\<dots> = recomputeComplete ((recomputeComplete (t\<lparr>t_matchMap := t_matchMap t1\<rparr>))
        \<lparr>t_matchMap := t_matchMap t'\<rparr>)" by (rule arg_cong [OF frame])
    finally show ?thesis by (simp only: recompute_twice)
  qed
  moreover have "\<forall>j \<in> fst ` set rs. outcome_at (t_matchMap t) j = None"
    using IH at1 fresh by (metis fun_upd_other)
  moreover have "outcome_at (t_matchMap t') = (outcome_at (t_matchMap t))(i \<mapsto> out) ++ map_of rs"
    unfolding at1 [symmetric] using IH by (rule conjunct1)
  moreover have "distinct (map fst ((i, out) # rs))" using IH fresh by simp
  ultimately show ?case using none r by (simp del: map_of.simps)
qed

lemma replay_determined:
  assumes "new_tournament SingleElimination es = Inr t0"
    and "replay rs t0 = Inr t" "replay rs' t0 = Inr t'" "set rs = set rs'"
  shows "t = t'"
proof -
  from assms(1) obtain k where k: "cup_inv k es 0 t0" by (rule cup_inv_new)
  note r = replay_outcomes [OF k assms(2)] and r' = replay_outcomes [OF k assms(3)]
  note inv = cup_inv_replay [OF k assms(2)] and inv' = cup_inv_replay [OF k assms(3)]
  have "map_of rs = map_of rs'" using r r' assms(4) map_of_inject_set by blast
  with r r' have "outcome_at (t_matchMap t) = outcome_at (t_matchMap t')" by simp
  then have "t_matchMap t = t_matchMap t'"
    using inv inv' by (intro bracket_determined [of k es]) (simp_all add: cup_inv_def)
  with r r' show ?thesis by metis
qed

section \<open>Lost matches\<close>

lemma cup_run_decisive:
  assumes "new_tournament SingleElimination es = Inr t0" "replay rs t0 = Inr t" "OutVoid \<notin> snd ` set rs"
  obtains k where "cup_inv k es (length rs) t" "void_free (t_matchMap t)"
  using assms(1,2) by (rule cup_run) (rule that, assumption, simp add: assms(3))

text \<open>The winner of the final has lost no match: on the way up to the final they won every one.\<close>

lemma final_winner_unbeaten:
  assumes "se_inv k es mm" "seated k es" "1 \<le> k" "distinct (map ent_id es)"
    and "matchWinner (node mm k (k - 1) 0) = Some e" "se_valid k r i"
  shows "matchLoser (node mm k r i) \<noteq> Some e"
proof
  assume l: "matchLoser (node mm k r i) = Some e"
  obtain x where x: "x < 2 ^ k" "seat k es x = Some e" "x div 2 ^ Suc r = i"
    using assms(1,6) l by (rule loser_slot)
  obtain s where "matchSide (node mm k (k - 1) 0) s = Some e" using matchWinner_side [OF assms(5)] by blast
  with assms(1) final_valid [OF assms(3)] obtain y where y: "y < 2 ^ k" "seat k es y = Some e"
    "\<And>r'. r' < k - 1 \<Longrightarrow> matchWinner (node mm k r' (y div 2 ^ Suc r')) = Some e"
    by (rule way_up) blast
  have "k \<le> 32" using assms(2) by (simp add: seated_def)
  then have "x = y" using seat_unique [OF _ ids_distinct [OF assms(4)] x(1) y(1) x(2) y(2)] by simp
  have "matchWinner (node mm k r i) = Some e"
  proof (cases "r < k - 1")
    case False
    with assms(6) have "r = k - 1" "i = 0" by (auto simp: se_valid_def)
    with assms(5) show ?thesis by simp
  qed (use y(3) x(3) \<open>x = y\<close> in auto)
  with winner_not_loser [OF assms(1,2) ids_distinct [OF assms(4)] assms(6) l] show False by simp
qed

lemma cup_lost_matches:
  assumes "cup_inv k es n t" "void_free (t_matchMap t)" "isComplete t" "distinct (map ent_id es)" "e \<in> set es"
  shows "card {m \<in> set (matches t). matchLoser m = Some e} = (if champion t = Some (ent_id e) then 0 else 1)"
proof -
  let ?mm = "t_matchMap t"
  have inv: "se_inv k es ?mm" "seated k es" "settled ?mm" "1 \<le> k" "se_shape k ?mm"
    using assms(1) by (simp_all add: cup_inv_def seated_def se_inv_def)
  obtain c where c: "matchWinner (node ?mm k (k - 1) 0) = Some c" "champion t = Some (ent_id c)" "c \<in> set es"
    using assms(1-3) by (rule cup_champion)
  have ce: "champion t = Some (ent_id e) \<longleftrightarrow> c = e"
    using c assms(4,5) by (auto dest: inj_onD simp: distinct_map)
  have lost: "matchLoser m = Some e \<and> m \<in> set (matches t) \<longleftrightarrow>
      (\<exists>r i. se_valid k r i \<and> m = node ?mm k r i \<and> matchLoser (node ?mm k r i) = Some e)" for m
    by (auto simp: cup_matches [OF inv(5)])
  show ?thesis
  proof (cases "c = e")
    case True
    have "matchLoser (node ?mm k r i) \<noteq> Some e" if "se_valid k r i" for r i
      using inv(1,2,4) assms(4) c(1) [unfolded True] that by (rule final_winner_unbeaten)
    then have "\<not> (matchLoser m = Some e \<and> m \<in> set (matches t))" for m unfolding lost by blast
    then have "{m \<in> set (matches t). matchLoser m = Some e} = {}" by blast
    then show ?thesis using ce True by simp
  next
    case False
    have all: "m_outcome (node ?mm k r i) \<noteq> None" if "se_valid k r i" for r i
      using that final_decides_all [OF inv(1)] compute_complete_final [OF assms(1)] assms(1,3)
      by (simp add: isComplete_def cup_inv_def)
    obtain r i where ri: "se_valid k r i" "matchLoser (node ?mm k r i) = Some e"
      using fate [OF inv(1-3) assms(2,5) all] c(1) False by auto
    have uniq: "m = node ?mm k r i" if "matchLoser m = Some e" "m \<in> set (matches t)" for m
    proof -
      from lost that obtain r' i' where 1: "se_valid k r' i'" "m = node ?mm k r' i'"
        "matchLoser (node ?mm k r' i') = Some e" by blast
      from lose_once [OF inv(1,2) ids_distinct [OF assms(4)] ri 1(1,3)] 1(2) show ?thesis by simp
    qed
    have mem: "node ?mm k r i \<in> set (matches t)" using lost ri by blast
    have "{m \<in> set (matches t). matchLoser m = Some e} = {node ?mm k r i}"
      using uniq mem ri(2) by (intro set_eqI iffI) blast+
    then show ?thesis using ce False by simp
  qed
qed

section \<open>A small cup, for the closed instances\<close>

definition demo_field :: "entrant list" where
  "demo_field = map (\<lambda>i. \<lparr>ent_id = 10 + i, ent_seed = i\<rparr>) [1..5]"

definition demo_results :: "(match_id \<times> outcome) list" where
  "demo_results = [(1, OutB), (6, OutA), (5, OutB), (7, OutA)]"

definition demo_cup0 :: tournament where
  "demo_cup0 = projr (new_tournament SingleElimination demo_field)"

definition demo_cup :: tournament where
  "demo_cup = projr (replay demo_results demo_cup0)"

definition demo_cup_open :: tournament where
  "demo_cup_open = projr (replay (take 2 demo_results) demo_cup0)"

lemma demo_cup0: "new_tournament SingleElimination demo_field = Inr demo_cup0"
proof -
  have "\<not> isl (new_tournament SingleElimination demo_field)" by code_simp
  then show ?thesis by (simp add: demo_cup0_def)
qed

lemma demo_cup: "replay demo_results demo_cup0 = Inr demo_cup"
proof -
  have "\<not> isl (replay demo_results demo_cup0)" by code_simp
  then show ?thesis by (simp add: demo_cup_def)
qed

lemma demo_cup_open: "replay (take 2 demo_results) demo_cup0 = Inr demo_cup_open"
proof -
  have "\<not> isl (replay (take 2 demo_results) demo_cup0)" by code_simp
  then show ?thesis by (simp add: demo_cup_open_def)
qed

definition demo_places :: "entrant_id list" where
  "demo_places = [13, 12, 14, 15, 11]"

lemma demo_field_length: "length demo_field = 5" by code_simp
section \<open>Properties\<close>

text \<open>C1. A knock-out cup for \<open>n\<close> entrants is complete exactly when \<open>n - 1\<close> results have been
  recorded, whatever they are, and \<open>record\<close> never accepts more.\<close>

theorem cup_complete_iff:
  assumes "new_tournament SingleElimination es = Inr t0" "replay rs t0 = Inr t"
  shows "(isComplete t \<longleftrightarrow> length rs + 1 = length es) \<and> length rs + 1 \<le> length es"
proof -
  from assms obtain k where "cup_inv k es (length rs) t" by (rule cup_run)
  then show ?thesis using cup_complete_count by simp
qed

theorem cup_complete_iff_witness: "isComplete demo_cup \<and> length demo_results + 1 = length demo_field"
  using cup_complete_iff [OF demo_cup0 demo_cup] by (simp add: demo_results_def demo_field_length)

text \<open>C19. A cup without a void match cannot get stuck: until it is complete some match is pending,
  and \<open>record\<close> accepts a win for either side of it.\<close>

theorem cup_not_stuck:
  assumes "new_tournament SingleElimination es = Inr t0" "replay rs t0 = Inr t"
    and "OutVoid \<notin> snd ` set rs" "\<not> isComplete t"
  shows "\<exists>i \<in> set (pending t). (\<exists>t'. record_result i OutA t = Inr t') \<and> (\<exists>t'. record_result i OutB t = Inr t')"
proof -
  from assms(1-3) obtain k where k: "cup_inv k es (length rs) t" "void_free (t_matchMap t)"
    by (rule cup_run_decisive)
  have "hd (pending t) \<in> set (pending t)" by (simp add: cup_progress [OF k assms(4)])
  then obtain i where i: "i \<in> set (pending t)" by blast
  have "reachable SingleElimination es t" by (rule replay_reachable [OF created [OF assms(1)] assms(2)])
  with i obtain m where "map_of (t_matchMap t) i = Some m" "isReady m" by (auto simp: pending_iff)
  then show ?thesis using i by (auto simp: record_result_Inr)
qed

theorem cup_not_stuck_witness: "pending demo_cup_open \<noteq> []"
proof -
  have "OutVoid \<notin> snd ` set (take 2 demo_results)" "\<not> isComplete demo_cup_open" by code_simp+
  from cup_not_stuck [OF demo_cup0 demo_cup_open this] show ?thesis by auto
qed

text \<open>C17. A complete cup without a void match has a champion, \<open>winners\<close> puts the champion first
  and lists every entrant exactly once.\<close>

theorem cup_winners:
  assumes "new_tournament SingleElimination es = Inr t0" "replay rs t0 = Inr t"
    and "OutVoid \<notin> snd ` set rs" "isComplete t"
  shows "\<exists>c ws. champion t = Some c \<and> winners t = Inr ws \<and> hd ws = c \<and> mset ws = mset (map ent_id es)"
proof -
  from assms(1-3) obtain k where k: "cup_inv k es (length rs) t" "void_free (t_matchMap t)"
    by (rule cup_run_decisive)
  obtain c where c: "champion t = Some (ent_id c)" "c \<in> set es" using cup_champion [OF k assms(4)] by blast
  have "distinct (map ent_id es)" using assms(1) by (rule new_cup)
  from cup_order_perm [OF k(1) this c(1)] c k(1) show ?thesis by (auto simp: winners_def cup_inv_def)
qed

theorem cup_winners_witness: "\<exists>c ws. champion demo_cup = Some c \<and> winners demo_cup = Inr ws \<and> hd ws = c"
proof -
  have "OutVoid \<notin> snd ` set demo_results" "isComplete demo_cup" by code_simp+
  from cup_winners [OF demo_cup0 demo_cup this] show ?thesis by blast
qed

text \<open>C2. Single elimination: in a complete cup without a void match the champion has lost no match
  and every other entrant has lost exactly one.\<close>

theorem cup_single_elimination:
  assumes "new_tournament SingleElimination es = Inr t0" "replay rs t0 = Inr t"
    and "OutVoid \<notin> snd ` set rs" "isComplete t" "e \<in> set es"
  shows "card {m \<in> set (matches t). matchLoser m = Some e} = (if champion t = Some (ent_id e) then 0 else 1)"
proof -
  from assms(1-3) obtain k where k: "cup_inv k es (length rs) t" "void_free (t_matchMap t)"
    by (rule cup_run_decisive)
  have ids: "distinct (map ent_id es)" using assms(1) by (rule new_cup)
  from cup_lost_matches [OF k assms(4) ids assms(5)] show ?thesis .
qed

theorem cup_single_elimination_witness:
  "card {m \<in> set (matches demo_cup). matchLoser m = Some \<lparr>ent_id = 11, ent_seed = 1\<rparr>} = 1"
proof -
  have h: "OutVoid \<notin> snd ` set demo_results" "isComplete demo_cup" by code_simp+
  have e: "\<lparr>ent_id = 11, ent_seed = 1\<rparr> \<in> set demo_field" "champion demo_cup \<noteq> Some 11" by code_simp+
  from cup_single_elimination [OF demo_cup0 demo_cup h e(1)] e(2) show ?thesis by simp
qed

text \<open>C18. The placing of a complete cup: after the champion, \<open>winners\<close> lists the entrants by the
  round they were knocked out in, the later the better.\<close>

theorem cup_placing:
  assumes "new_tournament SingleElimination es = Inr t0" "replay rs t0 = Inr t"
    and "OutVoid \<notin> snd ` set rs" "isComplete t" "winners t = Inr ws"
    and "0 < p" "p < q" "q < length ws"
    and "m \<in> set (matches t)" "matchLoser m = Some l" "ws ! p = ent_id l"
    and "m' \<in> set (matches t)" "matchLoser m' = Some l'" "ws ! q = ent_id l'"
  shows "m_round m' \<le> m_round m"
proof -
  from assms(1-3) obtain k where k: "cup_inv k es (length rs) t" "void_free (t_matchMap t)"
    by (rule cup_run_decisive)
  obtain c where "matchWinner (node (t_matchMap t) k (k - 1) 0) = Some c"
    and c: "champion t = Some (ent_id c)" "c \<in> set es" by (rule cup_champion [OF k assms(4)])
  have ids: "distinct (map ent_id es)" using assms(1) by (rule new_cup)
  have ws: "ws = singleElimOrder t" using assms(5) k(1) by (simp add: winners_def cup_inv_def)
  show ?thesis
    by (rule cup_order_rank [OF k(1) ids c(1) assms(6,7) _ assms(9,10) _ assms(12,13)])
      (use assms(8,11,14) in \<open>simp_all add: ws\<close>)
qed

theorem cup_placing_witness:
  "m_round (the (map_of (t_matchMap demo_cup) 5)) \<le> m_round (the (map_of (t_matchMap demo_cup) 7))"
proof -
  have h: "OutVoid \<notin> snd ` set demo_results" "isComplete demo_cup" by code_simp+
  have w: "winners demo_cup = Inr demo_places" by code_simp
  let ?m = "the (map_of (t_matchMap demo_cup) 7)" and ?m' = "the (map_of (t_matchMap demo_cup) 5)"
  have 1: "?m \<in> set (matches demo_cup)" "matchLoser ?m = Some \<lparr>ent_id = 12, ent_seed = 2\<rparr>" by code_simp+
  have 2: "?m' \<in> set (matches demo_cup)" "matchLoser ?m' = Some \<lparr>ent_id = 15, ent_seed = 5\<rparr>" by code_simp+
  show ?thesis
    by (rule cup_placing [OF demo_cup0 demo_cup h w _ _ _ 1 _ 2, of 1 3])
      (simp_all add: demo_places_def)
qed

text \<open>C20. The order in which results are recorded does not matter: two runs that record the same
  results from the same start end in the same tournament.\<close>

theorem cup_order_independent:
  assumes "new_tournament SingleElimination es = Inr t0"
    and "replay rs t0 = Inr t" "replay rs' t0 = Inr t'" "set rs = set rs'"
  shows "t = t'"
  using assms by (rule replay_determined)

theorem cup_order_independent_witness:
  "replay [(6, OutA), (1, OutB)] demo_cup0 = Inr demo_cup_open"
proof -
  let ?rs = "[(6, OutA), (1, OutB)]"
  have "\<not> isl (replay ?rs demo_cup0)" by code_simp
  then have r: "replay ?rs demo_cup0 = Inr (projr (replay ?rs demo_cup0))"
    by (rule sum.collapse(2) [symmetric])
  have sets: "set ?rs = set (take 2 demo_results)" by code_simp
  have "projr (replay ?rs demo_cup0) = demo_cup_open"
    by (rule cup_order_independent [OF demo_cup0 r demo_cup_open sets])
  from arg_cong [OF this, of Inr] show ?thesis by (rule trans [OF r])
qed

text \<open>A void final: when the last result of a cup is void, the cup is complete and has no
  champion.\<close>

theorem cup_void_final:
  assumes "new_tournament SingleElimination es = Inr t0" "replay (rs @ [(i, OutVoid)]) t0 = Inr t"
    and "isComplete t"
  shows "champion t = None"
proof -
  from assms(2) obtain t1 where t1: "replay rs t0 = Inr t1" "record_result i OutVoid t1 = Inr t"
    by (auto simp: replay_append bind_result_eq_Inr)
  from assms(1) t1(1) obtain k where k: "cup_inv k es (length rs) t1" by (rule cup_run)
  note k' = cup_inv_record(1) [OF k t1(2)]
  let ?f = "nid k (k - 1) 0"
  have sh: "se_shape k (t_matchMap t1)" "se_shape k (t_matchMap t)"
    using k k' by (simp_all add: cup_inv_def se_inv_def)
  have v: "se_valid k (k - 1) 0" by (rule final_valid) (use k in \<open>simp add: cup_inv_def seated_def\<close>)
  have at: "outcome_at (t_matchMap t) = (outcome_at (t_matchMap t1))(i \<mapsto> OutVoid)"
    using replay_outcomes [OF k, of "[(i, OutVoid)]" t] t1(2) by simp
  have f: "outcome_at (t_matchMap t') ?f = m_outcome (node (t_matchMap t') k (k - 1) 0)"
    if "se_shape k (t_matchMap t')" for t'
    using shape_node(1) [OF that v] by (simp add: outcome_at_def)
  have "m_outcome (node (t_matchMap t1) k (k - 1) 0) = None"
    using cup_complete_count(1) [OF k] cup_complete_count(1) [OF k'] assms(3)
      compute_complete_final [OF k] k by (simp add: isComplete_def cup_inv_def)
  moreover have "m_outcome (node (t_matchMap t) k (k - 1) 0) \<noteq> None"
    using compute_complete_final [OF k'] k' assms(3) by (simp add: isComplete_def cup_inv_def)
  ultimately have "i = ?f" using f [OF sh(1)] f [OF sh(2)] at by (metis fun_upd_other)
  then have "m_outcome (node (t_matchMap t) k (k - 1) 0) = Some OutVoid" using f [OF sh(2)] at by simp
  then show ?thesis using champion_final [OF k'] by (simp add: matchWinner_def)
qed

theorem cup_void_final_witness:
  "champion (projr (replay (take 3 demo_results @ [(7, OutVoid)]) demo_cup0)) = None"
proof -
  let ?rs = "take 3 demo_results @ [(7, OutVoid)]"
  have "\<not> isl (replay ?rs demo_cup0)" by code_simp
  then have r: "replay ?rs demo_cup0 = Inr (projr (replay ?rs demo_cup0))"
    by (rule sum.collapse(2) [symmetric])
  have "isComplete (projr (replay ?rs demo_cup0))" by code_simp
  from cup_void_final [OF demo_cup0 r this] show ?thesis .
qed

end
