(* ===== verification/League.thy ===== *)
theory League
  imports Cup
begin

text \<open>
  Round-robin and Swiss tournaments end to end, and the properties of the driver that hold for
  every format.
\<close>

section \<open>Who has met whom\<close>

definition met :: "swiss_entry list \<Rightarrow> entrant \<Rightarrow> entrant \<Rightarrow> bool" where
  "met entries a b \<longleftrightarrow> (\<exists>i < length entries. se_entrant (entries ! i) = a \<and> ent_id b \<in> se_played (entries ! i))"

lemma met_frame: "swiss_frame a = swiss_frame b \<Longrightarrow> met a = met b"
proof -
  have "met es x y \<longleftrightarrow> (\<exists>p \<in> set (swiss_frame es). fst p = x \<and> ent_id y \<in> snd p)" for es x y
    by (simp add: met_def swiss_frame_def) (metis in_set_conv_nth)
  then show "swiss_frame a = swiss_frame b \<Longrightarrow> met a = met b" by (simp add: fun_eq_iff)
qed

lemma met_add_played:
  "met entries a b \<Longrightarrow> met (add_played i x entries) a b"
  "i < length entries \<Longrightarrow> met (add_played i (ent_id b) entries) (se_entrant (entries ! i)) b"
proof -
  assume "met entries a b"
  then obtain l where "l < length entries" "se_entrant (entries ! l) = a" "ent_id b \<in> se_played (entries ! l)"
    by (auto simp: met_def)
  then show "met (add_played i x entries) a b"
    unfolding met_def by (intro exI [of _ l]) (cases "l = i"; simp add: add_played_def)
next
  assume "i < length entries"
  then show "met (add_played i (ent_id b) entries) (se_entrant (entries ! i)) b"
    unfolding met_def by (intro exI [of _ i]) (simp add: add_played_def)
qed

lemma pair_loop_met:
  "met entries a b \<Longrightarrow> met (snd (pair_loop idx is paired entries nextId)) a b"
  by (induction "is" paired entries nextId rule: pair_loop_induct [where idx = idx])
    (simp_all add: Let_def case_prod_unfold met_add_played)

lemma pair_loop_pairs_met:
  assumes "set idx \<subseteq> {..<length entries}" "set is \<subseteq> {..<length entries}"
    "p \<in> set (fst (pair_loop idx is paired entries nextId))"
  shows "met (snd (pair_loop idx is paired entries nextId)) (sp_a p) (sp_b p) \<and>
    met (snd (pair_loop idx is paired entries nextId)) (sp_b p) (sp_a p)"
  using assms
proof (induction "is" paired entries nextId rule: pair_loop_induct [where idx = idx])
  case (Pair i "is" paired entries nextId j)
  note j = choose_opponentD [OF Pair.hyps(2)]
  let ?a = "se_entrant (entries ! i)" and ?b = "se_entrant (entries ! j)"
  let ?e1 = "add_played i (ent_id ?b) entries"
  let ?e2 = "add_played j (ent_id ?a) ?e1"
  let ?rest = "pair_loop idx is (paired[i := True, j := True]) ?e2 (nextId + 1)"
  have lt: "i < length entries" "j < length entries" using Pair.prems j by auto
  have snd: "snd (pair_loop idx (i # is) paired entries nextId) = snd ?rest"
    using Pair.hyps by (simp add: Let_def case_prod_unfold)
  have "met ?e1 ?a ?b" using lt by (simp add: met_add_played)
  then have 1: "met ?e2 ?a ?b" by (rule met_add_played)
  have "met ?e2 (se_entrant (?e1 ! j)) ?a" by (rule met_add_played) (use lt in simp)
  then have 2: "met ?e2 ?b ?a" using lt by simp
  from Pair.prems(3) Pair.hyps consider "sp_a p = ?a" "sp_b p = ?b" | "p \<in> set (fst ?rest)"
    by (auto simp: Let_def case_prod_unfold)
  then show ?case
  proof cases
    case 1
    then show ?thesis unfolding snd using \<open>met ?e2 ?a ?b\<close> 2 by (simp add: pair_loop_met)
  next
    case 2
    then show ?thesis unfolding snd by (intro Pair.IH) (use Pair.prems in simp_all)
  qed
qed (simp_all add: Let_def case_prod_unfold)

lemma pairSwissRound_met:
  "met entries a b \<Longrightarrow> met (snd (pairSwissRound entries s)) a b"
  "p \<in> set (fst (pairSwissRound entries s)) \<Longrightarrow>
     met (snd (pairSwissRound entries s)) (sp_a p) (sp_b p) \<and>
     met (snd (pairSwissRound entries s)) (sp_b p) (sp_a p)"
  unfolding pairSwissRound_def Let_def
  by (rule pair_loop_met, assumption) (rule pair_loop_pairs_met, simp_all add: set_swiss_order)

lemma fair_pair_unmet:
  assumes "fair_pair entries paired p" "unique_ids entries"
  shows "\<not> met entries (sp_a p) (sp_b p)" "sp_a p \<noteq> sp_b p"
proof -
  from assms(1) obtain i j where ij: "i < length entries" "j < length entries" "i \<noteq> j"
    "sp_a p = se_entrant (entries ! i)" "sp_b p = se_entrant (entries ! j)"
    "ent_id (sp_b p) \<notin> se_played (entries ! i)" by (auto simp: fair_pair_def)
  have same: "l = i" if "l < length entries" "se_entrant (entries ! l) = sp_a p" for l
    using that ij unique_ids_inj [OF assms(2), of l i] by (simp add: entry_id_def)
  with ij(6) show "\<not> met entries (sp_a p) (sp_b p)" by (auto simp: met_def)
  show "sp_a p \<noteq> sp_b p" using same [of j] ij by auto
qed

section \<open>The games of a Swiss tournament\<close>

type_synonym game_row = "match_id \<times> nat \<times> entrant option \<times> entrant option"

definition game_row :: "bracket_match \<Rightarrow> game_row" where
  "game_row m = (m_id m, m_round m, m_a m, m_b m)"

definition row_round :: "game_row \<Rightarrow> nat" where
  "row_round = (\<lambda>(i, r, x, y). r)"

definition row_sides :: "game_row \<Rightarrow> entrant set" where
  "row_sides = (\<lambda>(i, r, x, y). set_option x \<union> set_option y)"

definition pair_row :: "nat \<Rightarrow> swiss_pair \<Rightarrow> game_row" where
  "pair_row rd p = (sp_id p, rd, Some (sp_a p), Some (sp_b p))"

lemma row_simps [simp]:
  "row_sides (game_row m) = sides_of m" "row_round (game_row m) = m_round m"
  "row_sides (pair_row rd p) = {sp_a p, sp_b p}" "row_round (pair_row rd p) = rd"
  "game_row (swiss_match rd p) = pair_row rd p"
  by (auto simp: row_sides_def row_round_def game_row_def pair_row_def sides_of_def swiss_match_def)

definition fair_row :: "swiss_entry list \<Rightarrow> game_row \<Rightarrow> bool" where
  "fair_row entries = (\<lambda>(i, r, x, y).
     \<exists>a b. x = Some a \<and> y = Some b \<and> a \<noteq> b \<and> met entries a b \<and> met entries b a)"

definition swiss_games :: "swiss_entry list \<Rightarrow> game_row list \<Rightarrow> bool" where
  "swiss_games entries rows \<longleftrightarrow> (\<forall>p \<in> set rows. fair_row entries p) \<and> distinct (map row_sides rows) \<and>
     (\<forall>p \<in> set rows. \<forall>q \<in> set rows. row_round p = row_round q \<and> p \<noteq> q \<longrightarrow> row_sides p \<inter> row_sides q = {})"

lemma pair_ids_disjoint:
  assumes "distinct (pair_ids ps)"
  shows "distinct (map (\<lambda>p. {sp_a p, sp_b p}) ps)"
    and "p \<in> set ps \<Longrightarrow> q \<in> set ps \<Longrightarrow> p \<noteq> q \<Longrightarrow> {sp_a p, sp_b p} \<inter> {sp_a q, sp_b q} = {}"
proof -
  have cons: "{sp_a p, sp_b p} \<inter> {sp_a q, sp_b q} = {}" if "distinct (pair_ids (p # ps))" "q \<in> set ps" for p q ps
    using that by (auto simp: pair_ids_def)
  show "distinct (map (\<lambda>p. {sp_a p, sp_b p}) ps)"
    using assms
  proof (induction ps)
    case (Cons p ps)
    have "{sp_a p, sp_b p} \<notin> (\<lambda>p. {sp_a p, sp_b p}) ` set ps" using cons [OF Cons.prems] by blast
    with Cons show ?case by (simp add: pair_ids_def)
  qed simp
  show "p \<in> set ps \<Longrightarrow> q \<in> set ps \<Longrightarrow> p \<noteq> q \<Longrightarrow> {sp_a p, sp_b p} \<inter> {sp_a q, sp_b q} = {}"
    using assms
  proof (induction ps)
    case (Cons x ps)
    have "distinct (pair_ids ps)" using Cons.prems(4) by (simp add: pair_ids_def)
    with Cons cons [OF Cons.prems(4)] show ?case by (metis inf_commute set_ConsD)
  qed simp
qed

lemma swiss_games_load:
  assumes "swiss_games entries rows" "unique_ids entries" "\<forall>p \<in> set rows. row_round p < rd"
    "pairSwissRound entries s = (pairs, entries')"
  shows "swiss_games entries' (rows @ map (pair_row rd) pairs)"
proof -
  note met = pairSwissRound_met [where entries = entries and s = s, unfolded assms(4) fst_conv snd_conv]
  have fair: "fair_pair entries (replicate (length entries) False) p" if "p \<in> set pairs" for p
    using pairSwissRound_fair [of p entries s] that by (simp add: assms(4))
  have dist: "distinct (pair_ids pairs)" using pairSwissRound_distinct [OF assms(2), of s] by (simp add: assms(4))
  note new = pair_ids_disjoint [OF dist] and unmet = fair_pair_unmet [OF fair assms(2)]
  have 1: "fair_row entries' p" if "p \<in> set (rows @ map (pair_row rd) pairs)" for p
    using that assms(1) met unmet(2) by (fastforce simp: swiss_games_def fair_row_def pair_row_def)
  have "row_sides p \<noteq> {sp_a q, sp_b q}" if "p \<in> set rows" "q \<in> set pairs" for p q
  proof
    assume eq: "row_sides p = {sp_a q, sp_b q}"
    from assms(1) that(1) obtain a b where ab: "met entries a b" "met entries b a" "row_sides p = {a, b}"
      by (fastforce simp: swiss_games_def fair_row_def row_sides_def)
    with eq have "met entries (sp_a q) (sp_b q)" by (auto simp: doubleton_eq_iff)
    with unmet(1) [OF that(2)] show False by simp
  qed
  then have 2: "distinct (map row_sides (rows @ map (pair_row rd) pairs))"
    using assms(1) new(1) by (auto simp: swiss_games_def comp_def)
  have 3: "row_sides p \<inter> row_sides q = {}"
    if "p \<in> set (rows @ map (pair_row rd) pairs)" "q \<in> set (rows @ map (pair_row rd) pairs)"
      "row_round p = row_round q" "p \<noteq> q" for p q
  proof -
    from that assms(3) consider "p \<in> set rows" "q \<in> set rows"
      | p' q' where "p' \<in> set pairs" "q' \<in> set pairs" "p = pair_row rd p'" "q = pair_row rd q'"
      by fastforce
    then show ?thesis
    proof cases
      case 1
      with assms(1) that(3,4) show ?thesis by (simp add: swiss_games_def)
    next
      case 2
      with new(2) [of p' q'] that(4) show ?thesis by auto
    qed
  qed
  from 1 2 3 show ?thesis by (simp only: swiss_games_def) blast
qed

section \<open>The invariant\<close>

definition game_rows :: "tournament \<Rightarrow> game_row list" where
  "game_rows t = map (game_row \<circ> snd) (t_matchMap t)"

definition swiss_inv :: "int \<Rightarrow> entrant list \<Rightarrow> tournament \<Rightarrow> bool" where
  "swiss_inv n es t \<longleftrightarrow> driver_inv (Swiss n) es t \<and>
     (\<exists>entries. t_swissEntries t = Some entries \<and> swiss_games entries (game_rows t)) \<and>
     (\<forall>p \<in> set (game_rows t). row_round p \<le> t_swissRound t)"

lemma swiss_games_frame:
  assumes "swiss_frame a = swiss_frame b"
  shows "swiss_games a = swiss_games b"
proof -
  have "fair_row a = fair_row b" using met_frame [OF assms] by (simp add: fair_row_def)
  then show ?thesis by (intro ext) (simp only: swiss_games_def)
qed

lemma game_rows_set_outcome:
  "game_rows (t\<lparr>t_matchMap := AList.map_entry i (set_outcome out) (t_matchMap t)\<rparr>) = game_rows t"
proof -
  have "map (game_row \<circ> snd) (AList.map_entry i (set_outcome out) mm) = map (game_row \<circ> snd) mm" for mm
    by (induction mm) (auto simp: game_row_def)
  then show ?thesis by (simp add: game_rows_def)
qed

lemma game_rows_frame [simp]:
  "game_rows (t\<lparr>t_swissRound := x\<rparr>) = game_rows t" "game_rows (t\<lparr>t_swissEntries := y\<rparr>) = game_rows t"
  "game_rows (t\<lparr>t_complete := z\<rparr>) = game_rows t" "game_rows (applySwissResults t) = game_rows t"
  "game_rows (recomputeComplete t) = game_rows t"
  by (simp_all add: game_rows_def)

lemma swiss_inv_recompute [simp]: "swiss_inv n es (recomputeComplete t) = swiss_inv n es t"
  by (simp add: swiss_inv_def)

lemma pair_round_rows:
  assumes "driver_inv (Swiss n) es t" "t_swissEntries t = Some entries"
    "pairSwissRound entries (t_nextId t) = (pairs, entries')"
  shows "game_rows (pair_round t) = game_rows t @ map (pair_row (t_swissRound t)) pairs"
    "t_swissEntries (pair_round t) = Some entries'" "t_swissRound (pair_round t) = t_swissRound t"
proof -
  let ?ms = "map (swiss_match (t_swissRound t)) pairs"
  have "fresh_batch (entry_entrants entries) (t_nextId t) ?ms"
    using swiss_build_fresh [of entries "t_nextId t" "t_swissRound t"] assms(3) by (simp add: swiss_build_def)
  then have "load_matches ?ms (t_matchMap t) = t_matchMap t @ map (\<lambda>m. (m_id m, m)) ?ms"
    using assms(1) by (intro load_matches_keyed(1)) (simp_all add: driver_inv_def fresh_batch_def)
  then show "game_rows (pair_round t) = game_rows t @ map (pair_row (t_swissRound t)) pairs"
    by (simp add: pair_round_def assms(2,3) game_rows_def comp_def)
  show "t_swissEntries (pair_round t) = Some entries'" "t_swissRound (pair_round t) = t_swissRound t"
    by (simp_all add: pair_round_def assms(2,3))
qed

lemma swiss_pair_round:
  assumes "driver_inv (Swiss n) es t" "t_swissEntries t = Some entries" "swiss_games entries (game_rows t)"
    "\<forall>p \<in> set (game_rows t). row_round p < t_swissRound t"
  shows "swiss_inv n es (pair_round t)"
proof -
  obtain pairs entries' where p: "pairSwissRound entries (t_nextId t) = (pairs, entries')" by force
  have "unique_ids entries"
    using assms(1,2) by (auto simp: driver_inv_def entries_ok_def unique_ids_def idsUnique_iff)
  from swiss_games_load [OF assms(3) this assms(4) p] pair_round_rows [OF assms(1,2) p]
  have "swiss_games entries' (game_rows (pair_round t))"
    "\<forall>q \<in> set (game_rows (pair_round t)). row_round q \<le> t_swissRound (pair_round t)"
    using assms(4) by auto
  with pair_round_rows(2) [OF assms(1,2) p] driver_inv_pair_round [OF assms(1)] show ?thesis
    by (simp add: swiss_inv_def)
qed

lemma swiss_inv_apply:
  assumes "swiss_inv n es t"
  shows "swiss_inv n es (applySwissResults t)"
proof -
  from assms obtain entries where e: "t_swissEntries t = Some entries" "swiss_games entries (game_rows t)"
    by (auto simp: swiss_inv_def)
  have "swiss_games (foldl (apply_swiss_match (id_to_idx entries) (t_swissRound t)) entries
      (map snd (t_matchMap t))) (game_rows t)"
    using e(2) swiss_games_frame [OF swiss_frame_apply_matches] by metis
  with assms driver_inv_apply_swiss [of "Swiss n" es t] show ?thesis
    by (auto simp: swiss_inv_def applySwissResults_def e(1))
qed

lemma swiss_inv_advance:
  assumes "swiss_inv n es t"
  shows "swiss_inv n es (advance t)"
proof -
  let ?t = "(applySwissResults t)\<lparr>t_swissRound := t_swissRound (applySwissResults t) + 1\<rparr>"
  have fmt: "t_format t = Swiss n" using assms by (simp add: swiss_inv_def driver_inv_def)
  note inv = swiss_inv_apply [OF assms]
  then obtain entries where e: "t_swissEntries (applySwissResults t) = Some entries"
    "swiss_games entries (game_rows t)" by (auto simp: swiss_inv_def)
  have "driver_inv (Swiss n) es ?t" using inv by (simp add: swiss_inv_def driver_inv_def)
  then have "swiss_inv n es (pair_round ?t)"
    by (rule swiss_pair_round) (use e inv in \<open>auto simp: swiss_inv_def\<close>)
  with inv assms show ?thesis by (simp add: advance_def fmt Let_def)
qed

lemma swiss_inv_record:
  assumes "swiss_inv n es t" "record_result i out t = Inr t'"
  shows "swiss_inv n es t'"
proof -
  let ?t = "t\<lparr>t_matchMap := AList.map_entry i (set_outcome out) (t_matchMap t)\<rparr>"
  have "driver_inv (Swiss n) es ?t"
    using assms(1) by (intro driver_inv_matchMap)
      (simp_all add: keeps swiss_inv_def driver_inv_def sides_within_set_outcome)
  then have "swiss_inv n es ?t" using assms(1) by (simp add: swiss_inv_def game_rows_set_outcome)
  then show ?thesis using assms(2) swiss_inv_advance by (auto simp: record_result_Inr)
qed

lemma swiss_inv_new:
  assumes "new_tournament (Swiss n) es = Inr t"
  shows "swiss_inv n es t" "n \<noteq> 0" "t_swissRound t = 0" "t_complete t = compute_complete t"
proof -
  let ?t = "(empty_tournament (Swiss n) es)\<lparr>t_swissEntries := Some (map SwissEntry es), t_swissRound := 0\<rparr>"
  from assms have es: "2 \<le> length es" "idsUnique es" "n \<noteq> 0" and t: "t = recomputeComplete (pair_round ?t)"
    by (auto simp: new_tournament_def Let_def split: if_splits)
  have "entries_ok (Swiss n) es (Some (map SwissEntry es))" by (simp add: entries_ok_def)
  from driver_inv_empty [OF es(1,2) this] have inv: "driver_inv (Swiss n) es ?t"
    by (simp add: empty_tournament_def)
  have "swiss_inv n es (pair_round ?t)"
    by (rule swiss_pair_round [OF inv]) (simp_all add: game_rows_def swiss_games_def)
  then show "swiss_inv n es t" by (simp add: t)
  show "n \<noteq> 0" by (rule es(3))
  obtain pairs entries' where p: "pairSwissRound (map SwissEntry es) (t_nextId ?t) = (pairs, entries')" by force
  show "t_swissRound t = 0" using pair_round_rows(3) [OF inv _ p] by (simp add: t)
  show "t_complete t = compute_complete t"
    by (simp add: t)
qed

lemma swiss_reachable: "reachable (Swiss n) es t \<Longrightarrow> swiss_inv n es t"
  by (induction rule: reachable.induct)
    (auto intro: swiss_inv_new swiss_inv_record swiss_inv_advance)


section \<open>Every format\<close>

text \<open>On every reachable tournament the ids in \<open>pending\<close> are exactly the ids for which
  \<open>record\<close> accepts a win.\<close>

theorem pending_recordable:
  assumes "reachable fmt es t" "out \<noteq> OutDraw"
  shows "i \<in> set (pending t) \<longleftrightarrow> (\<exists>t'. record_result i out t = Inr t')"
  using assms by (auto simp: pending_iff record_result_Inr)

theorem pending_recordable_witness: "\<exists>t'. record_result 1 OutA demo_cup0 = Inr t'"
proof -
  have "1 \<in> set (pending demo_cup0)" by code_simp
  then show ?thesis using pending_recordable [OF created [OF demo_cup0], of OutA 1] by simp
qed

text \<open>\<open>record\<close> writes the result it is given and undoes nothing: on every reachable
  tournament the recorded match keeps the outcome, every decided match keeps its outcome and
  every filled side keeps its entrant.\<close>

theorem record_keeps_results:
  assumes "reachable fmt es t" "record_result i out t = Inr t'"
  shows "outcome_of t' i = Some out \<and>
    (\<forall>j m. map_of (t_matchMap t) j = Some m \<longrightarrow>
       (\<exists>m'. map_of (t_matchMap t') j = Some m' \<and>
          (\<forall>x. m_outcome m = Some x \<longrightarrow> m_outcome m' = Some x) \<and>
          (\<forall>s e. matchSide m s = Some e \<longrightarrow> matchSide m' s = Some e)))"
  using grows_record [OF reachable_inv [OF assms(1)] assms(2)]
  by (simp add: grows_def refines_def)

theorem record_keeps_results_witness: "outcome_of (projr (record_result 1 OutB demo_cup0)) 1 = Some OutB"
proof -
  have "\<not> isl (record_result 1 OutB demo_cup0)" by code_simp
  then have "record_result 1 OutB demo_cup0 = Inr (projr (record_result 1 OutB demo_cup0))"
    by (rule sum.collapse(2) [symmetric])
  from record_keeps_results [OF created [OF demo_cup0] this] show ?thesis by (rule conjunct1)
qed

text \<open>C34. \<open>standings\<close> never fails on a reachable tournament: it has one row per entrant, every row
  counts the wins, losses and draws of its entrant over the decided matches, and the rows are
  ordered by wins descending, losses ascending, id ascending.\<close>

theorem standings_correct:
  assumes "reachable fmt es t"
  shows "\<exists>ss. standings t = Inr ss \<and> mset (map st_id ss) = mset (map ent_id es) \<and>
    sorted_wrt ranks_before ss \<and>
    (\<forall>s \<in> set ss. st_wins s = (\<Sum>m\<leftarrow>matches t. win_points (st_id s) m) \<and>
       st_losses s = (\<Sum>m\<leftarrow>matches t. loss_points (st_id s) m) \<and>
       st_draws s = (\<Sum>m\<leftarrow>matches t. draw_points (st_id s) m))"
proof -
  note inv = reachable_inv [OF assms]
  obtain st where st: "standings t = Inr (sort_key standing_rank (map snd st))"
    "table_ok (map ent_id es) (map snd (t_matchMap t)) st" using inv by (rule standings_table)
  have ids: "distinct (map ent_id es)" using inv by (simp add: driver_inv_def idsUnique_iff)
  have perm: "(\<Sum>m\<leftarrow>matches t. f m) = sum_list (map f (map snd (t_matchMap t)))" for f :: "bracket_match \<Rightarrow> nat"
    unfolding matches_def by (metis mset_map mset_sort sum_mset_sum_list)
  have "mset (map st_id (sort_key standing_rank (map snd st))) = mset (map st_id (map snd st))"
    by (simp only: mset_map mset_sort)
  then have rows: "mset (map st_id (sort_key standing_rank (map snd st))) = mset (map ent_id es)"
    by (simp only: table_rows(1) [OF st(2) ids])
  show ?thesis
    by (intro exI conjI) (rule st(1), rule rows, rule sorted_ranks, simp add: perm table_rows(2) [OF st(2) ids])
qed

theorem standings_correct_witness: "\<exists>ss. standings demo_cup = Inr ss \<and> length ss = 5"
proof -
  have "reachable SingleElimination demo_field demo_cup"
    by (rule replay_reachable [OF created [OF demo_cup0] demo_cup])
  from standings_correct [OF this] obtain ss where ss: "standings demo_cup = Inr ss"
    "mset (map st_id ss) = mset (map ent_id demo_field)" by blast
  from mset_eq_length [OF ss(2)] have "length ss = 5" by (simp add: demo_field_length)
  with ss(1) show ?thesis by blast
qed

section \<open>Round robin\<close>

text \<open>C12. The circle method: for entrants without repetition the schedule contains every
  unordered pair of different entrants exactly once.\<close>

theorem round_robin_pairs:
  assumes "es \<noteq> []" "distinct es"
  shows "mset (map sides_of (fst (buildRoundRobin es s))) =
    mset_set {{a, b} | a b. a \<in> set es \<and> b \<in> set es \<and> a \<noteq> b}"
proof -
  have "mset_set (set (map sides_of (rr_matches es s))) = mset (map sides_of (rr_matches es s))"
    by (rule mset_set_set) (rule rr_distinct [OF assms])
  then show ?thesis using rr_covers [OF assms, of s] by (simp add: rr_matches_def)
qed

theorem round_robin_pairs_witness:
  "{\<lparr>ent_id = 11, ent_seed = 1\<rparr>, \<lparr>ent_id = 15, ent_seed = 5\<rparr>} \<in>#
     mset (map sides_of (fst (buildRoundRobin demo_field 1)))"
proof -
  let ?a = "\<lparr>ent_id = 11, ent_seed = 1\<rparr> :: entrant" and ?b = "\<lparr>ent_id = 15, ent_seed = 5\<rparr> :: entrant"
  have "demo_field \<noteq> []" "distinct demo_field" by code_simp+
  note eq = round_robin_pairs [OF this, of 1]
  have "?a \<in> set demo_field \<and> ?b \<in> set demo_field \<and> ?a \<noteq> ?b" by code_simp
  then have mem: "{?a, ?b} \<in> {{a, b} | a b. a \<in> set demo_field \<and> b \<in> set demo_field \<and> a \<noteq> b}" by blast
  have "finite {{a, b} | a b. a \<in> set demo_field \<and> b \<in> set demo_field \<and> a \<noteq> b}"
    by (rule finite_subset [of _ "Pow (set demo_field)"]) auto
  with mem show ?thesis unfolding eq by simp
qed

text \<open>Nobody plays twice in a round of the schedule.\<close>

theorem round_robin_rounds:
  assumes "es \<noteq> []" "distinct es"
  shows "\<forall>m1 \<in> set (fst (buildRoundRobin es s)). \<forall>m2 \<in> set (fst (buildRoundRobin es s)).
    m_round m1 = m_round m2 \<and> m1 \<noteq> m2 \<longrightarrow> sides_of m1 \<inter> sides_of m2 = {}"
  using rr_round_disjoint [OF assms] unfolding rr_matches_def by blast

theorem round_robin_rounds_witness:
  "\<forall>m1 \<in> set (fst (buildRoundRobin demo_field 1)). \<forall>m2 \<in> set (fst (buildRoundRobin demo_field 1)).
    m_round m1 = m_round m2 \<and> m1 \<noteq> m2 \<longrightarrow> sides_of m1 \<inter> sides_of m2 = {}"
proof -
  have "demo_field \<noteq> []" "distinct demo_field" by code_simp+
  then show ?thesis by (rule round_robin_rounds)
qed

section \<open>Round robin runs\<close>

lemma rr_new:
  assumes "new_tournament RoundRobin es = Inr t"
  shows "distinct es" "es \<noteq> []" "map snd (t_matchMap t) = rr_matches es 1"
    "t_complete t = compute_complete t" "t_format t = RoundRobin"
proof -
  from assms show "distinct es" "es \<noteq> []"
    by (auto simp: new_tournament_def idsUnique_iff ids_distinct split: if_splits)
  have "round_robin_build es 1 = Inr (rr_matches es 1)" by (simp add: round_robin_build_def)
  then have v: "map snd (load_matches (rr_matches es 1) []) = rr_matches es 1"
    by (rule round_robin.build_values)
  from assms have t: "t = recomputeComplete ((empty_tournament RoundRobin es)
      \<lparr>t_nextId := 1 + int (length (rr_matches es 1)), t_matchMap := load_matches (rr_matches es 1) []\<rparr>)"
    by (simp add: new_tournament_def Let_def rr_matches_def split: if_splits)
  show "map snd (t_matchMap t) = rr_matches es 1" "t_format t = RoundRobin"
    "t_complete t = compute_complete t"
    by (simp_all add: t v)
qed


lemma card_pairs: "finite S \<Longrightarrow> card {{a, b} | a b. a \<in> S \<and> b \<in> S \<and> a \<noteq> b} = card S choose 2"
proof -
  assume "finite S"
  moreover have "{{a, b} | a b. a \<in> S \<and> b \<in> S \<and> a \<noteq> b} = {B. B \<subseteq> S \<and> card B = 2}"
    by (auto simp: card_2_iff)
  ultimately show ?thesis by (simp add: n_subsets)
qed

lemma rr_count:
  assumes "es \<noteq> []" "distinct es"
  shows "length (rr_matches es s) = length es choose 2"
proof -
  have "length (rr_matches es s) = card (set (map sides_of (rr_matches es s)))"
    using distinct_card [OF rr_distinct [OF assms, of s]] by simp
  also have "set (map sides_of (rr_matches es s)) = {{a, b} | a b. a \<in> set es \<and> b \<in> set es \<and> a \<noteq> b}"
    using rr_covers [OF assms, of s] by simp
  finally show ?thesis using card_pairs [of "set es"] assms(2) by (simp add: distinct_card)
qed

definition full_sides :: "match_map \<Rightarrow> bool" where
  "full_sides mm \<longleftrightarrow> (\<forall>(k, m) \<in> set mm. m_a m \<noteq> None \<and> m_b m \<noteq> None)"

lemma full_sides_set_outcome: "full_sides mm \<Longrightarrow> full_sides (AList.map_entry i (set_outcome out) mm)"
  by (induction mm) (auto simp: full_sides_def)

definition league_inv :: "entrant list \<Rightarrow> nat \<Rightarrow> tournament \<Rightarrow> bool" where
  "league_inv es n t \<longleftrightarrow> t_format t = RoundRobin \<and> t_complete t = compute_complete t \<and>
     length (t_matchMap t) = length es choose 2 \<and> decided (t_matchMap t) = n \<and> full_sides (t_matchMap t)"

lemma league_new:
  assumes "new_tournament RoundRobin es = Inr t"
  shows "league_inv es 0 t"
proof -
  note new = rr_new [OF assms]
  have len: "length (t_matchMap t) = length es choose 2"
    using arg_cong [OF new(3), of length] rr_count [OF new(2,1)] by simp
  have full: "m_a m \<noteq> None \<and> m_b m \<noteq> None \<and> m_outcome m = None" if "m \<in> snd ` set (t_matchMap t)" for m
  proof -
    have mem: "m \<in> set (rr_matches es 1)" using that by (simp flip: new(3))
    then have "match_sides m \<in> set (map match_sides (rr_matches es 1))" by simp
    then have "match_sides m \<in> set (map both_some (List.map_filter (game es) (rr_grid es)))"
      by (simp only: rr_matches_games [OF new(2)])
    then show ?thesis
      using round_robin.build_undecided [of es 1 _ m] mem
      by (auto simp: match_sides_def both_some_def round_robin_build_def)
  qed
  then have "filter (\<lambda>x. x \<noteq> None) (outcomes (t_matchMap t)) = []"
    by (force simp: outcomes_def filter_empty_conv)
  then have "decided (t_matchMap t) = 0" by (simp add: decided_def)
  moreover have "full_sides (t_matchMap t)" using full by (force simp: full_sides_def)
  ultimately show ?thesis using len new(4,5) by (simp add: league_inv_def)
qed

lemma league_record:
  assumes "league_inv es n t" "record_result i out t = Inr t'"
  shows "league_inv es (n + 1) t'"
proof -
  let ?mm = "AList.map_entry i (set_outcome out) (t_matchMap t)"
  from assms obtain m where m: "map_of (t_matchMap t) i = Some m" "isReady m"
    and t': "t' = recomputeComplete (t\<lparr>t_matchMap := ?mm\<rparr>)"
    by (auto simp: record_result_Inr league_inv_def advance_def)
  have "decided ?mm = decided (t_matchMap t) + 1"
    by (rule decided_set_outcome [OF m(1)]) (use m(2) in \<open>simp add: isReady_def\<close>)
  moreover have "full_sides ?mm"
    using assms(1) by (intro full_sides_set_outcome) (simp add: league_inv_def)
  ultimately show ?thesis using assms(1) by (simp add: league_inv_def t')
qed

lemma league_replay: "league_inv es n t \<Longrightarrow> replay rs t = Inr t' \<Longrightarrow> league_inv es (n + length rs) t'"
proof (induction rs arbitrary: t n)
  case (Cons r rs)
  obtain i out where r: "r = (i, out)" by force
  with Cons.prems(2) obtain t1 where t1: "record_result i out t = Inr t1" "replay rs t1 = Inr t'"
    by (auto simp: bind_result_eq_Inr)
  from Cons.IH [OF league_record [OF Cons.prems(1) t1(1)] t1(2)] show ?case by simp
qed simp

lemma decided_le_length: "decided mm \<le> length mm"
  unfolding decided_def by (metis length_filter_le length_map outcomes_def)

lemma all_decided_iff: "list_all (\<lambda>m. m_outcome m \<noteq> None) (map snd mm) \<longleftrightarrow> decided mm = length mm"
proof (induction mm)
  case (Cons p mm)
  have "decided (p # mm) = (if m_outcome (snd p) \<noteq> None then 1 else 0) + decided mm"
    by (simp add: decided_def outcomes_def case_prod_unfold)
  with Cons decided_le_length [of mm] show ?case by auto
qed (simp add: decided_def outcomes_def)

lemma league_complete:
  assumes "league_inv es n t" "2 \<le> length es"
  shows "isComplete t \<longleftrightarrow> n = length es choose 2" "n \<le> length es choose 2"
    "\<not> isComplete t \<Longrightarrow> pending t \<noteq> []"
proof -
  have pos: "0 < length es choose 2" using assms(2) by (simp add: zero_less_binomial)
  have "isComplete t \<longleftrightarrow> 0 < length (t_matchMap t) \<and> list_all (\<lambda>m. m_outcome m \<noteq> None) (matches t)"
    using assms(1) by (simp add: isComplete_def league_inv_def compute_complete_def)
  also have "list_all (\<lambda>m. m_outcome m \<noteq> None) (matches t) \<longleftrightarrow> decided (t_matchMap t) = length (t_matchMap t)"
    unfolding all_decided_iff [symmetric] by (simp add: matches_def list_all_iff)
  finally show "isComplete t \<longleftrightarrow> n = length es choose 2" using assms(1) pos by (auto simp: league_inv_def)
  show "n \<le> length es choose 2"
    using decided_le_length [of "t_matchMap t"] assms(1) by (simp add: league_inv_def)
  assume "\<not> isComplete t"
  then obtain m where "m \<in> set (matches t)" "m_outcome m = None"
    using pos assms(1) by (auto simp: isComplete_def league_inv_def compute_complete_def list_all_iff)
  moreover then have "isReady m" using assms(1) by (auto simp: isReady_def league_inv_def full_sides_def matches_def)
  ultimately show "pending t \<noteq> []" by (auto simp: pending_def filter_empty_conv)
qed

text \<open>A round robin of \<open>n\<close> entrants is complete exactly when \<open>n (n - 1) / 2\<close> results have been
  recorded (void ones included), never accepts more, and until then some match is pending.\<close>

theorem round_robin_complete_iff:
  assumes "new_tournament RoundRobin es = Inr t0" "replay rs t0 = Inr t"
  shows "(isComplete t \<longleftrightarrow> length rs = length es choose 2) \<and> length rs \<le> length es choose 2 \<and>
    (\<not> isComplete t \<longrightarrow> pending t \<noteq> [])"
proof -
  have "2 \<le> length es" using assms(1) by (auto simp: new_tournament_def split: if_splits)
  moreover have "league_inv es (length rs) t" using league_replay [OF league_new [OF assms(1)] assms(2)] by simp
  ultimately show ?thesis using league_complete by blast
qed

definition demo_league0 :: tournament where
  "demo_league0 = projr (new_tournament RoundRobin (take 3 demo_field))"

lemma demo_league0: "new_tournament RoundRobin (take 3 demo_field) = Inr demo_league0"
proof -
  have "\<not> isl (new_tournament RoundRobin (take 3 demo_field))" by code_simp
  then show ?thesis unfolding demo_league0_def by (rule sum.collapse(2) [symmetric])
qed

theorem round_robin_complete_iff_witness:
  "isComplete (projr (replay [(1, OutA), (2, OutDraw), (3, OutVoid)] demo_league0))"
proof -
  let ?rs = "[(1, OutA), (2, OutDraw), (3, OutVoid)]"
  have "\<not> isl (replay ?rs demo_league0)" by code_simp
  then have "replay ?rs demo_league0 = Inr (projr (replay ?rs demo_league0))"
    by (rule sum.collapse(2) [symmetric])
  from round_robin_complete_iff [OF demo_league0 this] show ?thesis
    by (simp add: demo_field_length choose_two)
qed

section \<open>Swiss properties\<close>

lemma distinct_matches_sides:
  assumes "distinct (map sides_of (map snd (t_matchMap t)))"
  shows "distinct (map sides_of (matches t))"
proof -
  have "mset (map sides_of (matches t)) = mset (map sides_of (map snd (t_matchMap t)))"
    by (simp only: matches_def mset_map mset_sort)
  with assms show ?thesis by (metis mset_eq_imp_distinct_iff)
qed

lemma swiss_inv_games:
  assumes "swiss_inv n es t"
  shows "distinct (map sides_of (map snd (t_matchMap t)))"
    and "m \<in> set (matches t) \<Longrightarrow> \<exists>a b. m_a m = Some a \<and> m_b m = Some b \<and> a \<noteq> b"
    and "m1 \<in> set (matches t) \<Longrightarrow> m2 \<in> set (matches t) \<Longrightarrow> m_round m1 = m_round m2 \<Longrightarrow>
      m_id m1 \<noteq> m_id m2 \<Longrightarrow> sides_of m1 \<inter> sides_of m2 = {}"
proof -
  from assms obtain entries where g: "swiss_games entries (game_rows t)" by (auto simp: swiss_inv_def)
  then have "distinct (map row_sides (game_rows t))" by (simp add: swiss_games_def)
  then show "distinct (map sides_of (map snd (t_matchMap t)))" by (simp add: game_rows_def comp_def)
  have row: "game_row m \<in> set (game_rows t)" if "m \<in> set (matches t)" for m
    using that by (force simp: game_rows_def matches_def)
  show "\<exists>a b. m_a m = Some a \<and> m_b m = Some b \<and> a \<noteq> b" if "m \<in> set (matches t)"
    using g row [OF that] by (fastforce simp: swiss_games_def fair_row_def game_row_def)
  show "sides_of m1 \<inter> sides_of m2 = {}" if "m1 \<in> set (matches t)" "m2 \<in> set (matches t)"
    "m_round m1 = m_round m2" "m_id m1 \<noteq> m_id m2"
  proof -
    have "game_row m1 \<noteq> game_row m2" using that(4) by (simp add: game_row_def)
    moreover have "row_round (game_row m1) = row_round (game_row m2)" using that(3) by simp
    ultimately have "row_sides (game_row m1) \<inter> row_sides (game_row m2) = {}"
      using g row [OF that(1)] row [OF that(2)] unfolding swiss_games_def by blast
    then show ?thesis by simp
  qed
qed

text \<open>C10. A Swiss tournament never pairs the same two entrants twice, and never pairs an entrant
  with itself or with nobody.\<close>

theorem swiss_no_rematch:
  assumes "reachable (Swiss n) es t"
  shows "distinct (map sides_of (matches t)) \<and>
    (\<forall>m \<in> set (matches t). \<exists>a b. m_a m = Some a \<and> m_b m = Some b \<and> a \<noteq> b)"
  using swiss_inv_games(1,2) [OF swiss_reachable [OF assms]] distinct_matches_sides by blast

definition demo_swiss0 :: tournament where
  "demo_swiss0 = projr (new_tournament (Swiss 2) demo_field)"

lemma demo_swiss0: "new_tournament (Swiss 2) demo_field = Inr demo_swiss0"
proof -
  have "\<not> isl (new_tournament (Swiss 2) demo_field)" by code_simp
  then show ?thesis unfolding demo_swiss0_def by (rule sum.collapse(2) [symmetric])
qed

theorem swiss_no_rematch_witness: "distinct (map sides_of (matches demo_swiss0))"
  using swiss_no_rematch [OF created [OF demo_swiss0]] by blast

text \<open>In every round of a Swiss tournament each entrant is paired at most once.\<close>

theorem swiss_once_per_round:
  assumes "reachable (Swiss n) es t" "m1 \<in> set (matches t)" "m2 \<in> set (matches t)"
    and "m_round m1 = m_round m2" "m_id m1 \<noteq> m_id m2"
  shows "sides_of m1 \<inter> sides_of m2 = {}"
  by (rule swiss_inv_games(3) [OF swiss_reachable [OF assms(1)] assms(2-5)])

theorem swiss_once_per_round_witness:
  "sides_of (the (map_of (t_matchMap demo_swiss0) 1)) \<inter> sides_of (the (map_of (t_matchMap demo_swiss0) 2)) = {}"
proof -
  let ?m = "\<lambda>i. the (map_of (t_matchMap demo_swiss0) i)"
  have "?m 1 \<in> set (matches demo_swiss0)" "?m 2 \<in> set (matches demo_swiss0)"
    "m_round (?m 1) = m_round (?m 2)" "m_id (?m 1) \<noteq> m_id (?m 2)" by code_simp+
  then show ?thesis by (rule swiss_once_per_round [OF created [OF demo_swiss0]])
qed

text \<open>The pairing of a round is greedy to the end: two entries it leaves without a game have
  met before.\<close>

theorem swiss_pairing_maximal:
  assumes "i < length entries" "j < length entries" "i \<noteq> j"
    and "entry_id entries i \<notin> set (pair_ids (fst (pairSwissRound entries s)))"
    and "entry_id entries j \<notin> set (pair_ids (fst (pairSwissRound entries s)))"
  shows "entry_id entries j \<in> se_played (entries ! i)"
  using assms by (rule pairSwissRound_maximal)

theorem swiss_pairing_maximal_witness:
  "entry_id (snd (pairSwissRound (map SwissEntry (take 2 demo_field)) 1)) 1 \<in>
     se_played (snd (pairSwissRound (map SwissEntry (take 2 demo_field)) 1) ! 0)"
proof -
  let ?es = "snd (pairSwissRound (map SwissEntry (take 2 demo_field)) 1)"
  have "0 < length ?es" "1 < length ?es" "(0::nat) \<noteq> 1"
    "entry_id ?es 0 \<notin> set (pair_ids (fst (pairSwissRound ?es 2)))"
    "entry_id ?es 1 \<notin> set (pair_ids (fst (pairSwissRound ?es 2)))" by code_simp+
  then show ?thesis by (rule swiss_pairing_maximal)
qed

text \<open>A negative number of rounds is accepted by the factory.\<close>

lemma complete_rounds:
  assumes "driver_inv (Swiss n) es t" "t_complete t \<longrightarrow> 0 < n"
  shows "t_complete (advance t) \<longrightarrow> 0 < n"
proof -
  have "compute_complete t' \<Longrightarrow> t_format t' = Swiss n \<Longrightarrow> 0 < n" for t'
    by (auto simp: compute_complete_def Let_def)
  moreover have "t_format t = Swiss n" "t_format (advance t) = Swiss n"
    using assms(1) driver_inv_advance [OF assms(1)] by (simp_all add: driver_inv_def)
  ultimately show ?thesis
    using assms(2) by (auto simp: advance_def Let_def split: if_splits)
qed

text \<open>The factory accepts a negative number of Swiss rounds, and such a tournament never
  completes.\<close>

theorem swiss_negative_rounds:
  assumes "reachable (Swiss n) es t" "n < 0"
  shows "\<not> isComplete t"
proof -
  have "t_complete t \<longrightarrow> 0 < n"
    using assms(1)
  proof (induction rule: reachable.induct)
    case (created t)
    then show ?case
      using swiss_inv_new(4) [OF created] reachable_inv [OF reachable.created [OF created]]
      by (auto simp: compute_complete_def driver_inv_def Let_def)
  next
    case (recorded t i out t')
    let ?t = "t\<lparr>t_matchMap := AList.map_entry i (set_outcome out) (t_matchMap t)\<rparr>"
    have "driver_inv (Swiss n) es ?t"
      using reachable_inv [OF recorded(1)] by (intro driver_inv_matchMap)
        (simp_all add: keeps driver_inv_def sides_within_set_outcome)
    from complete_rounds [OF this] recorded show ?case by (auto simp: record_result_Inr)
  next
    case (advanced t)
    show ?case by (rule complete_rounds [OF reachable_inv [OF advanced(1)] advanced(2)])
  qed
  with assms(2) show ?thesis by (simp add: isComplete_def)
qed

theorem swiss_negative_rounds_witness: "\<not> isComplete (projr (new_tournament (Swiss (- 1)) demo_field))"
proof -
  have "\<not> isl (new_tournament (Swiss (- 1)) demo_field)" by code_simp
  then have "new_tournament (Swiss (- 1)) demo_field = Inr (projr (new_tournament (Swiss (- 1)) demo_field))"
    by (rule sum.collapse(2) [symmetric])
  from swiss_negative_rounds [OF created [OF this]] show ?thesis by simp
qed

lemma two_entrants_one_match:
  assumes "reachable (Swiss n) es t" "length es = 2"
    and "m1 \<in> set (matches t)" "m2 \<in> set (matches t)"
  shows "m1 = m2"
proof -
  note inv = swiss_reachable [OF assms(1)]
  have within: "sides_of m \<subseteq> set es" if "m \<in> set (matches t)" for m
    using that inv by (force simp: swiss_inv_def driver_inv_def sides_within_def matches_def)
  have all: "sides_of m = set es" if m: "m \<in> set (matches t)" for m
  proof (rule card_subset_eq)
    obtain a b where "m_a m = Some a" "m_b m = Some b" "a \<noteq> b" using swiss_inv_games(2) [OF inv m] by blast
    then have "card (sides_of m) = 2" by (auto simp: sides_of_def)
    moreover have "card (set es) \<le> 2" using assms(2) card_length [of es] by simp
    moreover have "card (sides_of m) \<le> card (set es)" using within [OF m] by (simp add: card_mono)
    ultimately show "card (sides_of m) = card (set es)" by simp
  qed (use within [OF m] in simp_all)
  have "distinct (map sides_of (matches t))" by (rule distinct_matches_sides [OF swiss_inv_games(1) [OF inv]])
  then have "inj_on sides_of (set (matches t))" by (simp add: distinct_map)
  then show ?thesis using all [OF assms(3)] all [OF assms(4)] assms(3,4) by (auto dest: inj_onD)
qed

text \<open>Two entrants can play one Swiss round. With three rounds or more (three is what the
  application asks for when the organizer gives none) the second round comes out empty: after
  the first result nothing is pending, and the tournament is not complete.\<close>

theorem swiss_two_entrants_stuck:
  assumes "new_tournament (Swiss n) es = Inr t0" "length es = 2" "3 \<le> n" "record_result i out t0 = Inr t"
  shows "pending t = [] \<and> \<not> isComplete t"
proof -
  let ?t1 = "t0\<lparr>t_matchMap := AList.map_entry i (set_outcome out) (t_matchMap t0)\<rparr>"
  note r0 = created [OF assms(1)]
  note r = recorded [OF r0 assms(4)]
  note grow = grows_record [OF reachable_inv [OF r0] assms(4)]
  from grow(2) obtain m where m: "map_of (t_matchMap t) i = Some m" "m_outcome m = Some out"
    by (auto simp: outcome_of_def split: option.splits)
  have mem: "m \<in> set (matches t)"
    using m(1) map_of_snd_in by (fastforce simp: matches_def)
  have "\<not> isReady m'" if "m' \<in> set (matches t)" for m'
    using two_entrants_one_match [OF r assms(2) that mem] m(2) by (simp add: isReady_def)
  then have pend: "pending t = []" by (simp add: pending_def filter_empty_conv)
  have t: "t = advance ?t1" using assms(4) by (auto simp: record_result_Inr)
  have closed: "\<not> swissRoundOpen ?t1"
  proof
    assume "swissRoundOpen ?t1"
    then obtain key m1 where m1: "(key, m1) \<in> set (AList.map_entry i (set_outcome out) (t_matchMap t0))"
      "m_outcome m1 = None" by (auto simp: swissRoundOpen_def)
    have k: "keyed (t_matchMap t0)" using reachable_inv [OF r0] by (simp add: driver_inv_def)
    then have "map_of (AList.map_entry i (set_outcome out) (t_matchMap t0)) key = Some m1"
      using m1(1) by (simp add: keyed_distinct)
    then have old: "map_of (t_matchMap t0) key = Some m1" "key \<noteq> i"
      using m1(2) by (auto simp: map_of_map_entry split: if_splits)
    obtain m0 where m0: "map_of (t_matchMap t0) i = Some m0" using assms(4) by (auto simp: record_result_Inr)
    have "m1 = m0"
      by (rule two_entrants_one_match [OF r0 assms(2)])
        (use old(1) m0 map_of_snd_in in \<open>fastforce simp: matches_def\<close>)+
    with keyed_id [OF k old(1)] keyed_id [OF k m0] old(2) show False by simp
  qed
  have fmt: "t_format t0 = Swiss n" using reachable_inv [OF r0] by (simp add: driver_inv_def)
  have "t_swissRound t0 = 0" by (rule swiss_inv_new(3) [OF assms(1)])
  then have "t_swissRound t = 1" "t_complete t = compute_complete t" "t_format t = Swiss n"
    using fmt assms(3) closed
    by (simp_all add: t advance_def Let_def pair_round_def applySwissResults_def split: option.split prod.split)
  with assms(3) pend show ?thesis by (simp add: isComplete_def compute_complete_def Let_def)
qed

definition demo_two0 :: tournament where
  "demo_two0 = projr (new_tournament (Swiss 3) (take 2 demo_field))"

lemma demo_two0: "new_tournament (Swiss 3) (take 2 demo_field) = Inr demo_two0"
proof -
  have "\<not> isl (new_tournament (Swiss 3) (take 2 demo_field))" by code_simp
  then show ?thesis unfolding demo_two0_def by (rule sum.collapse(2) [symmetric])
qed

theorem swiss_two_entrants_stuck_witness:
  "pending (projr (record_result 1 OutA demo_two0)) = [] \<and> \<not> isComplete (projr (record_result 1 OutA demo_two0))"
proof -
  have len: "length (take 2 demo_field) = 2" by code_simp
  have "\<not> isl (record_result 1 OutA demo_two0)" by code_simp
  then have r: "record_result 1 OutA demo_two0 = Inr (projr (record_result 1 OutA demo_two0))"
    by (rule sum.collapse(2) [symmetric])
  show ?thesis by (rule swiss_two_entrants_stuck [OF demo_two0 len _ r]) simp
qed

end
