(* ===== verification/Seeded.thy ===== *)
theory Seeded
  imports Cup
begin

text \<open>
  Cups played by seed: the helpers of the engine's test suite \<open>engine/__tests__/engine.test.ts\<close>, and the
  general form of what its tests check for fields of 2 to 64 entrants: when the better seed wins every
  match, the cup is played to its end and the top seed is the champion.
\<close>

section \<open>The helpers of the tests\<close>

definition seeds :: "nat \<Rightarrow> entrant list" where
  "seeds n = map (\<lambda>i. \<lparr>ent_id = int i + 1, ent_seed = int i + 1\<rparr>) [0..<n]"

definition higherSeedWins :: "bracket_match \<Rightarrow> outcome engine" where
  "higherSeedWins m =
     (case (m_a m, m_b m) of
        (Some a, Some b) \<Rightarrow> Inr (if ent_seed a \<le> ent_seed b then OutA else OutB)
      | _ \<Rightarrow> Inl TypeError)"

definition play_id :: "match_id \<Rightarrow> tournament \<Rightarrow> tournament engine" where
  "play_id i t =
     (case List.find (\<lambda>m. m_id m = i) (matches t) of
        None \<Rightarrow> Inr t
      | Some m \<Rightarrow> if m_outcome m \<noteq> None then Inr t else bind_result (higherSeedWins m) (\<lambda>out. record_result i out t))"

text \<open>\<open>guard\<close> counts down.\<close>

fun playToCompletion :: "nat \<Rightarrow> tournament \<Rightarrow> tournament engine" where
  "playToCompletion 0 t = Inr t"
| "playToCompletion (Suc guard) t =
     (if isComplete t then Inr t
      else if pending t = []
      then (let t1 = advance t in if pending t1 = [] \<and> \<not> isComplete t1 then Inr t1 else playToCompletion guard t1)
      else bind_result (fold_result play_id (pending t) t) (playToCompletion guard))"

section \<open>The top seed is never beaten\<close>

definition top_seed :: "entrant list \<Rightarrow> entrant \<Rightarrow> bool" where
  "top_seed es best \<longleftrightarrow> best \<in> set es \<and> (\<forall>e \<in> set es. e \<noteq> best \<longrightarrow> ent_seed best < ent_seed e)"

definition unbeaten :: "entrant \<Rightarrow> match_map \<Rightarrow> bool" where
  "unbeaten best mm \<longleftrightarrow> (\<forall>(key, m) \<in> set mm. matchLoser m \<noteq> Some best)"

text \<open>In a match of two different entrants the top seed does not lose.\<close>

lemma higher_seed_safe:
  assumes "top_seed es best" "m_a m = Some a" "m_b m = Some b" "a \<in> set es" "b \<in> set es" "a \<noteq> b"
    "m_outcome m = Some out" "higherSeedWins m = Inr out"
  shows "matchLoser m \<noteq> Some best"
  using assms by (auto simp: matchLoser_def higherSeedWins_def matchSide_def top_seed_def split: if_splits)

definition seeded_state :: "nat \<Rightarrow> entrant list \<Rightarrow> entrant \<Rightarrow> nat \<Rightarrow> tournament \<Rightarrow> bool" where
  "seeded_state k es best n t \<longleftrightarrow> reachable SingleElimination es t \<and> cup_inv k es n t \<and> distinct (map ent_id es) \<and>
     void_free (t_matchMap t) \<and> unbeaten best (t_matchMap t)"

lemma side_member:
  assumes "se_inv k es mm" "se_valid k r i" "matchSide (node mm k r i) s = Some e"
  shows "e \<in> set es"
proof -
  obtain x where "seat k es x = Some e" using assms by (rule way_up)
  then obtain y where "y < length (sort_key ent_seed es)" "e = sort_key ent_seed es ! y" by (auto simp: seat_def split: if_splits)
  then have "e \<in> set (sort_key ent_seed es)" using nth_mem by blast
  then show ?thesis by simp
qed

lemma record_outcomes:
  assumes "cup_inv k es n t" "record_result i out t = Inr t'" "map_of (t_matchMap t) i = Some m"
  shows "outcome_at (t_matchMap t') = (outcome_at (t_matchMap t))(i \<mapsto> out)"
proof -
  note step = cup_inv_record [OF assms(1,2)]
  have "se_shape k (t_matchMap t)" "se_shape k (t_matchMap t')"
    using assms(1) step(1) by (simp_all add: cup_inv_def se_inv_def)
  then have "map fst (t_matchMap t') = map fst (AList.map_entry i (set_outcome out) (t_matchMap t))"
    by (simp add: shape_keys)
  then show ?thesis using outcome_at_zip [OF _ step(2)] outcome_at_set_outcome [OF assms(3)] by simp
qed

lemma decided_sides_fixed:
  assumes "se_inv k es mm" "se_inv k es mm'" "grows mm mm'" "se_valid k r i" "m_outcome (node mm k r i) \<noteq> None"
  shows "matchSide (node mm' k r i) s = matchSide (node mm k r i) s"
proof (cases "matchSide (node mm k r i) s")
  case (Some e)
  have "refines (node mm k r i) (node mm' k r i)"
    using assms(3) shape_node(1) [OF se_inv_shape [OF assms(1)] assms(4)] shape_node(1) [OF se_inv_shape [OF assms(2)] assms(4)]
    by (fastforce simp: grows_def)
  with Some show ?thesis by (simp add: refines_def)
next
  case None
  then have bye: "r = 0" "m_b (node mm k r i) = None"
    using node_okD(4) [OF se_inv_node [OF assms(1,4)] assms(5)] by (metis option.distinct(1))+
  note here = node_okD(1,2) [OF se_inv_node [OF assms(1,4)] bye(1)] and there = node_okD(1,2) [OF se_inv_node [OF assms(2,4)] bye(1)]
  show ?thesis using here there by (cases s) simp_all
qed

lemma unbeaten_record:
  assumes best: "top_seed es best" and st: "seeded_state k es best n t"
    and m: "map_of (t_matchMap t) i = Some m" "isReady m" "higherSeedWins m = Inr o1" and rec: "record_result i o1 t = Inr t'"
  shows "unbeaten best (t_matchMap t')"
  unfolding unbeaten_def
proof (intro ballI, clarify)
  let ?mm = "t_matchMap t" and ?mm' = "t_matchMap t'"
  have inv: "cup_inv k es n t" "cup_inv k es (n + 1) t'" using st cup_inv_record(1) [OF _ rec] by (simp_all add: seeded_state_def)
  then have se: "se_inv k es ?mm" "se_inv k es ?mm'" "seated k es" by (simp_all add: cup_inv_def)
  have drv: "driver_inv SingleElimination es t" using st by (simp add: seeded_state_def reachable_inv)
  note g = grows_record(1) [OF drv rec]
  fix key m' assume mem: "(key, m') \<in> set ?mm'" and lost: "matchLoser m' = Some best"
  obtain r j where rj: "se_valid k r j" "key = nid k r j" "m' = node ?mm' k r j"
    using se_inv_shape [OF se(2)] mem by (rule shape_entry)
  note here = shape_node(1) [OF se_inv_shape [OF se(1)] rj(1)] and there = shape_node(1) [OF se_inv_shape [OF se(2)] rj(1)]
  from lost obtain out s where out: "m_outcome m' = Some out" "loserSideOf out = Some s" "matchSide m' s = Some best"
    by (auto simp: matchLoser_def split: option.splits)
  have at: "((outcome_at ?mm)(i \<mapsto> o1)) key = Some out"
  proof -
    have "outcome_at ?mm' key = Some out" using there out(1) rj by (simp add: outcome_at_def)
    then show ?thesis unfolding record_outcomes [OF inv(1) rec m(1)] .
  qed
  show False
  proof (cases "key = i")
    case True
    with here m(1) rj(2) have node: "m = node ?mm k r j" by simp
    obtain a b where ab: "m_a m = Some a" "m_b m = Some b" using m(2) by (auto simp: isReady_def)
    have "refines m m'" using g here there node rj by (fastforce simp: grows_def)
    then have ab': "m_a m' = Some a" "m_b m' = Some b" using ab by (auto simp: refines_def matchSide_def split: side.splits)
    have sides: "matchSide m SideA = Some a" "matchSide m SideB = Some b" using ab by simp_all
    then have "a \<in> set es" "b \<in> set es" using side_member [OF se(1) rj(1)] node by blast+
    moreover have "a \<noteq> b"
      using sides_differ [OF se(1,3) ids_distinct rj(1), of SideA a SideB] sides st node by (auto simp: seeded_state_def)
    moreover have "m_outcome m' = Some o1" "higherSeedWins m' = Inr o1" using at True out(1) ab ab' m(3) by (simp_all add: higherSeedWins_def)
    ultimately show False using higher_seed_safe [OF best ab'] lost by blast
  next
    case False
    then have old: "m_outcome (node ?mm k r j) = Some out" using at here rj(2) by (simp add: outcome_at_def)
    with decided_sides_fixed [OF se(1,2) g rj(1)] out(3) rj(3) have "matchSide (node ?mm k r j) s = Some best" by simp
    with old out(2) have "matchLoser (node ?mm k r j) = Some best" by (simp add: matchLoser_def)
    moreover have "(key, node ?mm k r j) \<in> set ?mm" using here rj(2) by (simp add: map_of_SomeD)
    ultimately show False using st by (auto simp: seeded_state_def unbeaten_def)
  qed
qed


lemma distinct_pending:
  assumes "reachable fmt es t"
  shows "distinct (pending t)"
proof -
  have k: "keyed (t_matchMap t)" using reachable_inv [OF assms] by (simp add: driver_inv_def)
  have "map m_id (map snd (t_matchMap t)) = map fst (t_matchMap t)"
    using keyed_id [OF k] by (auto simp: case_prod_unfold keyed_map_of [OF k])
  moreover have "distinct (map fst (t_matchMap t))" using k by (rule keyed_distinct)
  ultimately have "distinct (map m_id (map snd (t_matchMap t)))" by (simp del: map_map)
  moreover have "distinct (map m_id xs) \<Longrightarrow> distinct (map m_id (sort_key m_id xs))" for xs :: "bracket_match list"
    by (simp add: distinct_map)
  ultimately have "distinct (map m_id (matches t))" by (simp only: matches_def)
  then show ?thesis by (auto simp: pending_def distinct_map intro: inj_on_subset)
qed

lemma play_id_step:
  assumes best: "top_seed es best" and st: "seeded_state k es best n t" and i: "i \<in> set (pending t)"
  obtains t' where "play_id i t = Inr t'" "seeded_state k es best (n + 1) t'"
    "\<And>j. j \<in> set (pending t) \<Longrightarrow> j \<noteq> i \<Longrightarrow> j \<in> set (pending t')"
proof -
  have rch: "reachable SingleElimination es t" and inv: "cup_inv k es n t" and vf: "void_free (t_matchMap t)"
    using st by (simp_all add: seeded_state_def)
  obtain m where m: "map_of (t_matchMap t) i = Some m" "isReady m" using i pending_iff [OF rch] by auto
  have k: "keyed (t_matchMap t)" using reachable_inv [OF rch] by (simp add: driver_inv_def)
  have id: "m_id m = i" by (rule keyed_id [OF k m(1)])
  have "m \<in> set (matches t)" using reachable_matches [OF rch] m(1) id by simp
  then obtain m2 where m2: "List.find (\<lambda>m. m_id m = i) (matches t) = Some m2"
    using id by (cases "List.find (\<lambda>m. m_id m = i) (matches t)") (auto simp: find_None_iff)
  then have "m2 \<in> set (matches t)" "m_id m2 = i" by (auto simp: find_Some_iff)
  then have "m2 = m" using reachable_matches [OF rch] m(1) by simp
  moreover obtain o1 where o1: "higherSeedWins m = Inr o1" "o1 \<in> {OutA, OutB}"
    using m(2) by (cases "m_a m"; cases "m_b m") (auto simp: isReady_def higherSeedWins_def)
  ultimately have play: "play_id i t = record_result i o1 t" using m2 m(2) by (simp add: play_id_def isReady_def)
  have "t_format t = SingleElimination" using inv by (simp add: cup_inv_def)
  then obtain t' where rec: "record_result i o1 t = Inr t'" using m o1(2) by (auto simp: record_result_def)
  note step = cup_inv_record [OF inv rec]
  have "void_free (t_matchMap t')" using void_free_set_outcome [OF vf o1(2)] step(2) by (simp add: void_free_def)
  moreover have "unbeaten best (t_matchMap t')" by (rule unbeaten_record [OF best st m o1(1) rec])
  moreover have rch': "reachable SingleElimination es t'" using rch rec by (rule reachable.recorded)
  ultimately have st': "seeded_state k es best (n + 1) t'" using step(1) st by (simp add: seeded_state_def)
  have "j \<in> set (pending t')" if j: "j \<in> set (pending t)" "j \<noteq> i" for j
  proof -
    obtain mj where mj: "map_of (t_matchMap t) j = Some mj" "isReady mj" using j(1) pending_iff [OF rch] by auto
    then obtain mj' where mj': "map_of (t_matchMap t') j = Some mj'" "refines mj mj'"
      using grows_record(1) [OF reachable_inv [OF rch] rec] by (auto simp: grows_def)
    have "outcome_at (t_matchMap t') j = outcome_at (t_matchMap t) j" using record_outcomes [OF inv rec m(1)] j(2) by simp
    then have "m_outcome mj' = None" using mj mj'(1) by (simp add: outcome_at_def isReady_def)
    moreover have "matchSide mj' s \<noteq> None" for s
    proof -
      obtain e where "matchSide mj s = Some e" using mj(2) by (cases s) (auto simp: isReady_def)
      then show ?thesis using mj'(2) by (simp add: refines_def)
    qed
    from this [of SideA] this [of SideB] have "m_a mj' \<noteq> None" "m_b mj' \<noteq> None" by simp_all
    ultimately have "isReady mj'" by (simp add: isReady_def)
    with mj'(1) pending_iff [OF rch'] show ?thesis by blast
  qed
  with that play rec st' show thesis by simp
qed

lemma play_batch:
  assumes "top_seed es best"
  shows "seeded_state k es best n t \<Longrightarrow> distinct ids \<Longrightarrow> set ids \<subseteq> set (pending t) \<Longrightarrow>
    \<exists>t'. fold_result play_id ids t = Inr t' \<and> seeded_state k es best (n + length ids) t'"
proof (induction ids arbitrary: n t)
  case (Cons i ids)
  then obtain t1 where t1: "play_id i t = Inr t1" "seeded_state k es best (n + 1) t1"
    "\<And>j. j \<in> set (pending t) \<Longrightarrow> j \<noteq> i \<Longrightarrow> j \<in> set (pending t1)"
    using play_id_step [OF assms Cons.prems(1), of i] by auto
  have "set ids \<subseteq> set (pending t1)" using Cons.prems(2,3) t1(3) by auto
  with Cons.IH [OF t1(2)] Cons.prems(2) t1(1) show ?case by simp
qed simp

lemma play_all:
  assumes "top_seed es best"
  shows "seeded_state k es best n t \<Longrightarrow> length es \<le> n + guard + 1 \<Longrightarrow>
    \<exists>t' n'. playToCompletion guard t = Inr t' \<and> seeded_state k es best n' t' \<and> isComplete t'"
proof (induction guard arbitrary: n t)
  case 0
  then show ?case using cup_complete_count [of k es n t] by (auto simp: seeded_state_def)
next
  case (Suc guard)
  show ?case
  proof (cases "isComplete t")
    case True
    with Suc.prems show ?thesis by auto
  next
    case False
    have st: "reachable SingleElimination es t" "cup_inv k es n t" "void_free (t_matchMap t)"
      using Suc.prems(1) by (simp_all add: seeded_state_def)
    have some: "pending t \<noteq> []" by (rule cup_progress [OF st(2,3) False])
    obtain t1 where t1: "fold_result play_id (pending t) t = Inr t1" "seeded_state k es best (n + length (pending t)) t1"
      using play_batch [OF assms Suc.prems(1) distinct_pending [OF st(1)]] by blast
    have "length (pending t) \<ge> 1" using some by (cases "pending t") simp_all
    then have "length es \<le> n + length (pending t) + guard + 1" using Suc.prems(2) by simp
    from Suc.IH [OF t1(2) this] False some t1(1) show ?thesis by simp
  qed
qed

section \<open>The top seed wins\<close>

lemma seeded_cup:
  assumes "new_tournament SingleElimination es = Inr t0" "top_seed es best" "length es \<le> guard + 1"
  shows "\<exists>t ws. playToCompletion guard t0 = Inr t \<and> isComplete t \<and> champion t = Some (ent_id best) \<and>
    winners t = Inr ws \<and> hd ws = ent_id best \<and> mset ws = mset (map ent_id es)"
proof -
  from assms(1) obtain k where k: "cup_inv k es 0 t0" "only_byes k (t_matchMap t0)" by (rule cup_inv_new)
  have ids: "distinct (map ent_id es)" using assms(1) by (rule new_cup)
  have sh: "se_shape k (t_matchMap t0)" using k(1) by (simp add: cup_inv_def se_inv_def)
  have "matchLoser m \<noteq> Some best" if "(key, m) \<in> set (t_matchMap t0)" for key m
  proof -
    obtain r i where ri: "se_valid k r i" "m = node (t_matchMap t0) k r i" using sh \<open>(key, m) \<in> _\<close> by (rule shape_entry)
    show ?thesis
    proof (cases "m_outcome m")
      case None
      then show ?thesis by (simp add: matchLoser_def)
    next
      case (Some out)
      with k(2) ri have "r = 0 \<and> m_outcome m = Some OutA \<and> m_b m = None" by (auto simp: only_byes_def)
      with Some show ?thesis by (simp add: matchLoser_def)
    qed
  qed
  then have "seeded_state k es best 0 t0"
    using k ids assms(1) void_free_new [OF k] by (auto simp: seeded_state_def unbeaten_def intro: reachable.created)
  from play_all [OF assms(2) this, of guard] assms(3) obtain t n where t: "playToCompletion guard t0 = Inr t"
    "seeded_state k es best n t" "isComplete t" by fastforce
  have inv: "cup_inv k es n t" "void_free (t_matchMap t)" "unbeaten best (t_matchMap t)" using t(2) by (simp_all add: seeded_state_def)
  have best: "best \<in> set es" using assms(2) by (simp add: top_seed_def)
  have "{m \<in> set (matches t). matchLoser m = Some best} = {}" using inv(3) by (auto simp: unbeaten_def matches_set)
  then have "card {m \<in> set (matches t). matchLoser m = Some best} = 0" by (simp only: card.empty)
  then have "champion t = Some (ent_id best)" using cup_lost_matches [OF inv(1,2) t(3) ids best] by (simp split: if_splits)
  moreover from cup_order_perm [OF inv(1) ids this] best inv(1) obtain ws where "winners t = Inr ws" "hd ws = ent_id best"
    "mset ws = mset (map ent_id es)" by (auto simp: winners_def cup_inv_def calculation)
  ultimately show ?thesis using t by blast
qed

text \<open>C9. When the better seed wins every match, any cup is played to its end within as many passes over the pending
  matches as it has entrants, no match is refused on the way, and the top seed is the champion and the first
  of the winners: what the test suite checks for 2 to 64 entrants holds for every field.\<close>

theorem top_seed_wins:
  assumes "new_tournament SingleElimination es = Inr t0" "top_seed es best" "length es \<le> guard + 1"
  shows "\<exists>t ws. playToCompletion guard t0 = Inr t \<and> isComplete t \<and> champion t = Some (ent_id best) \<and>
    winners t = Inr ws \<and> hd ws = ent_id best"
  using seeded_cup [OF assms] by blast

theorem top_seed_wins_witness:
  "\<exists>t. playToCompletion 100000 demo_cup0 = Inr t \<and> isComplete t \<and> champion t = Some 11"
proof -
  have best: "top_seed demo_field \<lparr>ent_id = 11, ent_seed = 1\<rparr>" by code_simp
  have "length demo_field \<le> 100000 + 1" by (simp add: demo_field_length)
  from top_seed_wins [OF demo_cup0 best this] show ?thesis by auto
qed

end
