(* ===== verification/Engine_Tests.thy ===== *)
theory Engine_Tests
  imports Seeded
begin

text \<open>
  The engine's test suite \<open>engine/__tests__/engine.test.ts\<close>: each of its tests as a Boolean definition that
  says what the test expects, and the proof that the model passes it.
\<close>

section \<open>The tests\<close>

definition play_seeds :: "tournament_format \<Rightarrow> nat \<Rightarrow> tournament engine" where
  "play_seeds fmt n = bind_result (new_tournament fmt (seeds n)) (playToCompletion 100000)"

text \<open>An expectation on a value whose computation may throw.\<close>

definition expect :: "'a engine \<Rightarrow> ('a \<Rightarrow> bool) \<Rightarrow> bool" where
  "expect r P = (case r of Inl e \<Rightarrow> False | Inr x \<Rightarrow> P x)"

definition first_is :: "'a list \<Rightarrow> 'a \<Rightarrow> bool" where
  "first_is xs x = (case xs of [] \<Rightarrow> False | y # ys \<Rightarrow> y = x)"

definition top_seed_is_champion :: "nat \<Rightarrow> bool" where
  "top_seed_is_champion n = expect (play_seeds SingleElimination n) (\<lambda>t.
     isComplete t \<and> champion t = Some 1 \<and> expect (winners t) (\<lambda>w. first_is w 1))"

definition handles_byes :: "nat \<Rightarrow> bool" where
  "handles_byes n = expect (play_seeds SingleElimination n) (\<lambda>t. isComplete t \<and> champion t = Some 1)"

definition lost_exactly_once :: bool where
  "lost_exactly_once = expect (play_seeds SingleElimination 8) (\<lambda>t. expect (standings t) (list_all (\<lambda>s.
     if Some (st_id s) = champion t then st_losses s = 0 \<and> st_wins s > 0 else st_losses s = 1)))"

definition champion_then_runner_up :: bool where
  "champion_then_runner_up = expect (play_seeds SingleElimination 8) (\<lambda>t. expect (winners t) (\<lambda>w.
     first_is w 1 \<and> first_is (drop 1 w) 2 \<and> length w = 8))"

definition rejects_draw :: bool where
  "rejects_draw = expect (new_tournament SingleElimination (seeds 2)) (\<lambda>t.
     case pending t of [] \<Rightarrow> True | i # is \<Rightarrow> \<not> expect (record_result i OutDraw t) (\<lambda>t. True))"

text \<open>The keys of the pairs that have met, lower id first.\<close>

definition pair_keys :: "tournament \<Rightarrow> (entrant_id \<times> entrant_id) list" where
  "pair_keys t = List.map_filter (\<lambda>m. case (m_a m, m_b m) of
     (Some a, Some b) \<Rightarrow> Some (min (ent_id a) (ent_id b), max (ent_id a) (ent_id b)) | _ \<Rightarrow> None) (matches t)"

definition every_pair_once :: "nat \<Rightarrow> bool" where
  "every_pair_once n = expect (play_seeds RoundRobin n) (\<lambda>t.
     isComplete t \<and> distinct (pair_keys t) \<and> length (pair_keys t) = (n * (n - 1)) div 2)"

definition swiss_leads :: bool where
  "swiss_leads = expect (play_seeds (Swiss 3) 8) (\<lambda>t.
     isComplete t \<and> distinct (pair_keys t) \<and> length (pair_keys t) = (8 div 2) * 3 \<and>
     expect (standings t) (\<lambda>st. case st of [] \<Rightarrow> False | s # ss \<Rightarrow> st_id s = 1 \<and> st_wins s = 3))"

definition rejects :: "tournament_format \<Rightarrow> entrant list \<Rightarrow> bool" where
  "rejects fmt es = (\<not> expect (new_tournament fmt es) (\<lambda>t. True))"

definition test_suite :: bool where
  "test_suite \<longleftrightarrow>
     list_all top_seed_is_champion [2..<65] \<and> list_all handles_byes [3, 5, 6, 7, 9, 11, 13] \<and>
     lost_exactly_once \<and> champion_then_runner_up \<and> rejects_draw \<and> list_all every_pair_once [2..<9] \<and> swiss_leads \<and>
     rejects SingleElimination (seeds 1) \<and>
     rejects SingleElimination [\<lparr>ent_id = 1, ent_seed = 1\<rparr>, \<lparr>ent_id = 1, ent_seed = 2\<rparr>] \<and> rejects (Swiss 0) (seeds 8)"

section \<open>The model passes them\<close>

text \<open>The guard of the helper does not matter once a smaller one is enough.\<close>

lemma playToCompletion_more:
  "playToCompletion g t = Inr t' \<Longrightarrow> isComplete t' \<Longrightarrow> playToCompletion (g + k) t = Inr t'"
proof (induction g arbitrary: t)
  case 0
  then show ?case by (cases k) simp_all
next
  case (Suc g)
  show ?case
  proof (cases "isComplete t \<or> pending t = []")
    case True
    with Suc show ?thesis by (auto simp: Let_def split: if_splits)
  next
    case False
    with Suc.prems(1) obtain t1 where "fold_result play_id (pending t) t = Inr t1" "playToCompletion g t1 = Inr t'"
      by (auto simp: bind_result_eq_Inr)
    with False Suc.IH [of t1] Suc.prems(2) show ?thesis by simp
  qed
qed

lemma expect_play:
  assumes "expect (bind_result (new_tournament fmt (seeds n)) (playToCompletion 7)) (\<lambda>t. isComplete t \<and> P t)"
  shows "expect (play_seeds fmt n) (\<lambda>t. isComplete t \<and> P t)"
proof -
  from assms obtain t0 t where t: "new_tournament fmt (seeds n) = Inr t0" "playToCompletion 7 t0 = Inr t" "isComplete t" "P t"
    by (auto simp: expect_def bind_result_eq_Inr split: sum.splits)
  have "playToCompletion (7 + 99993) t0 = Inr t" using t(2,3) by (rule playToCompletion_more)
  then have "playToCompletion 100000 t0 = Inr t" by (simp only: numeral_plus_numeral add_num_simps)
  with t show ?thesis by (simp add: expect_def play_seeds_def)
qed

lemma seeds_top: "0 < n \<Longrightarrow> top_seed (seeds n) \<lparr>ent_id = 1, ent_seed = 1\<rparr>"
  by (force simp: top_seed_def seeds_def)

lemma seeds_cup: "2 \<le> n \<Longrightarrow> n \<le> 2 ^ 30 \<Longrightarrow> \<exists>t0. new_tournament SingleElimination (seeds n) = Inr t0"
proof -
  assume n: "2 \<le> n" "n \<le> 2 ^ 30"
  have len: "length (seeds n) = n" by (simp add: seeds_def)
  have "map ent_id (seeds n) = map (\<lambda>i. 1 + int i) [0..<n]" by (simp add: seeds_def add.commute)
  then have "idsUnique (seeds n)" unfolding idsUnique_iff by (simp only: int_upt_distinct)
  with n len show ?thesis using elimination_created [of "seeds n"] by simp
qed

lemma seeded_tests: "2 \<le> n \<Longrightarrow> n \<le> 2 ^ 16 \<Longrightarrow> top_seed_is_champion n \<and> handles_byes n"
proof -
  assume n: "2 \<le> n" "n \<le> 2 ^ 16"
  then obtain t0 where t0: "new_tournament SingleElimination (seeds n) = Inr t0" using seeds_cup [of n] by auto
  have "length (seeds n) \<le> 100000 + 1" using n(2) by (simp add: seeds_def)
  from seeded_cup [OF t0 seeds_top this] n(1) obtain t ws where "playToCompletion 100000 t0 = Inr t" "isComplete t"
    "champion t = Some 1" "winners t = Inr ws" "hd ws = 1" "mset ws = mset (map ent_id (seeds n))" by auto
  moreover from this(6) have "length ws = n" using mset_eq_length by (fastforce simp: seeds_def)
  with n(1) have "ws \<noteq> []" by auto
  ultimately show ?thesis using t0
    by (auto simp: top_seed_is_champion_def handles_byes_def expect_def play_seeds_def first_is_def split: list.split)
qed

lemma expect_mono: "expect r P \<Longrightarrow> (\<And>x. P x \<Longrightarrow> Q x) \<Longrightarrow> expect r Q"
  by (auto simp: expect_def split: sum.splits)

abbreviation quick_play :: "tournament_format \<Rightarrow> nat \<Rightarrow> tournament engine" where
  "quick_play fmt n \<equiv> bind_result (new_tournament fmt (seeds n)) (playToCompletion 7)"

lemma elimination_tests: "lost_exactly_once" "champion_then_runner_up" "rejects_draw"
proof -
  have "expect (quick_play SingleElimination 8) (\<lambda>t. isComplete t \<and> expect (standings t) (list_all (\<lambda>s.
     if Some (st_id s) = champion t then st_losses s = 0 \<and> st_wins s > 0 else st_losses s = 1)))" by code_simp
  from expect_play [OF this] show "lost_exactly_once" unfolding lost_exactly_once_def by (rule expect_mono) simp
  have "expect (quick_play SingleElimination 8) (\<lambda>t. isComplete t \<and> expect (winners t) (\<lambda>w.
     first_is w 1 \<and> first_is (drop 1 w) 2 \<and> length w = 8))" by code_simp
  from expect_play [OF this] show "champion_then_runner_up" unfolding champion_then_runner_up_def by (rule expect_mono) simp
  show "rejects_draw" by code_simp
qed

lemma round_robin_tests: "list_all every_pair_once [2..<9]"
proof -
  have "list_all (\<lambda>n. expect (quick_play RoundRobin n) (\<lambda>t.
     isComplete t \<and> distinct (pair_keys t) \<and> length (pair_keys t) = (n * (n - 1)) div 2)) [2..<9]" by code_simp
  then have "list_all (\<lambda>n. expect (play_seeds RoundRobin n) (\<lambda>t.
     isComplete t \<and> distinct (pair_keys t) \<and> length (pair_keys t) = (n * (n - 1)) div 2)) [2..<9]"
    by (rule list.pred_mono_strong) (rule expect_play)
  then show ?thesis by (simp only: every_pair_once_def [abs_def])
qed

lemma swiss_test: "swiss_leads"
proof -
  have "expect (quick_play (Swiss 3) 8) (\<lambda>t.
     isComplete t \<and> distinct (pair_keys t) \<and> length (pair_keys t) = (8 div 2) * 3 \<and>
     expect (standings t) (\<lambda>st. case st of [] \<Rightarrow> False | s # ss \<Rightarrow> st_id s = 1 \<and> st_wins s = 3))" by code_simp
  then show ?thesis unfolding swiss_leads_def by (rule expect_play)
qed

text \<open>The model of the engine passes the engine's test suite.\<close>

theorem test_suite_passes: "test_suite"
proof -
  have "list_all top_seed_is_champion [2..<65]" "list_all handles_byes [3, 5, 6, 7, 9, 11, 13]"
    using seeded_tests by (auto simp: list_all_iff)
  moreover have "rejects SingleElimination (seeds 1)" "rejects (Swiss 0) (seeds 8)"
    "rejects SingleElimination [\<lparr>ent_id = 1, ent_seed = 1\<rparr>, \<lparr>ent_id = 1, ent_seed = 2\<rparr>]" by code_simp+
  ultimately show ?thesis
    unfolding test_suite_def using elimination_tests round_robin_tests swiss_test by blast
qed

end
