(* ===== verification/Store.thy ===== *)
theory Store
  imports Complex_Main Prelude
begin

text \<open>
  The persistent state of the web application and the queries on it,
  \<open>web/src/lib/store.ts\<close>. A method of \<open>PostgresStore\<close> runs one SQL statement, which
  the database executes atomically: it is a function on the record \<open>db\<close> of the tables it
  touches. Timestamps are milliseconds. A \<open>number\<close> that may be a fraction is a \<open>js_number\<close>: a rational, or
  \<open>None\<close> for \<open>NaN\<close>.
\<close>

section \<open>The records of the source\<close>

datatype tournament_state = OPEN | FINALIZED | COMPLETE | CANCELLED

datatype cup_mode = Instant | Bracket

datatype bracket_format = F_single_elimination | F_round_robin | F_swiss

type_synonym js_number = "rat option"

record tournament_record =
  r_tournamentId :: int
  r_sponsor :: string
  r_prizePoolWei :: string
  r_token :: string
  r_payoutBps :: "int list"
  r_winnerWallets :: "string list"
  r_state :: tournament_state
  r_mode :: "cup_mode option"
  r_manageToken :: "string option"
  r_organizerWallet :: "string option"
  r_paypalOrderId :: "string option"
  r_txHash :: "string option"
  r_createdAt :: int

record player =
  p_id :: int
  p_wallet :: string
  p_name :: string
  p_seed :: int

text \<open>
  An outcome is a JSON string. The type of the source lists \<open>A\<close>, \<open>B\<close>, \<open>Draw\<close> and
  \<open>Void\<close>, but the routes cast request bodies without checking, so any string can be stored.
\<close>

record match_result =
  mr_matchId :: int
  mr_outcome :: string

datatype report_side = RA | RB

record match_report =
  rp_matchId :: int
  rp_side :: report_side
  rp_wallet :: string
  rp_outcome :: string

record bracket_state =
  b_format :: bracket_format
  b_swissRounds :: "int option"
  b_players :: "player list"
  b_results :: "match_result list"
  b_finalized :: "bool option"
  b_computedWinners :: "string list option"
  b_reports :: "match_report list option"
  b_disputes :: "int list option"

text \<open>The payloads handed to \<open>enqueueJob\<close>; the kind of a job is the constructor.\<close>

record fund_payload =
  f_payoutBps :: "int list"
  f_winnerWallets :: "string list"
  f_fundedAvax :: js_number
  f_mode :: cup_mode
  f_finalizeDays :: int
  f_format :: "bracket_format option"
  f_swissRounds :: "int option"
  f_players :: "player list option"
  f_paypalOrderId :: string
  f_manageToken :: "string option"

datatype job_payload = Fund fund_payload | Finalize (fin_tournamentId: int)

datatype job_status = Pending | JobDone | Failed

record job_row =
  j_id :: int
  j_payload :: job_payload
  j_status :: job_status
  j_tournamentId :: "int option"
  j_txHash :: "string option"
  j_error :: "string option"

record intent_row =
  i_amountUsd :: js_number
  i_jobId :: "int option"
  i_tournamentId :: "int option"

type_synonym nonce_key = "string \<times> int \<times> int \<times> string"

record db =
  d_tournaments :: "(int \<times> tournament_record) list"
  d_brackets :: "(int \<times> bracket_state) list"
  d_jobs :: "job_row list"
  d_nextJob :: int
  d_nonces :: "nonce_key list"
  d_intents :: "(string \<times> intent_row) list"

definition empty_db :: db where
  "empty_db = \<lparr>d_tournaments = [], d_brackets = [], d_jobs = [], d_nextJob = 1,
     d_nonces = [], d_intents = []\<rparr>"

text \<open>What \<open>getJob\<close> selects of a job: everything but the payload.\<close>

datatype job_kind = FundKind | FinalizeKind

record relayer_job =
  rj_id :: int
  rj_kind :: job_kind
  rj_status :: job_status
  rj_tournamentId :: "int option"
  rj_txHash :: "string option"
  rj_error :: "string option"

definition job_kind_of :: "job_payload \<Rightarrow> job_kind" where
  "job_kind_of p = (case p of Fund _ \<Rightarrow> FundKind | Finalize _ \<Rightarrow> FinalizeKind)"

section \<open>Helpers of \<open>store.ts\<close>\<close>

definition MAX_BODY :: int where
  "MAX_BODY = 64 * 1024"

text \<open>\<open>validateBodySize\<close>: true when the request is answered with 413; a missing header counts as 0.\<close>

definition validateBodySize :: "int option \<Rightarrow> bool" where
  "validateBodySize content_length =
     ((case content_length of None \<Rightarrow> 0 | Some n \<Rightarrow> n) > MAX_BODY)"

text \<open>\<open>capArray\<close>: throws when the array is too long.\<close>

definition capArray :: "'a list option \<Rightarrow> nat \<Rightarrow> string \<Rightarrow> string + 'a list" where
  "capArray arr mx name =
     (case arr of None \<Rightarrow> Inr []
      | Some xs \<Rightarrow>
          if length xs > mx then Inl (name @ '' exceeds '' @ show_nat mx @ '' entries'') else Inr xs)"

section \<open>Tournaments and brackets\<close>

definition coalesce :: "'a option \<Rightarrow> 'a option \<Rightarrow> 'a option" where
  "coalesce x y = (case x of None \<Rightarrow> y | Some _ \<Rightarrow> x)"

text \<open>The \<open>ON CONFLICT DO UPDATE\<close> clause: only six columns change.\<close>

definition upsert_tournament :: "tournament_record \<Rightarrow> tournament_record \<Rightarrow> tournament_record" where
  "upsert_tournament new old = old\<lparr>
     r_winnerWallets := r_winnerWallets new, r_state := r_state new, r_mode := r_mode new,
     r_manageToken := coalesce (r_manageToken new) (r_manageToken old),
     r_organizerWallet := coalesce (r_organizerWallet new) (r_organizerWallet old),
     r_txHash := r_txHash new\<rparr>"

definition getTournament :: "int \<Rightarrow> db \<Rightarrow> tournament_record option" where
  "getTournament i d = map_of (d_tournaments d) i"

definition saveTournament :: "tournament_record \<Rightarrow> db \<Rightarrow> db" where
  "saveTournament rec d =
     (let i = r_tournamentId rec;
          row = (case getTournament i d of None \<Rightarrow> rec | Some old \<Rightarrow> upsert_tournament rec old)
      in d\<lparr>d_tournaments := AList.update i row (d_tournaments d)\<rparr>)"

definition listTournaments :: "nat \<Rightarrow> db \<Rightarrow> tournament_record list" where
  "listTournaments limit d = take limit (map snd (sort_key (\<lambda>(i, r). - i) (d_tournaments d)))"

definition saveBracket :: "int \<Rightarrow> bracket_state \<Rightarrow> db \<Rightarrow> db" where
  "saveBracket tid st d = d\<lparr>d_brackets := AList.update tid st (d_brackets d)\<rparr>"

definition getBracket :: "int \<Rightarrow> db \<Rightarrow> bracket_state option" where
  "getBracket tid d = map_of (d_brackets d) tid"

section \<open>Jobs, nonces and funding intents\<close>

definition enqueueJob :: "job_payload \<Rightarrow> db \<Rightarrow> int \<times> db" where
  "enqueueJob payload d =
     (d_nextJob d,
      d\<lparr>d_jobs := d_jobs d @ [\<lparr>j_id = d_nextJob d, j_payload = payload, j_status = Pending,
            j_tournamentId = None, j_txHash = None, j_error = None\<rparr>],
        d_nextJob := d_nextJob d + 1\<rparr>)"

definition find_job :: "int \<Rightarrow> db \<Rightarrow> job_row option" where
  "find_job i d = List.find (\<lambda>j. j_id j = i) (d_jobs d)"

definition getJob :: "int \<Rightarrow> db \<Rightarrow> relayer_job option" where
  "getJob i d =
     (case find_job i d of None \<Rightarrow> None
      | Some r \<Rightarrow> Some \<lparr>rj_id = j_id r, rj_kind = job_kind_of (j_payload r), rj_status = j_status r,
          rj_tournamentId = j_tournamentId r, rj_txHash = j_txHash r, rj_error = j_error r\<rparr>)"

definition useNonce :: "string \<Rightarrow> int \<Rightarrow> int \<Rightarrow> string \<Rightarrow> db \<Rightarrow> bool \<times> db" where
  "useNonce wallet tid matchId nonce d =
     (let k = (wallet, tid, matchId, nonce)
      in if k \<in> set (d_nonces d) then (False, d) else (True, d\<lparr>d_nonces := k # d_nonces d\<rparr>))"

record claim =
  c_first :: bool
  c_jobId :: "int option"
  c_tournamentId :: "int option"

definition claimFundingIntent :: "string \<Rightarrow> js_number \<Rightarrow> db \<Rightarrow> claim \<times> db" where
  "claimFundingIntent orderId amountUsd d =
     (case map_of (d_intents d) orderId of
        None \<Rightarrow> (\<lparr>c_first = True, c_jobId = None, c_tournamentId = None\<rparr>,
                  d\<lparr>d_intents := (orderId, \<lparr>i_amountUsd = amountUsd, i_jobId = None,
                      i_tournamentId = None\<rparr>) # d_intents d\<rparr>)
      | Some row \<Rightarrow> (\<lparr>c_first = False, c_jobId = i_jobId row, c_tournamentId = i_tournamentId row\<rparr>, d))"

definition updateFundingIntent :: "string \<Rightarrow> int \<Rightarrow> int option \<Rightarrow> db \<Rightarrow> db" where
  "updateFundingIntent orderId jobId tournamentId d =
     d\<lparr>d_intents := AList.map_entry orderId
         (\<lambda>row. row\<lparr>i_jobId := Some jobId, i_tournamentId := tournamentId\<rparr>) (d_intents d)\<rparr>"

section \<open>The interface of a keyed table\<close>

text \<open>
  What a client relies on when it saves rows and loads them by key. \<open>row v old\<close> is what saving
  \<open>v\<close> leaves under its key when \<open>old\<close> was there: the insert or the conflict clause.
\<close>

locale keyed_table =
  fixes key :: "'v \<Rightarrow> 'k"
    and put :: "'v \<Rightarrow> 'd \<Rightarrow> 'd"
    and get :: "'k \<Rightarrow> 'd \<Rightarrow> 'r option"
    and row :: "'v \<Rightarrow> 'r option \<Rightarrow> 'r"
  assumes get_put: "get (key v) (put v d) = Some (row v (get (key v) d))"
    and get_put_other: "k \<noteq> key v \<Longrightarrow> get k (put v d) = get k d"
begin

lemma get_put_if: "get k (put v d) = (if k = key v then Some (row v (get k d)) else get k d)"
  by (simp add: get_put get_put_other)

lemma present_put: "get k (put v d) \<noteq> None \<longleftrightarrow> k = key v \<or> get k d \<noteq> None"
  by (simp add: get_put_if)

lemma put_other_order:
  assumes "key v \<noteq> key w"
  shows "get k (put v (put w d)) = get k (put w (put v d))"
  using assms by (simp add: get_put_if)

text \<open>Saving twice is saving once when the conflict clause is idempotent.\<close>

lemma put_twice:
  assumes "\<And>old. row v (Some (row v old)) = row v old"
  shows "get k (put v (put v d)) = get k (put v d)"
  by (simp add: get_put_if assms)

end

definition bracket_row :: "int \<times> bracket_state \<Rightarrow> bracket_state option \<Rightarrow> bracket_state" where
  "bracket_row v old = snd v"

definition tournament_row :: "tournament_record \<Rightarrow> tournament_record option \<Rightarrow> tournament_record" where
  "tournament_row rec old = (case old of None \<Rightarrow> rec | Some o1 \<Rightarrow> upsert_tournament rec o1)"

interpretation brackets: keyed_table fst "\<lambda>(tid, st). saveBracket tid st" getBracket bracket_row
  by unfold_locales (auto simp: saveBracket_def getBracket_def bracket_row_def update_conv')

interpretation tournaments: keyed_table r_tournamentId saveTournament getTournament tournament_row
  by unfold_locales
    (auto simp: saveTournament_def getTournament_def tournament_row_def Let_def update_conv')

text \<open>The tables of the application, seen by other tables: they do not overlap.\<close>

lemma store_frame [simp]:
  "getBracket i (saveTournament rec d) = getBracket i d"
  "getTournament i (saveBracket tid st d) = getTournament i d"
  "d_jobs (saveBracket tid st d) = d_jobs d" "d_jobs (saveTournament rec d) = d_jobs d"
  "d_nonces (saveBracket tid st d) = d_nonces d" "d_nonces (saveTournament rec d) = d_nonces d"
  "d_intents (saveBracket tid st d) = d_intents d" "d_intents (saveTournament rec d) = d_intents d"
  "getBracket i (snd (useNonce w t m n d)) = getBracket i d"
  "getTournament i (snd (useNonce w t m n d)) = getTournament i d"
  "d_jobs (snd (useNonce w t m n d)) = d_jobs d"
  "d_intents (snd (useNonce w t m n d)) = d_intents d"
  "getBracket i (snd (enqueueJob p d)) = getBracket i d"
  "getTournament i (snd (enqueueJob p d)) = getTournament i d"
  "d_intents (snd (enqueueJob p d)) = d_intents d"
  "d_nonces (snd (enqueueJob p d)) = d_nonces d"
  "d_jobs (snd (claimFundingIntent o1 a d)) = d_jobs d"
  "d_jobs (updateFundingIntent o1 j x d) = d_jobs d"
  "getBracket i (snd (claimFundingIntent o1 a d)) = getBracket i d"
  "getBracket i (updateFundingIntent o1 j x d) = getBracket i d"
  "getTournament i (snd (claimFundingIntent o1 a d)) = getTournament i d"
  "getTournament i (updateFundingIntent o1 j x d) = getTournament i d"
  by (auto simp: getBracket_def saveTournament_def getTournament_def saveBracket_def useNonce_def
      enqueueJob_def claimFundingIntent_def updateFundingIntent_def Let_def split: option.split)

lemma getTournament_save:
  "getTournament i (saveTournament rec d) =
     (if i = r_tournamentId rec
      then Some (case getTournament i d of None \<Rightarrow> rec | Some old \<Rightarrow> upsert_tournament rec old)
      else getTournament i d)"
  by (simp add: saveTournament_def getTournament_def Let_def update_conv')

section \<open>The interface of a register of single-use keys\<close>

text \<open>
  \<open>INSERT ... ON CONFLICT DO NOTHING RETURNING 1\<close>: the first insert of a key succeeds, every
  later one does not.
\<close>

locale single_use =
  fixes attempt :: "'k \<Rightarrow> 'd \<Rightarrow> bool \<times> 'd"
    and used :: "'k \<Rightarrow> 'd \<Rightarrow> bool"
  assumes try_fresh: "fst (attempt k d) \<longleftrightarrow> \<not> used k d"
    and try_marks: "used k' (snd (attempt k d)) \<longleftrightarrow> k' = k \<or> used k' d"
begin

lemma try_again: "\<not> fst (attempt k (snd (attempt k d)))"
  by (simp add: try_fresh try_marks)

text \<open>The answers of a sequence of calls.\<close>

fun answers :: "'k list \<Rightarrow> 'd \<Rightarrow> bool list" where
  "answers [] d = []"
| "answers (k # ks) d = fst (attempt k d) # answers ks (snd (attempt k d))"

lemma answers_used: "used k d \<Longrightarrow> count_list (zip ks (answers ks d)) (k, True) = 0"
  by (induction ks arbitrary: d) (auto simp: try_fresh try_marks)

lemma answers_once: "count_list (zip ks (answers ks d)) (k, True) \<le> 1"
proof (induction ks arbitrary: d)
  case (Cons x ks)
  show ?case
  proof (cases "x = k \<and> fst (attempt x d)")
    case True
    then have "used k (snd (attempt x d))" by (simp add: try_marks)
    from answers_used [OF this] True show ?thesis by simp
  qed (use Cons in auto)
qed simp

end

definition nonce_used :: "nonce_key \<Rightarrow> db \<Rightarrow> bool" where
  "nonce_used k d \<longleftrightarrow> k \<in> set (d_nonces d)"

definition intent_taken :: "string \<Rightarrow> db \<Rightarrow> bool" where
  "intent_taken orderId d \<longleftrightarrow> map_of (d_intents d) orderId \<noteq> None"

interpretation nonces: single_use "\<lambda>(w, t, m, n). useNonce w t m n" nonce_used
  by unfold_locales (auto simp: useNonce_def nonce_used_def Let_def split: if_splits)

interpretation intents: single_use
  "\<lambda>orderId d. let (c, d') = claimFundingIntent orderId amount d in (c_first c, d')" intent_taken
  for amount
  by unfold_locales (auto simp: claimFundingIntent_def intent_taken_def split: option.split)

section \<open>Jobs\<close>

text \<open>Job ids come from a sequence: the ids in the table lie below the next one.\<close>

definition jobs_ok :: "db \<Rightarrow> bool" where
  "jobs_ok d \<longleftrightarrow> distinct (map j_id (d_jobs d)) \<and> (\<forall>j \<in> set (d_jobs d). j_id j < d_nextJob d)"

lemma jobs_ok_empty: "jobs_ok empty_db"
  by (simp add: jobs_ok_def empty_db_def)

lemma jobs_ok_enqueue: "jobs_ok d \<Longrightarrow> jobs_ok (snd (enqueueJob p d))"
  by (force simp: jobs_ok_def enqueueJob_def)

lemma find_job_enqueue:
  assumes "jobs_ok d"
  shows "find_job i (snd (enqueueJob p d)) =
    (if i = fst (enqueueJob p d)
     then Some \<lparr>j_id = i, j_payload = p, j_status = Pending, j_tournamentId = None,
       j_txHash = None, j_error = None\<rparr>
     else find_job i d)"
proof -
  have "List.find P (xs @ [y]) = (case List.find P xs of None \<Rightarrow> if P y then Some y else None | Some x \<Rightarrow> Some x)"
    for P :: "job_row \<Rightarrow> bool" and xs y
    by (induction xs) auto
  moreover have "List.find (\<lambda>j. j_id j = d_nextJob d) (d_jobs d) = None"
    using assms by (force simp: jobs_ok_def find_None_iff)
  ultimately show ?thesis by (auto simp: find_job_def enqueueJob_def split: option.split)
qed

end
