(* ===== verification/Auth.thy ===== *)
theory Auth
  imports Store
begin

text \<open>
  Organizer authorization, \<open>web/src/lib/auth.ts\<close>: the bearer token of a request is compared
  with the manage token of the tournament in constant time; tokens are 32 random bytes in hex.
  The random bytes are an argument of the model.
\<close>

unbundle bit_operations_syntax

section \<open>The functions of the source\<close>

definition startsWith :: "string \<Rightarrow> string \<Rightarrow> bool" where
  "startsWith s p \<longleftrightarrow> take (length p) s = p"

definition endsWith :: "string \<Rightarrow> string \<Rightarrow> bool" where
  "endsWith s p \<longleftrightarrow> length p \<le> length s \<and> drop (length s - length p) s = p"

definition bearer_token :: "string option \<Rightarrow> string" where
  "bearer_token header =
     (let auth = (case header of None \<Rightarrow> '''' | Some h \<Rightarrow> h)
      in if startsWith auth ''Bearer '' then trim (drop 7 auth) else '''')"

definition charCode :: "char \<Rightarrow> 32 word" where
  "charCode c = of_nat (of_char c)"

text \<open>\<open>for (i...) diff |= a.charCodeAt(i) ^ b.charCodeAt(i)\<close> on strings of one length.\<close>

fun diff_loop :: "32 word \<Rightarrow> string \<Rightarrow> string \<Rightarrow> 32 word" where
  "diff_loop diff (x # a) (y # b) = diff_loop (diff OR (charCode x XOR charCode y)) a b"
| "diff_loop diff _ _ = diff"

definition requireOrganizer :: "string option \<Rightarrow> int \<Rightarrow> db \<Rightarrow> tournament_record option" where
  "requireOrganizer header tid d =
     (let token = bearer_token header
      in if token = '''' \<or> length token < 16 then None
         else case getTournament tid d of None \<Rightarrow> None
         | Some rec \<Rightarrow>
             (case r_manageToken rec of None \<Rightarrow> None
              | Some b \<Rightarrow>
                  if b = '''' then None
                  else if length token \<noteq> length b then None
                  else if diff_loop 0 token b = 0 then Some rec else None))"

definition hex_digit :: "nat \<Rightarrow> char" where
  "hex_digit n = ''0123456789abcdef'' ! n"

text \<open>\<open>b.toString(16).padStart(2, "0")\<close> for a byte.\<close>

definition toString16 :: "8 word \<Rightarrow> string" where
  "toString16 b =
     (let n = unat b in if n < 16 then [hex_digit n] else [hex_digit (n div 16), hex_digit (n mod 16)])"

definition padStart :: "nat \<Rightarrow> char \<Rightarrow> string \<Rightarrow> string" where
  "padStart n c s = replicate (n - length s) c @ s"

definition generateManageToken :: "8 word list \<Rightarrow> string" where
  "generateManageToken buf = concat (map (\<lambda>b. padStart 2 (CHR ''0'') (toString16 b)) buf)"

section \<open>The comparison\<close>

lemma charCode_inject [simp]: "charCode x = charCode y \<longleftrightarrow> x = y"
proof
  assume "charCode x = charCode y"
  then have "unat (of_nat (of_char x) :: 32 word) = unat (of_nat (of_char y) :: 32 word)"
    by (simp add: charCode_def)
  moreover have "unat (of_nat (of_char c) :: 32 word) = of_char c" for c
  proof -
    have "(of_char c :: nat) < 256" by (rule nat_of_char_less_256)
    then have "(of_char c :: nat) < 4294967296" by (rule order.strict_trans) simp
    then show ?thesis by (simp add: unat_of_nat)
  qed
  ultimately have "(of_char x :: nat) = of_char y" by simp
  then show "x = y" by simp
qed simp

lemma or_zero_iff: "(a OR b = (0 :: 32 word)) \<longleftrightarrow> a = 0 \<and> b = 0"
  by (auto simp: bit_eq_iff bit_or_iff)

lemma xor_zero_iff: "(a XOR b = (0 :: 32 word)) \<longleftrightarrow> a = b"
  by (auto simp: bit_eq_iff bit_xor_iff)

lemma diff_loop_zero:
  "length a = length b \<Longrightarrow> diff_loop diff a b = 0 \<longleftrightarrow> diff = 0 \<and> a = b"
  by (induction diff a b rule: diff_loop.induct) (auto simp: or_zero_iff xor_zero_iff)

lemma requireOrganizer_Some:
  "requireOrganizer header tid d = Some rec \<longleftrightarrow>
     getTournament tid d = Some rec \<and> r_manageToken rec = Some (bearer_token header) \<and>
     16 \<le> length (bearer_token header)"
  by (auto simp: requireOrganizer_def Let_def diff_loop_zero split: option.splits if_splits)

section \<open>Tokens\<close>

lemma unat_byte: "unat (b :: 8 word) < 256"
  using unsigned_less [of b, where ?'a = nat] by simp

lemma byte_hex:
  "padStart 2 (CHR ''0'') (toString16 b) = [hex_digit (unat b div 16), hex_digit (unat b mod 16)]"
  by (auto simp: padStart_def toString16_def Let_def hex_digit_def)

lemma hex_digit_inject: "m < 16 \<Longrightarrow> n < 16 \<Longrightarrow> hex_digit m = hex_digit n \<longleftrightarrow> m = n"
  unfolding hex_digit_def by (rule nth_eq_iff_index_eq) simp_all

lemma byte_hex_inject:
  "padStart 2 (CHR ''0'') (toString16 b) = padStart 2 (CHR ''0'') (toString16 c) \<longleftrightarrow> b = c"
proof -
  have "unat b div 16 < 16" "unat c div 16 < 16"
    using unat_byte [of b] unat_byte [of c] by auto
  then have "padStart 2 (CHR ''0'') (toString16 b) = padStart 2 (CHR ''0'') (toString16 c) \<longleftrightarrow>
      unat b div 16 = unat c div 16 \<and> unat b mod 16 = unat c mod 16"
    by (simp add: byte_hex hex_digit_inject)
  also have "\<dots> \<longleftrightarrow> unat b = unat c" by (metis div_mult_mod_eq)
  also have "\<dots> \<longleftrightarrow> b = c" by (simp add: word_unat_eq_iff)
  finally show ?thesis .
qed

lemma length_token: "length (generateManageToken buf) = 2 * length buf"
  by (induction buf) (simp_all add: generateManageToken_def byte_hex)

lemma token_inject:
  "length buf = length buf' \<Longrightarrow> generateManageToken buf = generateManageToken buf' \<longleftrightarrow> buf = buf'"
proof (induction buf buf' rule: list_induct2)
  case (Cons b buf c buf')
  have "length (padStart 2 (CHR ''0'') (toString16 b)) = length (padStart 2 (CHR ''0'') (toString16 c))"
    by (simp add: byte_hex)
  with Cons byte_hex_inject [of b c] show ?case by (simp add: generateManageToken_def)
qed simp

lemma hex_not_space: "n < 16 \<Longrightarrow> \<not> js_space (hex_digit n)"
proof -
  assume "n < 16"
  then have mem: "n \<in> set [0..<16]" by simp
  have "list_all (\<lambda>n. \<not> js_space (hex_digit n)) [0..<16]" by code_simp
  then have "\<forall>n \<in> set [0..<16]. \<not> js_space (hex_digit n)" by (simp only: list_all_iff)
  from bspec [OF this mem] show ?thesis .
qed

lemma token_chars: "c \<in> set (generateManageToken buf) \<Longrightarrow> \<not> js_space c"
proof -
  assume "c \<in> set (generateManageToken buf)"
  then obtain b :: "8 word" where "c \<in> set (padStart 2 (CHR ''0'') (toString16 b))"
    by (auto simp: generateManageToken_def)
  then have "c \<in> {hex_digit (unat b div 16), hex_digit (unat b mod 16)}" by (simp add: byte_hex)
  moreover have "unat b div 16 < 16" using unat_byte [of b] by simp
  ultimately show ?thesis using hex_not_space by auto
qed

lemma trim_id: "\<forall>c \<in> set s. \<not> js_space c \<Longrightarrow> trim s = s"
proof -
  assume s: "\<forall>c \<in> set s. \<not> js_space c"
  then have "dropWhile js_space s = s" by (cases s) simp_all
  moreover from s have "dropWhile js_space (rev s) = rev s" by (cases "rev s") (simp, metis dropWhile.simps(2) list.set_intros(1) set_rev)
  ultimately show ?thesis by (simp add: trim_def)
qed

lemma bearer_generated: "bearer_token (Some (''Bearer '' @ generateManageToken buf)) = generateManageToken buf"
  using trim_id [of "generateManageToken buf"] token_chars
  by (auto simp: bearer_token_def startsWith_def)

section \<open>Properties\<close>

text \<open>\<open>requireOrganizer\<close> answers with a record exactly when the record is the stored one and the
  trimmed bearer token, of at least 16 characters, equals its manage token: the constant-time
  loop decides equality.\<close>

theorem require_organizer_iff:
  "requireOrganizer header tid d = Some rec \<longleftrightarrow>
     getTournament tid d = Some rec \<and> r_manageToken rec = Some (bearer_token header) \<and>
     16 \<le> length (bearer_token header)"
  by (rule requireOrganizer_Some)

text \<open>A generated token has two characters per random byte, different bytes give different
  tokens, and sent back in an authorization header it is read back unchanged.\<close>

theorem manage_token_roundtrip:
  "length (generateManageToken buf) = 2 * length buf \<and>
   (generateManageToken buf = generateManageToken buf' \<and> length buf = length buf' \<longleftrightarrow> buf = buf') \<and>
   bearer_token (Some (''Bearer '' @ generateManageToken buf)) = generateManageToken buf"
  using token_inject [of buf buf'] length_token bearer_generated by auto

end
