(* ===== verification/Http.thy ===== *)
theory Http
  imports Auth League
begin

text \<open>
  What the route handlers share: replies, optional request fields, and the reconstruction of a
  tournament from a stored bracket (\<open>formatOf\<close> and \<open>reconstruct\<close> of
  \<open>app/api/tournament/[id]/report/route.ts\<close>, repeated in \<open>finalize/route.ts\<close> and in the
  pages).
\<close>

section \<open>Replies\<close>

text \<open>
  A handler answers with an error status and message, with a success value, or dies on an
  exception nobody catches (the framework then answers 500).
\<close>

datatype 'a reply = Err nat string | Ok 'a | Crash engine_error

section \<open>Optional fields\<close>

text \<open>\<open>!body.field\<close> for a string and for a number: absent, empty or zero.\<close>

definition no_string :: "string option \<Rightarrow> bool" where
  "no_string s \<longleftrightarrow> s = None \<or> s = Some ''''"

definition no_number :: "int option \<Rightarrow> bool" where
  "no_number n \<longleftrightarrow> n = None \<or> n = Some 0"

definition or_empty :: "'a list option \<Rightarrow> 'a list" where
  "or_empty x = (case x of None \<Rightarrow> [] | Some xs \<Rightarrow> xs)"

lemma or_empty_simps [simp]: "or_empty None = []" "or_empty (Some xs) = xs"
  by (simp_all add: or_empty_def)

section \<open>From a stored bracket to a tournament\<close>

definition formatOf :: "bracket_state \<Rightarrow> tournament_format" where
  "formatOf b =
     (case b_format b of
        F_swiss \<Rightarrow> Swiss (case b_swissRounds b of None \<Rightarrow> 3 | Some n \<Rightarrow> n)
      | F_round_robin \<Rightarrow> RoundRobin
      | F_single_elimination \<Rightarrow> SingleElimination)"

definition entrants_of :: "bracket_state \<Rightarrow> entrant list" where
  "entrants_of b = map (\<lambda>p. \<lparr>ent_id = p_id p, ent_seed = p_seed p\<rparr>) (b_players b)"

definition engine_outcome :: "string \<Rightarrow> outcome" where
  "engine_outcome o1 = (if o1 = ''B'' then OutB else if o1 = ''Draw'' then OutDraw else OutA)"

definition engine_results :: "match_result list \<Rightarrow> (match_id \<times> outcome) list" where
  "engine_results rs = map (\<lambda>r. (mr_matchId r, engine_outcome (mr_outcome r))) rs"

definition reconstruct :: "bracket_state \<Rightarrow> tournament engine" where
  "reconstruct b =
     bind_result (new_tournament (formatOf b) (entrants_of b)) (replay (engine_results (b_results b)))"

lemma reconstruct_reachable: "reconstruct b = Inr t \<Longrightarrow> reachable (formatOf b) (entrants_of b) t"
  by (auto simp: reconstruct_def bind_result_eq_Inr intro: replay_reachable created)

lemma format_frame [simp]:
  "formatOf (b\<lparr>b_results := v\<rparr>) = formatOf b"
  "formatOf (b\<lparr>b_reports := x\<rparr>) = formatOf b" "formatOf (b\<lparr>b_disputes := y\<rparr>) = formatOf b"
  "formatOf (b\<lparr>b_finalized := z\<rparr>) = formatOf b" "formatOf (b\<lparr>b_computedWinners := w\<rparr>) = formatOf b"
  by (simp_all add: formatOf_def split: bracket_format.split)

lemma entrants_frame [simp]:
  "entrants_of (b\<lparr>b_results := v\<rparr>) = entrants_of b"
  "entrants_of (b\<lparr>b_reports := x\<rparr>) = entrants_of b" "entrants_of (b\<lparr>b_disputes := y\<rparr>) = entrants_of b"
  "entrants_of (b\<lparr>b_finalized := z\<rparr>) = entrants_of b"
  "entrants_of (b\<lparr>b_computedWinners := w\<rparr>) = entrants_of b"
  by (simp_all add: entrants_of_def)

text \<open>One more result is one more \<open>record\<close>.\<close>

lemma reconstruct_snoc:
  assumes "reconstruct b = Inr t"
  shows "reconstruct (b\<lparr>b_results := b_results b @ [\<lparr>mr_matchId = i, mr_outcome = o1\<rparr>]\<rparr>) =
    record_result i (engine_outcome o1) t"
proof -
  from assms obtain t0 where t0: "new_tournament (formatOf b) (entrants_of b) = Inr t0"
    "replay (engine_results (b_results b)) t0 = Inr t"
    by (auto simp: reconstruct_def bind_result_eq_Inr)
  have "bind_result x Inr = x" for x :: "tournament engine" by (cases x) simp_all
  moreover have "replay [] = Inr" by (rule ext) simp
  ultimately show ?thesis
    using t0 by (simp add: reconstruct_def engine_results_def replay_append)
qed

text \<open>The engine does not look at the other fields of a bracket.\<close>

lemma reconstruct_frame [simp]:
  "reconstruct (b\<lparr>b_reports := x\<rparr>) = reconstruct b" "reconstruct (b\<lparr>b_disputes := y\<rparr>) = reconstruct b"
  "reconstruct (b\<lparr>b_finalized := z\<rparr>) = reconstruct b" "reconstruct (b\<lparr>b_computedWinners := w\<rparr>) = reconstruct b"
  by (simp_all add: reconstruct_def)

end
