(* ===== verification/Reports.thy ===== *)
theory Reports
  imports Http
begin

text \<open>
  Player reports, \<open>POST /api/tournament/[id]/report\<close>
  (\<open>app/api/tournament/[id]/report/route.ts\<close>): a signed report of one side of a match; when
  both sides agree the result is recorded, when they differ the match is disputed.
  \<open>ethers.verifyMessage\<close> is an argument: it returns the recovered address or throws (\<open>None\<close>).
\<close>

section \<open>The handler\<close>

record report_request =
  q_contentLength :: "int option"
  q_tid :: "int option"
  q_wallet :: "string option"
  q_matchId :: "int option"
  q_outcome :: "string option"
  q_nonce :: "string option"
  q_ts :: "int option"
  q_sig :: "string option"

datatype report_status = Waiting | Confirmed | Disputed

definition other_report_side :: "report_side \<Rightarrow> report_side" where
  "other_report_side s = (case s of RA \<Rightarrow> RB | RB \<Rightarrow> RA)"

definition engine_side :: "report_side \<Rightarrow> side" where
  "engine_side s = (case s of RA \<Rightarrow> SideA | RB \<Rightarrow> SideB)"

definition report_message :: "int \<Rightarrow> int \<Rightarrow> string \<Rightarrow> string \<Rightarrow> int \<Rightarrow> string" where
  "report_message tid matchId outcome nonce ts =
     ''AMP-report:'' @ show_int tid @ '':'' @ show_int matchId @ '':'' @ outcome @ '':'' @
     nonce @ '':'' @ show_int ts"

text \<open>The side of the match the player is on, \<open>match.a?.id === player.id\<close> first.\<close>

definition player_side :: "bracket_match \<Rightarrow> int \<Rightarrow> report_side option" where
  "player_side m pid =
     (if map_option ent_id (m_a m) = Some pid then Some RA
      else if map_option ent_id (m_b m) = Some pid then Some RB else None)"

text \<open>Lines 91 to 111: put the report in, compare with the other side, update the bracket.\<close>

definition file_report ::
  "int \<Rightarrow> report_side \<Rightarrow> string \<Rightarrow> string \<Rightarrow> bracket_state \<Rightarrow> report_status \<times> bracket_state" where
  "file_report matchId side wallet outcome b =
     (let reports = filter (\<lambda>r. \<not> (rp_matchId r = matchId \<and> rp_side r = side)) (or_empty (b_reports b)) @
            [\<lparr>rp_matchId = matchId, rp_side = side, rp_wallet = wallet, rp_outcome = outcome\<rparr>];
          other = List.find (\<lambda>r. rp_matchId r = matchId \<and> rp_side r = other_report_side side) reports;
          disputes = or_empty (b_disputes b)
      in case other of
           None \<Rightarrow> (Waiting, b\<lparr>b_reports := Some reports, b_disputes := Some disputes\<rparr>)
         | Some r \<Rightarrow>
             if rp_outcome r = outcome
             then (Confirmed, b\<lparr>b_results := b_results b @ [\<lparr>mr_matchId = matchId, mr_outcome = outcome\<rparr>],
                     b_reports := Some reports, b_disputes := Some disputes\<rparr>)
             else (Disputed, b\<lparr>b_reports := Some reports,
                     b_disputes := Some (if matchId \<in> set disputes then disputes else disputes @ [matchId])\<rparr>))"

text \<open>Lines 76 to 111, on the bracket that was read: an error reply, or the bracket to save.\<close>

definition judge_report ::
  "int \<Rightarrow> string \<Rightarrow> string \<Rightarrow> bracket_state \<Rightarrow> (report_status \<times> bracket_state) reply" where
  "judge_report matchId wallet outcome b =
     (if b_finalized b = Some True then Err 400 ''tournament finalized''
      else case List.find (\<lambda>p. toLowerCase (p_wallet p) = toLowerCase wallet) (b_players b) of
        None \<Rightarrow> Err 403 ''not a player''
      | Some player \<Rightarrow>
          (case reconstruct b of
             Inl e \<Rightarrow> Crash e
           | Inr engine \<Rightarrow>
               (case List.find (\<lambda>m. m_id m = matchId) (matches engine) of
                  None \<Rightarrow> Err 404 ''match not found''
                | Some m \<Rightarrow>
                    if m_outcome m \<noteq> None then Err 400 ''match decided''
                    else (case player_side m (p_id player) of
                            None \<Rightarrow> Err 403 ''not in this match''
                          | Some side \<Rightarrow> Ok (file_report matchId side wallet outcome b)))))"

text \<open>Lines 70 to 114, once the signature is verified: consume the nonce, read, judge, save.\<close>

definition report_body :: "int \<Rightarrow> int \<Rightarrow> string \<Rightarrow> string \<Rightarrow> string \<Rightarrow> db \<Rightarrow> report_status reply \<times> db" where
  "report_body tid matchId wallet outcome nonce d =
     (let (fresh, d1) = useNonce (toLowerCase wallet) tid matchId nonce d
      in if \<not> fresh then (Err 409 ''nonce already used'', d1)
         else case getBracket tid d1 of
           None \<Rightarrow> (Err 404 ''bracket not found'', d1)
         | Some b \<Rightarrow>
             (case judge_report matchId wallet outcome b of
                Ok (status, b') \<Rightarrow> (Ok status, saveBracket tid b' d1)
              | Err c msg \<Rightarrow> (Err c msg, d1)
              | Crash e \<Rightarrow> (Crash e, d1)))"

definition report_route ::
  "(string \<Rightarrow> string \<Rightarrow> string option) \<Rightarrow> int \<Rightarrow> report_request \<Rightarrow> db \<Rightarrow> report_status reply \<times> db" where
  "report_route verifyMessage now q d =
     (if validateBodySize (q_contentLength q) then (Err 413 ''payload too large'', d)
      else case q_tid q of None \<Rightarrow> (Err 400 ''bad id'', d)
      | Some tid \<Rightarrow>
          if no_string (q_wallet q) \<or> q_matchId q = None \<or> no_string (q_outcome q) \<or> no_string (q_nonce q)
             \<or> no_number (q_ts q) \<or> no_string (q_sig q)
          then (Err 400 ''wallet, matchId, outcome, nonce, ts, sig required'', d)
          else
            (let wallet = the (q_wallet q); matchId = the (q_matchId q); outcome = the (q_outcome q);
                 nonce = the (q_nonce q); ts = the (q_ts q)
             in if \<bar>now - ts\<bar> > 60 then (Err 400 ''timestamp expired'', d)
                else case verifyMessage (report_message tid matchId outcome nonce ts) (the (q_sig q)) of
                  None \<Rightarrow> (Err 401 ''invalid signature'', d)
                | Some recovered \<Rightarrow>
                    if toLowerCase recovered \<noteq> toLowerCase wallet
                    then (Err 401 ''signature does not match wallet'', d)
                    else report_body tid matchId wallet outcome nonce d))"

section \<open>Guards\<close>

definition report_key :: "report_request \<Rightarrow> nonce_key" where
  "report_key q = (toLowerCase (the (q_wallet q)), the (q_tid q), the (q_matchId q), the (q_nonce q))"

text \<open>The checks that come before the first write.\<close>

definition report_admissible ::
  "(string \<Rightarrow> string \<Rightarrow> string option) \<Rightarrow> int \<Rightarrow> report_request \<Rightarrow> bool" where
  "report_admissible verifyMessage now q \<longleftrightarrow>
     \<not> validateBodySize (q_contentLength q) \<and> q_tid q \<noteq> None \<and> \<not> no_string (q_wallet q) \<and>
     q_matchId q \<noteq> None \<and> \<not> no_string (q_outcome q) \<and> \<not> no_string (q_nonce q) \<and>
     \<not> no_number (q_ts q) \<and> \<not> no_string (q_sig q) \<and> \<bar>now - the (q_ts q)\<bar> \<le> 60 \<and>
     (\<exists>r. verifyMessage (report_message (the (q_tid q)) (the (q_matchId q)) (the (q_outcome q))
            (the (q_nonce q)) (the (q_ts q))) (the (q_sig q)) = Some r \<and>
          toLowerCase r = toLowerCase (the (q_wallet q)))"

abbreviation admitted_report :: "report_request \<Rightarrow> db \<Rightarrow> report_status reply \<times> db" where
  "admitted_report q d \<equiv> report_body (the (q_tid q)) (the (q_matchId q)) (the (q_wallet q))
     (the (q_outcome q)) (the (q_nonce q)) d"

lemma report_admitted: "report_admissible v now q \<Longrightarrow> report_route v now q d = admitted_report q d"
  by (auto simp: report_route_def report_admissible_def Let_def)

lemma report_rejected: "\<not> report_admissible v now q \<Longrightarrow> \<exists>c msg. report_route v now q d = (Err c msg, d)"
  unfolding report_route_def report_admissible_def Let_def
  by (simp split: option.split) (intro allI impI, auto)

lemma report_route_cases:
  obtains (rejected) c msg where "\<not> report_admissible v now q" "report_route v now q d = (Err c msg, d)"
  | (admitted) "report_admissible v now q" "report_route v now q d = admitted_report q d"
  using report_admitted report_rejected by blast

lemma report_body_nonce:
  "nonce_used k (snd (report_body tid i w out n d)) \<longleftrightarrow> k = (toLowerCase w, tid, i, n) \<or> nonce_used k d"
  "nonce_used (toLowerCase w, tid, i, n) d \<Longrightarrow> report_body tid i w out n d = (Err 409 ''nonce already used'', d)"
proof -
  have "d_nonces (snd (report_body tid i w out n d)) = d_nonces (snd (useNonce (toLowerCase w) tid i n d))"
    by (auto simp: report_body_def Let_def case_prod_unfold split: option.split reply.split)
  then show "nonce_used k (snd (report_body tid i w out n d)) \<longleftrightarrow> k = (toLowerCase w, tid, i, n) \<or> nonce_used k d"
    using nonces.try_marks [of k "(toLowerCase w, tid, i, n)" d] by (simp add: nonce_used_def)
  show "nonce_used (toLowerCase w, tid, i, n) d \<Longrightarrow> report_body tid i w out n d = (Err 409 ''nonce already used'', d)"
    by (simp add: report_body_def useNonce_def nonce_used_def Let_def)
qed

section \<open>Sequences of requests\<close>

fun report_run ::
  "(string \<Rightarrow> string \<Rightarrow> string option) \<Rightarrow> (int \<times> report_request) list \<Rightarrow> db \<Rightarrow>
     report_status reply list \<times> db" where
  "report_run v [] d = ([], d)"
| "report_run v ((now, q) # qs) d =
     (let (r, d1) = report_route v now q d; (rs, d2) = report_run v qs d1 in (r # rs, d2))"

fun is_ok :: "'a reply \<Rightarrow> bool" where
  "is_ok (Ok x) = True"
| "is_ok _ = False"

definition accepted :: "nonce_key \<Rightarrow> (int \<times> report_request) list \<Rightarrow> report_status reply list \<Rightarrow> nat" where
  "accepted k qs rs = length (filter (\<lambda>((now, q), r). report_key q = k \<and> is_ok r) (zip qs rs))"

lemma accepted_used: "nonce_used k d \<Longrightarrow> accepted k qs (fst (report_run v qs d)) = 0"
proof (induction qs arbitrary: d)
  case (Cons x qs)
  obtain now q where x: "x = (now, q)" by force
  have "nonce_used k (snd (report_route v now q d))"
    by (rule report_route_cases [of v now q d]) (use Cons.prems report_body_nonce(1) in simp_all)
  moreover have "\<not> (report_key q = k \<and> is_ok (fst (report_route v now q d)))"
    by (rule report_route_cases [of v now q d]) (use Cons.prems report_body_nonce(2) in \<open>auto simp: report_key_def\<close>)
  ultimately show ?case
    using Cons.IH by (auto simp: x accepted_def Let_def case_prod_unfold)
qed (simp add: accepted_def)

text \<open>Replay protection: in any sequence of report requests, however they are signed and timed, at
  most one request with a given wallet, tournament, match and nonce is accepted.\<close>

theorem report_nonce_single_use: "accepted k qs (fst (report_run v qs d)) \<le> 1"
proof (induction qs arbitrary: d)
  case (Cons x qs)
  obtain now q where x: "x = (now, q)" by force
  let ?r = "report_route v now q d"
  have "accepted k (x # qs) (fst (report_run v (x # qs) d)) =
      (if report_key q = k \<and> is_ok (fst ?r) then 1 else 0) + accepted k qs (fst (report_run v qs (snd ?r)))"
    by (simp add: x accepted_def Let_def case_prod_unfold)
  moreover have "nonce_used k (snd ?r)" if "report_key q = k" "is_ok (fst ?r)"
    by (rule report_route_cases [of v now q d]) (use that report_body_nonce(1) in \<open>auto simp: report_key_def\<close>)
  ultimately show ?case
    using Cons.IH [of "snd ?r"] accepted_used [of k "snd ?r" qs v] by (auto split: if_splits)
qed (simp add: accepted_def)

text \<open>No report changes anything without a valid signature: when a request is accepted or the
  database changes, its timestamp is at most 60 seconds off and the signature over tournament,
  match, outcome, nonce and timestamp recovers the wallet of the request.\<close>

theorem report_needs_signature:
  assumes "report_route verifyMessage now q d = (reply, d')" "is_ok reply \<or> d' \<noteq> d"
  shows "\<bar>now - the (q_ts q)\<bar> \<le> 60 \<and>
    (\<exists>r. verifyMessage (report_message (the (q_tid q)) (the (q_matchId q)) (the (q_outcome q))
        (the (q_nonce q)) (the (q_ts q))) (the (q_sig q)) = Some r \<and>
      toLowerCase r = toLowerCase (the (q_wallet q)))"
  by (rule report_route_cases [of verifyMessage now q d])
    (use assms in \<open>auto simp: report_admissible_def\<close>)

section \<open>What filing a report does\<close>

lemma file_report_results:
  assumes "file_report matchId side wallet outcome b = (st, b')"
  shows "b_results b' = (if st = Confirmed then b_results b @ [\<lparr>mr_matchId = matchId, mr_outcome = outcome\<rparr>] else b_results b)"
    and "b_players b' = b_players b" "b_format b' = b_format b" "b_finalized b' = b_finalized b"
    and "set (or_empty (b_reports b')) \<subseteq> set (or_empty (b_reports b)) \<union>
      {\<lparr>rp_matchId = matchId, rp_side = side, rp_wallet = wallet, rp_outcome = outcome\<rparr>}"
    and "reconstruct b' = (if st = Confirmed
      then reconstruct (b\<lparr>b_results := b_results b @ [\<lparr>mr_matchId = matchId, mr_outcome = outcome\<rparr>]\<rparr>)
      else reconstruct b)"
  using assms by (auto simp: file_report_def Let_def split: option.splits if_splits)

lemma other_side_differs [simp]: "other_report_side side \<noteq> side" "side \<noteq> other_report_side side"
  by (cases side; simp add: other_report_side_def)+

text \<open>The report of the other side is the stored one: filing does not touch it.\<close>

lemma file_report_status:
  assumes "file_report matchId side wallet outcome b = (st, b')"
  shows "st = (case List.find (\<lambda>r. rp_matchId r = matchId \<and> rp_side r = other_report_side side) (or_empty (b_reports b)) of
      None \<Rightarrow> Waiting | Some r \<Rightarrow> if rp_outcome r = outcome then Confirmed else Disputed)"
proof -
  have find: "List.find P (filter Q xs @ ys) = (case List.find P xs of None \<Rightarrow> List.find P ys | Some x \<Rightarrow> Some x)"
    if "\<And>x. P x \<Longrightarrow> Q x" for P Q :: "match_report \<Rightarrow> bool" and xs ys
    using that by (induction xs) auto
  let ?P = "\<lambda>r. rp_matchId r = matchId \<and> rp_side r = other_report_side side"
  have "List.find ?P (filter (\<lambda>r. \<not> (rp_matchId r = matchId \<and> rp_side r = side)) (or_empty (b_reports b)) @
      [\<lparr>rp_matchId = matchId, rp_side = side, rp_wallet = wallet, rp_outcome = outcome\<rparr>]) =
    List.find ?P (or_empty (b_reports b))"
    by (subst find) (auto split: option.split)
  then show ?thesis using assms by (auto simp: file_report_def Let_def split: option.splits if_splits)
qed

section \<open>Confirmed results can be replayed\<close>

text \<open>
  A bracket is sound when the engine replays its results, and every stored report is for a side
  that is taken in the replayed tournament.
\<close>

definition sound_bracket :: "bracket_state \<Rightarrow> bool" where
  "sound_bracket b \<longleftrightarrow>
     (\<exists>t. reconstruct b = Inr t \<and>
       (\<forall>r \<in> set (or_empty (b_reports b)). \<exists>m. map_of (t_matchMap t) (rp_matchId r) = Some m \<and>
          matchSide m (engine_side (rp_side r)) \<noteq> None))"

lemma player_side_taken: "player_side m pid = Some side \<Longrightarrow> matchSide m (engine_side side) \<noteq> None"
  by (auto simp: player_side_def engine_side_def split: if_splits)

lemma judge_Ok:
  assumes "judge_report matchId wallet outcome b = Ok (st, b')"
  obtains t m side p where "reconstruct b = Inr t" "map_of (t_matchMap t) matchId = Some m"
    "m_outcome m = None" "player_side m (p_id p) = Some side" "p \<in> set (b_players b)"
    "toLowerCase (p_wallet p) = toLowerCase wallet" "file_report matchId side wallet outcome b = (st, b')"
    "b_finalized b \<noteq> Some True"
proof -
  from assms obtain p t m side where 1: "List.find (\<lambda>p. toLowerCase (p_wallet p) = toLowerCase wallet) (b_players b) = Some p"
    "reconstruct b = Inr t" "List.find (\<lambda>m. m_id m = matchId) (matches t) = Some m" "m_outcome m = None"
    "player_side m (p_id p) = Some side" "file_report matchId side wallet outcome b = (st, b')"
    "b_finalized b \<noteq> Some True"
    by (auto simp: judge_report_def split: if_splits option.splits sum.splits)
  have "m \<in> set (matches t)" "m_id m = matchId" using find_Some_iff_hd [OF 1(3)] by simp_all
  then have "map_of (t_matchMap t) matchId = Some m"
    using reachable_matches [OF reconstruct_reachable [OF 1(2)]] by metis
  with that 1 find_Some_iff_hd [OF 1(1)] show thesis by blast
qed

lemma sides_persist:
  assumes "reachable fmt es t" "record_result i out t = Inr t'" "map_of (t_matchMap t) j = Some m" "matchSide m s \<noteq> None"
  shows "\<exists>m'. map_of (t_matchMap t') j = Some m' \<and> matchSide m' s \<noteq> None"
  using grows_record(1) [OF reachable_inv [OF assms(1)] assms(2)] assms(3,4)
  by (fastforce simp: grows_def refines_def)

lemma engine_side_cases: "matchSide m (engine_side side) \<noteq> None \<Longrightarrow>
    matchSide m (engine_side (other_report_side side)) \<noteq> None \<Longrightarrow> m_a m \<noteq> None \<and> m_b m \<noteq> None"
  by (cases side) (simp_all add: engine_side_def other_report_side_def)

lemma confirmed_ready:
  assumes "sound_bracket b" "judge_report matchId wallet outcome b = Ok (Confirmed, b')"
  obtains t m where "reconstruct b = Inr t" "map_of (t_matchMap t) matchId = Some m" "isReady m"
    "reconstruct b' = record_result matchId (engine_outcome outcome) t"
proof -
  from assms(2) obtain t m side and p :: player where j: "reconstruct b = Inr t" "map_of (t_matchMap t) matchId = Some m"
    "m_outcome m = None" "player_side m (p_id p) = Some side"
    "file_report matchId side wallet outcome b = (Confirmed, b')" by (rule judge_Ok) blast
  from file_report_status [OF j(5)] obtain r where
    "List.find (\<lambda>r. rp_matchId r = matchId \<and> rp_side r = other_report_side side) (or_empty (b_reports b)) = Some r"
    by (auto split: option.splits)
  then have r: "r \<in> set (or_empty (b_reports b))" "rp_matchId r = matchId" "rp_side r = other_report_side side"
    by (auto dest: find_Some_iff_hd)
  with assms(1) j(1,2) have "matchSide m (engine_side (other_report_side side)) \<noteq> None"
    by (fastforce simp: sound_bracket_def)
  with player_side_taken [OF j(4)] have "m_a m \<noteq> None \<and> m_b m \<noteq> None" by (rule engine_side_cases)
  with j(3) have "isReady m" by (simp add: isReady_def)
  moreover have "reconstruct b' = record_result matchId (engine_outcome outcome) t"
    using file_report_results(6) [OF j(5)] reconstruct_snoc [OF j(1)] by simp
  ultimately show thesis using that j(1,2) by blast
qed

text \<open>C25. Accepting a report keeps a bracket sound, unless it confirms a draw in a knock-out cup:
  whatever two players agree on can be replayed by the engine, and every report stays attached
  to a side that is taken.\<close>

theorem report_keeps_sound:
  assumes "sound_bracket b" "judge_report matchId wallet outcome b = Ok (st, b')"
    and "\<not> (st = Confirmed \<and> formatOf b = SingleElimination \<and> outcome = ''Draw'')"
  shows "sound_bracket b'"
proof -
  from assms(2) obtain t m side and p :: player where j: "reconstruct b = Inr t" "map_of (t_matchMap t) matchId = Some m"
    "player_side m (p_id p) = Some side" "file_report matchId side wallet outcome b = (st, b')" by (rule judge_Ok) blast
  note filed = file_report_results [OF j(4)]
  have new: "\<exists>m. map_of (t_matchMap t) (rp_matchId r) = Some m \<and> matchSide m (engine_side (rp_side r)) \<noteq> None"
    if "r \<in> set (or_empty (b_reports b'))" for r
  proof (cases "r \<in> set (or_empty (b_reports b))")
    case True
    with assms(1) j(1) show ?thesis by (auto simp: sound_bracket_def)
  next
    case False
    with that filed(5) have "rp_matchId r = matchId" "rp_side r = side" by auto
    with j(2) player_side_taken [OF j(3)] show ?thesis by simp
  qed
  show ?thesis
  proof (cases "st = Confirmed")
    case False
    with filed(6) j(1) new show ?thesis by (auto simp: sound_bracket_def)
  next
    case True
    with assms(1,2) obtain t1 m1 where 1: "reconstruct b = Inr t1" "map_of (t_matchMap t1) matchId = Some m1"
      "isReady m1" "reconstruct b' = record_result matchId (engine_outcome outcome) t1"
      by (auto elim: confirmed_ready)
    have t1: "t1 = t" using 1(1) j(1) by simp
    note reach = reconstruct_reachable [OF j(1)]
    have "t_format t = formatOf b" using reachable_inv [OF reach] by (simp add: driver_inv_def)
    moreover have "engine_outcome outcome = OutDraw \<longleftrightarrow> outcome = ''Draw''" by (simp add: engine_outcome_def)
    ultimately obtain t' where t': "record_result matchId (engine_outcome outcome) t = Inr t'"
      using 1(2,3) t1 assms(3) True by (fastforce simp: record_result_Inr)
    then have "reconstruct b' = Inr t'" using 1(4) t1 by simp
    moreover have "\<exists>m. map_of (t_matchMap t') (rp_matchId r) = Some m \<and> matchSide m (engine_side (rp_side r)) \<noteq> None"
      if "r \<in> set (or_empty (b_reports b'))" for r
      using new [OF that] sides_persist [OF reach t'] by blast
    ultimately show ?thesis by (auto simp: sound_bracket_def)
  qed
qed

text \<open>A confirmed draw poisons a knock-out cup: the report handler accepts it without asking the
  engine, and from then on the stored bracket cannot be replayed, so every report by a player
  of the cup dies on the exception.\<close>

theorem draw_poisons_cup:
  assumes "sound_bracket b" "formatOf b = SingleElimination"
    and "judge_report matchId wallet ''Draw'' b = Ok (Confirmed, b')"
  shows "reconstruct b' = Inl DrawNotAllowed \<and>
    (\<forall>p \<in> set (b_players b). \<forall>i out. judge_report i (p_wallet p) out b' = Crash DrawNotAllowed)"
proof -
  from assms(1,3) obtain t m where 1: "reconstruct b = Inr t" "map_of (t_matchMap t) matchId = Some m"
    "isReady m" "reconstruct b' = record_result matchId (engine_outcome ''Draw'') t" by (rule confirmed_ready)
  have "t_format t = SingleElimination"
    using reachable_inv [OF reconstruct_reachable [OF 1(1)]] assms(2) by (simp add: driver_inv_def)
  then have bad: "reconstruct b' = Inl DrawNotAllowed"
    using 1 by (simp add: record_result_def engine_outcome_def)
  from assms(3) obtain side where f: "file_report matchId side wallet ''Draw'' b = (Confirmed, b')"
    "b_finalized b \<noteq> Some True" by (rule judge_Ok) blast
  have "judge_report i (p_wallet p) out b' = Crash DrawNotAllowed" if "p \<in> set (b_players b)" for p i out
  proof -
    have "List.find (\<lambda>p'. toLowerCase (p_wallet p') = toLowerCase (p_wallet p)) (b_players b') \<noteq> None"
      using that file_report_results(2) [OF f(1)] by (auto simp: find_None_iff)
    then show ?thesis
      using bad f(2) file_report_results(4) [OF f(1)] by (auto simp: judge_report_def)
  qed
  with bad show ?thesis by blast
qed

section \<open>A bracket of three, for the closed instances\<close>

definition demo_players :: "player list" where
  "demo_players = map (\<lambda>i. \<lparr>p_id = i, p_wallet = ''0xA'' @ show_int i, p_name = ''P'', p_seed = i\<rparr>) [1..3]"

definition demo_bracket :: bracket_state where
  "demo_bracket = \<lparr>b_format = F_single_elimination, b_swissRounds = None, b_players = demo_players,
     b_results = [], b_finalized = None, b_computedWinners = None,
     b_reports = Some [\<lparr>rp_matchId = 1, rp_side = RA, rp_wallet = ''0xa1'', rp_outcome = ''Draw''\<rparr>],
     b_disputes = None\<rparr>"

definition demo_engine :: tournament where
  "demo_engine = projr (reconstruct demo_bracket)"

lemma demo_sound: "sound_bracket demo_bracket"
proof -
  have "\<not> isl (reconstruct demo_bracket)" by code_simp
  then have "reconstruct demo_bracket = Inr demo_engine"
    unfolding demo_engine_def by (rule sum.collapse(2) [symmetric])
  moreover have "map_of (t_matchMap demo_engine) 1 \<noteq> None" "m_a (the (map_of (t_matchMap demo_engine) 1)) \<noteq> None"
    by code_simp+
  then have "\<forall>r \<in> set (or_empty (b_reports demo_bracket)).
      \<exists>m. map_of (t_matchMap demo_engine) (rp_matchId r) = Some m \<and> matchSide m (engine_side (rp_side r)) \<noteq> None"
    by (auto simp: demo_bracket_def engine_side_def)
  ultimately show ?thesis unfolding sound_bracket_def by blast
qed

definition demo_judged :: "string \<Rightarrow> report_status \<times> bracket_state" where
  "demo_judged out = file_report 1 RB ''0xa3'' out demo_bracket"

lemma demo_judge: "judge_report 1 ''0xa3'' ''Draw'' demo_bracket = Ok (Confirmed, snd (demo_judged ''Draw''))"
  "judge_report 1 ''0xa3'' ''A'' demo_bracket = Ok (Disputed, snd (demo_judged ''A''))"
  by code_simp+

theorem report_keeps_sound_witness: "sound_bracket (snd (demo_judged ''A''))"
  by (rule report_keeps_sound [OF demo_sound demo_judge(2)]) simp

theorem draw_poisons_cup_witness: "reconstruct (snd (demo_judged ''Draw'')) = Inl DrawNotAllowed"
proof -
  have "formatOf demo_bracket = SingleElimination" by code_simp
  from draw_poisons_cup [OF demo_sound this demo_judge(1)] show ?thesis by (rule conjunct1)
qed

definition demo_verify :: "string \<Rightarrow> string \<Rightarrow> string option" where
  "demo_verify msg sig = (if sig = ''s3'' then Some ''0xa3'' else None)"

definition demo_request :: report_request where
  "demo_request = \<lparr>q_contentLength = Some 200, q_tid = Some 7, q_wallet = Some ''0xA3'', q_matchId = Some 1,
     q_outcome = Some ''A'', q_nonce = Some ''n1'', q_ts = Some 100, q_sig = Some ''s3''\<rparr>"

definition demo_db :: db where
  "demo_db = saveBracket 7 demo_bracket empty_db"

theorem report_needs_signature_witness:
  "\<exists>r. demo_verify (report_message 7 1 ''A'' ''n1'' 100) ''s3'' = Some r \<and> toLowerCase r = toLowerCase ''0xA3''"
proof -
  let ?r = "report_route demo_verify 120 demo_request demo_db"
  have ok: "is_ok (fst ?r) \<or> snd ?r \<noteq> demo_db" by (rule disjI1) code_simp
  have "?r = (fst ?r, snd ?r)" by (rule surjective_pairing)
  from conjunct2 [OF report_needs_signature [OF this ok]] show ?thesis
    by (simp only: demo_request_def report_request.simps option.sel)
qed

end
