(* ===== verification/Organizer.thy ===== *)
theory Organizer
  imports Reports
begin

text \<open>
  The routes of the organizer: \<open>init\<close>, \<open>bracket\<close>, \<open>finalize\<close> and \<open>auth\<close> under
  \<open>app/api/tournament/[id]\<close>, and the read routes \<open>tournament/[id]\<close>, \<open>tournaments\<close> and \<open>job/[id]\<close>.
  A path parameter that \<open>Number\<close> does not read as a finite number is \<open>None\<close>; the clock
  and the random bytes are arguments, as are \<open>ethers.verifyMessage\<close> and
  \<open>ethers.isAddress\<close>.
\<close>

section \<open>Registering a bracket\<close>

record init_request =
  n_contentLength :: "int option"
  n_tid :: "int option"
  n_auth :: "string option"
  n_sponsor :: "string option"
  n_prizePoolWei :: "string option"
  n_payoutBps :: "int list option"
  n_format :: "bracket_format option"
  n_swissRounds :: "int option"
  n_players :: "player list option"
  n_txHash :: "string option"

definition or_else :: "'a option \<Rightarrow> 'a \<Rightarrow> 'a" where
  "or_else x y = (case x of None \<Rightarrow> y | Some v \<Rightarrow> v)"

lemma or_else_simps [simp]: "or_else None y = y" "or_else (Some x) y = x"
  by (simp_all add: or_else_def)

definition ZERO_ADDRESS :: string where
  "ZERO_ADDRESS = ''0x'' @ replicate 40 (CHR ''0'')"

text \<open>Lines 40 to 48: the checks on the body.\<close>

definition init_body_error :: "init_request \<Rightarrow> string option" where
  "init_body_error q =
     (case (n_payoutBps q, n_format q, n_players q) of
        (Some bps, Some _, Some players) \<Rightarrow>
          if foldl (+) 0 bps \<noteq> 10000 then Some ''payoutBps must sum to 10000''
          else if length bps > 16 then Some ''too many placements''
          else if length players > 1024 then Some ''too many players''
          else None
      | _ \<Rightarrow> Some ''missing fields'')"

definition init_record :: "8 word list \<Rightarrow> int \<Rightarrow> int \<Rightarrow> init_request \<Rightarrow> tournament_record" where
  "init_record buf now tid q =
     \<lparr>r_tournamentId = tid, r_sponsor = or_else (n_sponsor q) ''0x0'',
      r_prizePoolWei = or_else (n_prizePoolWei q) ''0'', r_token = ZERO_ADDRESS,
      r_payoutBps = the (n_payoutBps q), r_winnerWallets = [], r_state = OPEN, r_mode = Some Bracket,
      r_manageToken = Some (generateManageToken buf), r_organizerWallet = n_sponsor q,
      r_paypalOrderId = None, r_txHash = n_txHash q, r_createdAt = now\<rparr>"

definition init_bracket :: "init_request \<Rightarrow> bracket_state" where
  "init_bracket q =
     \<lparr>b_format = the (n_format q), b_swissRounds = n_swissRounds q, b_players = the (n_players q),
      b_results = [], b_finalized = None, b_computedWinners = None, b_reports = None, b_disputes = None\<rparr>"

definition init_route :: "8 word list \<Rightarrow> int \<Rightarrow> init_request \<Rightarrow> db \<Rightarrow> string reply \<times> db" where
  "init_route buf now q d =
     (if validateBodySize (n_contentLength q) then (Err 413 ''payload too large'', d)
      else case n_tid q of None \<Rightarrow> (Err 400 ''bad id'', d)
      | Some tid \<Rightarrow>
          if getTournament tid d \<noteq> None \<and> requireOrganizer (n_auth q) tid d = None
          then (Err 401 ''unauthorized'', d)
          else (case init_body_error q of
                  Some msg \<Rightarrow> (Err 400 msg, d)
                | None \<Rightarrow>
                    (Ok (generateManageToken buf),
                     saveBracket tid (init_bracket q) (saveTournament (init_record buf now tid q) d))))"

section \<open>Overwriting a bracket\<close>

record put_request =
  u_contentLength :: "int option"
  u_tid :: "int option"
  u_auth :: "string option"
  u_format :: "bracket_format option"
  u_swissRounds :: "int option"
  u_players :: "player list option"
  u_results :: "match_result list option"
  u_finalized :: "bool option"
  u_computedWinners :: "string list option"
  u_reports :: "match_report list option"
  u_disputes :: "int list option"

text \<open>The body is stored as it was sent.\<close>

definition put_bracket :: "put_request \<Rightarrow> bracket_state" where
  "put_bracket q =
     \<lparr>b_format = the (u_format q), b_swissRounds = u_swissRounds q, b_players = the (u_players q),
      b_results = the (u_results q), b_finalized = u_finalized q, b_computedWinners = u_computedWinners q,
      b_reports = u_reports q, b_disputes = u_disputes q\<rparr>"

definition bracket_route :: "put_request \<Rightarrow> db \<Rightarrow> unit reply \<times> db" where
  "bracket_route q d =
     (if validateBodySize (u_contentLength q) then (Err 413 ''payload too large'', d)
      else case u_tid q of None \<Rightarrow> (Err 400 ''bad id'', d)
      | Some tid \<Rightarrow>
          if requireOrganizer (u_auth q) tid d = None then (Err 401 ''unauthorized'', d)
          else if u_format q = None \<or> u_players q = None \<or> u_results q = None
          then (Err 400 ''invalid bracket state'', d)
          else if length (the (u_players q)) > 1024 \<or> length (the (u_results q)) > 4096
          then (Err 400 ''too many entries'', d)
          else (Ok (), saveBracket tid (put_bracket q) d))"

section \<open>Finalizing\<close>

record finalize_request =
  z_contentLength :: "int option"
  z_tid :: "int option"
  z_auth :: "string option"

text \<open>\<open>bracket.players.find((p) => p.id === id)?.wallet ?? ""\<close>\<close>

definition wallet_of :: "player list \<Rightarrow> int \<Rightarrow> string" where
  "wallet_of players i =
     (case List.find (\<lambda>p. p_id p = i) players of None \<Rightarrow> '''' | Some p \<Rightarrow> p_wallet p)"

definition winner_wallets :: "nat \<Rightarrow> player list \<Rightarrow> int list \<Rightarrow> string list" where
  "winner_wallets placements players ids =
     filter (\<lambda>w. w \<noteq> '''') (map (wallet_of players) (take placements ids))"

lemma winner_wallets_all:
  assumes "mset ids = mset (map p_id ps)" "\<forall>p \<in> set ps. p_wallet p \<noteq> ''''"
  shows "winner_wallets n ps ids = map (wallet_of ps) (take n ids)"
proof -
  have "wallet_of ps i \<noteq> ''''" if "i \<in> set (take n ids)" for i
  proof -
    from that have "i \<in> set ids" by (rule in_set_takeD)
    with mset_eq_setD [OF assms(1)] have "i \<in> p_id ` set ps" by simp
    then obtain p where p: "List.find (\<lambda>p. p_id p = i) ps = Some p"
      by (cases "List.find (\<lambda>p. p_id p = i) ps") (auto simp: find_None_iff)
    with find_Some_iff_hd [OF p] assms(2) show ?thesis by (simp add: wallet_of_def)
  qed
  then show ?thesis unfolding winner_wallets_def by (intro filter_True) auto
qed

text \<open>Lines 39 to 61: replay the results and derive the wallets to pay.\<close>

definition derive_winners :: "nat \<Rightarrow> bracket_state \<Rightarrow> string list reply" where
  "derive_winners placements b =
     (case reconstruct b of
        Inl e \<Rightarrow> Crash e
      | Inr engine \<Rightarrow>
          if \<not> isComplete engine then Err 400 ''bracket not complete''
          else (case winners engine of
                  Inl e \<Rightarrow> Crash e
                | Inr ids \<Rightarrow>
                    (let ws = winner_wallets placements (b_players b) ids
                     in if length ws \<noteq> placements then Err 500 ''winner derivation mismatch'' else Ok ws)))"

definition finalize_route :: "finalize_request \<Rightarrow> db \<Rightarrow> int reply \<times> db" where
  "finalize_route q d =
     (if validateBodySize (z_contentLength q) then (Err 413 ''payload too large'', d)
      else case z_tid q of None \<Rightarrow> (Err 400 ''bad id'', d)
      | Some tid \<Rightarrow>
          (case requireOrganizer (z_auth q) tid d of
             None \<Rightarrow> (Err 401 ''unauthorized'', d)
           | Some rec \<Rightarrow>
               (case getBracket tid d of
                  None \<Rightarrow> (Err 404 ''bracket not found'', d)
                | Some b \<Rightarrow>
                    if b_finalized b = Some True then (Err 400 ''already finalized'', d)
                    else (case derive_winners (length (r_payoutBps rec)) b of
                            Err c msg \<Rightarrow> (Err c msg, d)
                          | Crash e \<Rightarrow> (Crash e, d)
                          | Ok ws \<Rightarrow>
                              (let b' = b\<lparr>b_computedWinners := Some ws, b_finalized := Some True\<rparr>;
                                   (jobId, d') = enqueueJob (Finalize tid) (saveBracket tid b' d)
                               in (Ok jobId, d'))))))"

section \<open>Signing in with a wallet\<close>

record auth_request =
  a_tid :: "int option"
  a_wallet :: "string option"
  a_sig :: "string option"
  a_ts :: "int option"

definition manage_message :: "int \<Rightarrow> int \<Rightarrow> string" where
  "manage_message tid ts = ''AMP-manage:'' @ show_int tid @ '':'' @ show_int ts"

definition owns :: "string \<Rightarrow> tournament_record \<Rightarrow> bool" where
  "owns wallet rec \<longleftrightarrow>
     map_option toLowerCase (r_organizerWallet rec) = Some (toLowerCase wallet) \<or>
     toLowerCase (r_sponsor rec) = toLowerCase wallet"

text \<open>Lines 50 to 68, for a wallet whose signature is verified.\<close>

definition issue_token :: "8 word list \<Rightarrow> int \<Rightarrow> string \<Rightarrow> db \<Rightarrow> string reply \<times> db" where
  "issue_token buf tid wallet d =
     (case getTournament tid d of
        None \<Rightarrow> (Err 404 ''tournament not found'', d)
      | Some rec \<Rightarrow>
          if \<not> owns wallet rec then (Err 403 ''not the organizer'', d)
          else if no_string (r_manageToken rec)
          then (let token = generateManageToken buf
                in (Ok token, saveTournament (rec\<lparr>r_manageToken := Some token\<rparr>) d))
          else (Ok (the (r_manageToken rec)), d))"

definition auth_route ::
  "(string \<Rightarrow> string \<Rightarrow> string option) \<Rightarrow> 8 word list \<Rightarrow> int \<Rightarrow> auth_request \<Rightarrow> db \<Rightarrow> string reply \<times> db" where
  "auth_route verifyMessage buf now q d =
     (case a_tid q of None \<Rightarrow> (Err 400 ''bad id'', d)
      | Some tid \<Rightarrow>
          if no_string (a_wallet q) \<or> no_string (a_sig q) \<or> no_number (a_ts q)
          then (Err 400 ''wallet, sig, ts required'', d)
          else if \<bar>now - the (a_ts q)\<bar> > 300 then (Err 400 ''timestamp expired (5 min window)'', d)
          else (case verifyMessage (manage_message tid (the (a_ts q))) (the (a_sig q)) of
                  None \<Rightarrow> (Err 401 ''invalid signature'', d)
                | Some recovered \<Rightarrow>
                    if toLowerCase recovered \<noteq> toLowerCase (the (a_wallet q))
                    then (Err 401 ''signature mismatch'', d)
                    else issue_token buf tid (the (a_wallet q)) d))"

section \<open>Reading\<close>

definition tournament_route :: "int option \<Rightarrow> db \<Rightarrow> (tournament_record \<times> bracket_state option) reply" where
  "tournament_route path_id d =
     (case path_id of None \<Rightarrow> Err 400 ''bad id''
      | Some tid \<Rightarrow>
          (case getTournament tid d of
             None \<Rightarrow> Err 404 ''not found''
           | Some rec \<Rightarrow> Ok (rec, getBracket tid d)))"

definition tournaments_route ::
  "(string \<Rightarrow> bool) \<Rightarrow> string option \<Rightarrow> db \<Rightarrow> tournament_record list reply" where
  "tournaments_route isAddress param d =
     (let wallet = toLowerCase (or_else param '''')
      in if wallet = '''' \<or> \<not> isAddress wallet then Err 400 ''valid wallet required''
         else Ok (filter (\<lambda>t. map_option toLowerCase (r_organizerWallet t) = Some wallet \<or>
                             toLowerCase (r_sponsor t) = wallet) (listTournaments 200 d)))"

definition job_route :: "int option \<Rightarrow> db \<Rightarrow> relayer_job reply" where
  "job_route path_id d =
     (case path_id of None \<Rightarrow> Err 400 ''bad id''
      | Some i \<Rightarrow> (case getJob i d of None \<Rightarrow> Err 404 ''not found'' | Some j \<Rightarrow> Ok j))"

end
