(* ===== verification/Parity_Fixture.thy ===== *)
theory Parity_Fixture
  imports Engine_Tests Organizer
begin

text \<open>
  The generator of the parity fixtures \<open>engine/__tests__/parity-fixture.test.ts\<close>: knock-out cups played
  at random, whose results and winners the relayer's tests replay. The random numbers are those of
  \<open>mulberry32\<close>, on 32-bit words; the file it writes is the list of cases.
\<close>

unbundle bit_operations_syntax

section \<open>The random numbers\<close>

text \<open>One call of the closure: the number, a fraction of \<open>2 ^ 32\<close>, and the new state.\<close>

definition mulberry32 :: "32 word \<Rightarrow> nat \<times> 32 word" where
  "mulberry32 a0 =
     (let a = a0 + 0x6d2b79f5;
          t1 = (a XOR drop_bit 15 a) * (1 OR a);
          t2 = (t1 + (t1 XOR drop_bit 7 t1) * (61 OR t1)) XOR t1
      in (unat (t2 XOR drop_bit 14 t2), a))"

text \<open>\<open>Math.floor(rng() * n)\<close> and \<open>rng() < 0.5\<close>: the products are exact, so they are taken on integers.\<close>

definition random_index :: "nat \<Rightarrow> nat \<Rightarrow> nat" where
  "random_index r n = (r * n) div 2 ^ 32"

definition random_outcome :: "nat \<Rightarrow> outcome" where
  "random_outcome r = (if 2 * r < 2 ^ 32 then OutA else OutB)"

lemma mulberry32_less: "fst (mulberry32 a) < 2 ^ 32"
  using unsigned_less [where ?'a = nat and ?'b = 32] by (simp add: mulberry32_def Let_def)

lemma random_index_less: "r < 2 ^ 32 \<Longrightarrow> 0 < n \<Longrightarrow> random_index r n < n"
  unfolding random_index_def by (rule less_mult_imp_div_less) (simp add: mult.commute [of n])

section \<open>The cases\<close>

fun hex_of :: "nat \<Rightarrow> string" where
  "hex_of n = (if n < 16 then [hex_digit n] else hex_of (n div 16) @ [hex_digit (n mod 16)])"

declare hex_of.simps [simp del]

definition parity_players :: "nat \<Rightarrow> nat \<Rightarrow> player list" where
  "parity_players n variant = map (\<lambda>i.
     \<lparr>p_id = int i + 1, p_wallet = ''0x'' @ padStart 40 (CHR ''0'') (hex_of (((i + 1) * 0x1111) mod 0xffff)), p_name = '''',
      p_seed = int ((i * 7 + variant * 3) mod n) + 1\<rparr>) [0..<n]"

record parity_case =
  pc_n :: nat
  pc_variant :: nat
  pc_players :: "player list"
  pc_results :: "match_result list"
  pc_winnerWallets :: "string list"

text \<open>The loop: a random pending match gets a random winner.\<close>

fun parity_play :: "nat \<Rightarrow> 32 word \<Rightarrow> tournament \<Rightarrow> match_result list \<Rightarrow> (tournament \<times> match_result list) engine" where
  "parity_play 0 a t results = Inr (t, results)"
| "parity_play (Suc guard) a t results =
     (if isComplete t then Inr (t, results)
      else if pending t = [] then Inr (t, results)
      else (let (r1, a1) = mulberry32 a; (r2, a2) = mulberry32 a1;
                i = pending t ! random_index r1 (length (pending t)); out = random_outcome r2
            in bind_result (record_result i out t) (\<lambda>t1.
                 parity_play guard a2 t1 (results @ [\<lparr>mr_matchId = i, mr_outcome = (if out = OutA then ''A'' else ''B'')\<rparr>]))))"

datatype parity_error = Thrown engine_error | Incomplete nat nat

definition thrown :: "'a engine \<Rightarrow> (parity_error, 'a) result" where
  "thrown r = (case r of Inl e \<Rightarrow> Inl (Thrown e) | Inr x \<Rightarrow> Inr x)"

definition parity_case_of :: "nat \<Rightarrow> nat \<Rightarrow> (parity_error, parity_case) result" where
  "parity_case_of n variant =
     (let players = parity_players n variant
      in bind_result (thrown (new_tournament SingleElimination (map (\<lambda>p. \<lparr>ent_id = p_id p, ent_seed = p_seed p\<rparr>) players))) (\<lambda>t0.
         bind_result (thrown (parity_play 10000 (of_nat (n * 1000 + variant)) t0 [])) (\<lambda>(t, results).
         if \<not> isComplete t then Inl (Incomplete n variant)
         else bind_result (thrown (winners t)) (\<lambda>ids.
           Inr \<lparr>pc_n = n, pc_variant = variant, pc_players = players, pc_results = results,
                pc_winnerWallets = map (wallet_of players) ids\<rparr>))))"

fun parity_cases_from :: "(nat \<times> nat) list \<Rightarrow> (parity_error, parity_case list) result" where
  "parity_cases_from [] = Inr []"
| "parity_cases_from ((n, v) # rest) =
     bind_result (parity_case_of n v) (\<lambda>c. bind_result (parity_cases_from rest) (\<lambda>cs. Inr (c # cs)))"

definition parity_fixtures :: "(parity_error, parity_case list) result" where
  "parity_fixtures = parity_cases_from (List.product [2, 3, 4, 5, 6, 8, 9, 12, 16] [0..<4])"

section \<open>Every case completes\<close>

definition case_bracket :: "player list \<Rightarrow> match_result list \<Rightarrow> bracket_state" where
  "case_bracket players results =
     \<lparr>b_format = F_single_elimination, b_swissRounds = None, b_players = players, b_results = results,
      b_finalized = None, b_computedWinners = None, b_reports = None, b_disputes = None\<rparr>"

lemma parity_loop:
  assumes "new_tournament SingleElimination es = Inr t0" "replay (engine_results results) t0 = Inr t"
    and "OutVoid \<notin> snd ` set (engine_results results)" "length es \<le> length results + guard + 1"
  shows "\<exists>t' results'. parity_play guard a t results = Inr (t', results') \<and> isComplete t' \<and>
    replay (engine_results results') t0 = Inr t' \<and> OutVoid \<notin> snd ` set (engine_results results') \<and>
    length results' + 1 = length es"
  using assms(2-4)
proof (induction guard arbitrary: a t results)
  case 0
  from assms(1) 0(1) obtain k where "cup_inv k es (length (engine_results results)) t" by (rule cup_run)
  from cup_complete_count [OF this] 0 show ?case by (simp add: engine_results_def)
next
  case (Suc guard)
  from assms(1) Suc.prems(1,2) obtain k where k: "cup_inv k es (length (engine_results results)) t" "void_free (t_matchMap t)"
    by (rule cup_run_decisive)
  show ?case
  proof (cases "isComplete t")
    case True
    with Suc.prems cup_complete_count [OF k(1)] show ?thesis by (simp add: engine_results_def)
  next
    case False
    have some: "pending t \<noteq> []" by (rule cup_progress [OF k False])
    obtain r1 a1 where r1: "mulberry32 a = (r1, a1)" by force
    obtain r2 a2 where r2: "mulberry32 a1 = (r2, a2)" by force
    let ?i = "pending t ! random_index r1 (length (pending t))" and ?out = "random_outcome r2"
    have "?i \<in> set (pending t)" using mulberry32_less [of a] random_index_less [of r1] r1 some by (intro nth_mem) simp
    moreover have "?out = OutA \<or> ?out = OutB" by (simp add: random_outcome_def)
    ultimately obtain t1 where t1: "record_result ?i ?out t = Inr t1"
      using replay_reachable [OF created [OF assms(1)] Suc.prems(1)] by (auto simp: pending_iff record_result_Inr)
    let ?results = "results @ [\<lparr>mr_matchId = ?i, mr_outcome = (if ?out = OutA then ''A'' else ''B'')\<rparr>]"
    have out: "engine_outcome (if ?out = OutA then ''A'' else ''B'') = ?out"
      by (simp add: random_outcome_def engine_outcome_def)
    have "replay (engine_results ?results) t0 = Inr t1"
      using Suc.prems(1) t1 out by (simp add: engine_results_def replay_append)
    moreover have "OutVoid \<notin> snd ` set (engine_results ?results)"
      using Suc.prems(2) out by (auto simp: engine_results_def random_outcome_def)
    moreover have "length es \<le> length ?results + guard + 1" using Suc.prems(3) by simp
    ultimately obtain t' results' where "parity_play guard a2 t1 ?results = Inr (t', results')" "isComplete t'"
      "replay (engine_results results') t0 = Inr t'" "OutVoid \<notin> snd ` set (engine_results results')"
      "length results' + 1 = length es" using Suc.IH by blast
    with False some r1 r2 t1 show ?thesis by (simp add: Let_def)
  qed
qed

lemma parity_field:
  assumes "2 \<le> n" "n \<le> 10001"
  shows "length (parity_players n variant) = n" "distinct (map p_id (parity_players n variant))"
    "\<exists>t. new_tournament SingleElimination (map (\<lambda>p. \<lparr>ent_id = p_id p, ent_seed = p_seed p\<rparr>) (parity_players n variant)) = Inr t"
    "\<forall>p \<in> set (parity_players n variant). p_wallet p \<noteq> ''''"
proof -
  show len: "length (parity_players n variant) = n" by (simp add: parity_players_def)
  have "map p_id (parity_players n variant) = map (\<lambda>i. 1 + int i) [0..<n]" by (simp add: parity_players_def add.commute)
  then show ids: "distinct (map p_id (parity_players n variant))" by (simp only: int_upt_distinct)
  show "\<exists>t. new_tournament SingleElimination (map (\<lambda>p. \<lparr>ent_id = p_id p, ent_seed = p_seed p\<rparr>) (parity_players n variant)) = Inr t"
    using assms len ids by (intro elimination_created) (simp_all add: idsUnique_iff comp_def)
  show "\<forall>p \<in> set (parity_players n variant). p_wallet p \<noteq> ''''" by (simp add: parity_players_def)
qed

lemma parity_case_total:
  assumes "2 \<le> n" "n \<le> 10001"
  shows "\<exists>c. parity_case_of n variant = Inr c \<and> length (pc_results c) + 1 = n \<and>
    (\<forall>k \<le> n. derive_winners k (case_bracket (pc_players c) (pc_results c)) = Ok (take k (pc_winnerWallets c)))"
proof -
  let ?ps = "parity_players n variant"
  let ?es = "map (\<lambda>p. \<lparr>ent_id = p_id p, ent_seed = p_seed p\<rparr>) ?ps"
  note field = parity_field [OF assms, of variant]
  from field(3) obtain t0 where t0: "new_tournament SingleElimination ?es = Inr t0" by blast
  have len: "length ?es = n" using field(1) by simp
  have start: "replay (engine_results []) t0 = Inr t0" by (simp add: engine_results_def)
  have none: "OutVoid \<notin> snd ` set (engine_results [])" by (simp add: engine_results_def)
  have "length ?es \<le> length ([] :: match_result list) + 10000 + 1" using assms(2) len by simp
  from parity_loop [OF t0 start none this, of "of_nat (n * 1000 + variant)"] obtain t results where
    t: "parity_play 10000 (of_nat (n * 1000 + variant)) t0 [] = Inr (t, results)" "isComplete t"
    "replay (engine_results results) t0 = Inr t" "OutVoid \<notin> snd ` set (engine_results results)" "length results + 1 = n"
    unfolding len by blast
  from t0 t(3,4) obtain k where k: "cup_inv k ?es (length (engine_results results)) t" "void_free (t_matchMap t)"
    by (rule cup_run_decisive)
  obtain w where w: "champion t = Some (ent_id w)" "w \<in> set ?es" using cup_champion [OF k t(2)] by blast
  have ids: "distinct (map ent_id ?es)" using t0 by (rule new_cup)
  have fmt: "t_format t = SingleElimination" using k(1) by (simp add: cup_inv_def)
  then have win: "winners t = Inr (singleElimOrder t)" by (simp add: winners_def)
  have perm: "mset (singleElimOrder t) = mset (map p_id ?ps)"
    using cup_order_perm(1) [OF k(1) ids w(1)] w(2) by (simp add: comp_def)
  let ?ws = "map (wallet_of ?ps) (singleElimOrder t)"
  have made: "parity_case_of n variant = Inr \<lparr>pc_n = n, pc_variant = variant, pc_players = ?ps, pc_results = results, pc_winnerWallets = ?ws\<rparr>"
    using t0 t(1,2) win by (simp add: parity_case_of_def thrown_def Let_def)
  have rec: "reconstruct (case_bracket ?ps results) = Inr t"
    using t0 t(3) by (simp add: reconstruct_def case_bracket_def formatOf_def entrants_of_def)
  have "derive_winners j (case_bracket ?ps results) = Ok (take j ?ws)" if "j \<le> n" for j
  proof -
    have "winner_wallets j ?ps (singleElimOrder t) = take j ?ws"
      using winner_wallets_all [OF perm field(4), of j] by (simp add: take_map)
    moreover have "length ?ws = n" using mset_eq_length [OF perm] field(1) by simp
    ultimately show ?thesis using rec win t(2) that by (simp add: derive_winners_def case_bracket_def)
  qed
  with made t(5) show ?thesis by auto
qed

text \<open>C39. The fixtures are what the server computes: for every field of 2 to 10001 players and every variant the
  generator ends within its guard, throws nothing, records one result less than there are players, and the
  wallets it writes down are, for every number of prizes, those the finalize route derives from the
  recorded results.\<close>

theorem parity_cases_complete:
  assumes "2 \<le> n" "n \<le> 10001"
  shows "\<exists>c. parity_case_of n variant = Inr c \<and> length (pc_results c) + 1 = n \<and>
    (\<forall>k \<le> n. derive_winners k (case_bracket (pc_players c) (pc_results c)) = Ok (take k (pc_winnerWallets c)))"
  using assms by (rule parity_case_total)

theorem parity_cases_complete_witness:
  "\<exists>c. parity_case_of 5 2 = Inr c \<and> length (pc_results c) + 1 = 5"
  using parity_cases_complete [of 5 2] by auto

lemma parity_fixtures_total: "\<exists>cs. parity_fixtures = Inr cs"
proof -
  have "\<exists>cs. parity_cases_from nvs = Inr cs" if "\<forall>(n, v) \<in> set nvs. \<exists>c. parity_case_of n v = Inr c" for nvs
    using that by (induction nvs rule: parity_cases_from.induct) auto
  moreover have "\<exists>c. parity_case_of n v = Inr c" if "n \<in> {2, 3, 4, 5, 6, 8, 9, 12, 16}" for n v
    using parity_case_total [of n v] that by auto
  ultimately show ?thesis unfolding parity_fixtures_def by (auto simp del: List.product.simps)
qed

text \<open>The wallets are not distinct: the first and the sixteenth player share one, so the fixtures of 16 players do not
  tell the two apart.\<close>

lemma parity_wallets_collide:
  "p_wallet (parity_players 16 v ! 0) = p_wallet (parity_players 16 v ! 15)"
  by (simp add: parity_players_def)

end
