(* ===== verification/Payments.thy ===== *)
theory Payments
  imports Organizer
begin

text \<open>
  Payments: the helpers of \<open>web/src/lib/paypal.ts\<close> and the routes
  \<open>app/api/paypal/create-order\<close>, \<open>app/api/paypal/capture\<close> and \<open>app/api/webhooks/paypal\<close>. The
  replies of the payment service are arguments; the environment variables are a record.
\<close>

section \<open>Decimal numbers of the language\<close>

definition is_digit :: "char \<Rightarrow> bool" where
  "is_digit c \<longleftrightarrow> 48 \<le> (of_char c :: nat) \<and> (of_char c :: nat) \<le> 57"

definition digits_val :: "string \<Rightarrow> nat" where
  "digits_val s = foldl (\<lambda>n c. 10 * n + (of_char c - 48)) 0 s"

definition split_sign :: "string \<Rightarrow> bool \<times> string" where
  "split_sign s =
     (if s \<noteq> [] \<and> hd s = CHR ''-'' then (True, tl s)
      else if s \<noteq> [] \<and> hd s = CHR ''+'' then (False, tl s)
      else (False, s))"

text \<open>The exponent part of a decimal literal: ignored when no digit follows.\<close>

definition exponent_of :: "string \<Rightarrow> int" where
  "exponent_of s =
     (if s \<noteq> [] \<and> (hd s = CHR ''e'' \<or> hd s = CHR ''E'')
      then (let (neg, r) = split_sign (tl s); n = int (digits_val (takeWhile is_digit r))
            in if neg then - n else n)
      else 0)"

text \<open>
  \<open>parseFloat\<close>: the longest prefix that is a decimal literal, \<open>None\<close> for \<open>NaN\<close>. The result is
  the exact value of the literal; rounding to a double and \<open>Infinity\<close> are not modelled.
\<close>

definition parseFloat :: "string \<Rightarrow> js_number" where
  "parseFloat s =
     (let (neg, s1) = split_sign (dropWhile js_space s);
          ip = takeWhile is_digit s1; s2 = dropWhile is_digit s1;
          (fp, s3) = (if s2 \<noteq> [] \<and> hd s2 = CHR ''.''
                      then (takeWhile is_digit (tl s2), dropWhile is_digit (tl s2)) else ([], s2))
      in if ip = [] \<and> fp = [] then None
         else Some ((if neg then - 1 else 1) *
                rat_of_nat (digits_val (ip @ fp)) * 10 powi (exponent_of s3 - int (length fp))))"

text \<open>\<open>x.toFixed(2)\<close> for a non-negative \<open>x\<close>: to the nearest cent, the larger of two.\<close>

definition cents :: "rat \<Rightarrow> nat" where
  "cents x = nat \<lfloor>100 * x + 1 / 2\<rfloor>"

definition toFixed2 :: "rat \<Rightarrow> string" where
  "toFixed2 x =
     show_nat (cents x div 100) @ ''.'' @
     [char_of (48 + cents x mod 100 div 10), char_of (48 + cents x mod 10)]"

section \<open>The helpers of \<open>paypal.ts\<close>\<close>

record paypal_env =
  e_PAYPAL_API_BASE :: "string option"
  e_PAYPAL_CLIENT_ID :: "string option"
  e_PAYPAL_ID :: "string option"
  e_PAYPAL_SECRET :: "string option"
  e_PAYPAL_CLIENT_SECRET :: "string option"
  e_PAYPAL_WEBHOOK_ID :: "string option"

text \<open>\<open>x || y\<close> on strings that may be absent.\<close>

definition or_string :: "string option \<Rightarrow> string \<Rightarrow> string" where
  "or_string x y = (case x of None \<Rightarrow> y | Some s \<Rightarrow> if s = '''' then y else s)"

definition PAYPAL_BASE :: "paypal_env \<Rightarrow> string" where
  "PAYPAL_BASE env = or_string (e_PAYPAL_API_BASE env) ''https://api-m.paypal.com''"

definition PAYPAL_CLIENT_ID :: "paypal_env \<Rightarrow> string" where
  "PAYPAL_CLIENT_ID env = or_string (e_PAYPAL_CLIENT_ID env) (or_string (e_PAYPAL_ID env) '''')"

definition PAYPAL_SECRET :: "paypal_env \<Rightarrow> string" where
  "PAYPAL_SECRET env = or_string (e_PAYPAL_SECRET env) (or_string (e_PAYPAL_CLIENT_SECRET env) '''')"

definition paypalConfigured :: "paypal_env \<Rightarrow> bool" where
  "paypalConfigured env \<longleftrightarrow> PAYPAL_CLIENT_ID env \<noteq> '''' \<and> PAYPAL_SECRET env \<noteq> ''''"

text \<open>What \<open>fetch\<close> gives: it throws, the status is not ok, or there is a JSON body.\<close>

datatype 'a response = Unreachable string | NotOk nat | Body 'a

record token_json =
  tk_access_token :: string
  tk_expires_in :: int

record cached_token =
  ct_token :: string
  ct_expires :: int

record money =
  m_value :: string
  m_currency :: string

record purchase_unit =
  pu_captures :: "money list option"
  pu_customId :: "string option"
  pu_amount :: "money option"

record order_json =
  o_status :: string
  o_units :: "purchase_unit list option"

record order_body =
  ob_value :: string
  ob_name :: string
  ob_time :: int

record webhook_event =
  w_type :: "string option"
  w_relatedOrder :: "string option"
  w_resourceId :: "string option"
  w_amount :: "string option"

record webhook_headers =
  h_algo :: string
  h_cert :: string
  h_id :: string
  h_sig :: string
  h_time :: string

text \<open>
  The payment service. \<open>s_token\<close> gets the URL and the basic credentials, the others the URL, the
  bearer token and the body. The reply of \<open>s_verify\<close> is read whatever its status: its verification status,
  or the exception of the request or of the parser.
\<close>

record service =
  s_token :: "string \<Rightarrow> string \<Rightarrow> token_json response"
  s_order :: "string \<Rightarrow> string \<Rightarrow> order_json response"
  s_create :: "string \<Rightarrow> string \<Rightarrow> order_body \<Rightarrow> string response"
  s_verify :: "string \<Rightarrow> string \<Rightarrow> webhook_headers \<Rightarrow> string \<Rightarrow> webhook_event \<Rightarrow> (string, string option) result"

type_synonym token_cache = "cached_token option"

definition paypalAccessToken ::
  "service \<Rightarrow> paypal_env \<Rightarrow> int \<Rightarrow> token_cache \<Rightarrow> (string, string) result \<times> token_cache" where
  "paypalAccessToken sv env now cache =
     (if PAYPAL_CLIENT_ID env = '''' \<or> PAYPAL_SECRET env = ''''
      then (Inl ''PayPal credentials not configured (PAYPAL_CLIENT_ID / PAYPAL_SECRET).'', cache)
      else case filter (\<lambda>c. ct_expires c > now + 30000) (case cache of None \<Rightarrow> [] | Some c \<Rightarrow> [c]) of
        c # _ \<Rightarrow> (Inr (ct_token c), cache)
      | [] \<Rightarrow>
          (case s_token sv (PAYPAL_BASE env @ ''/v1/oauth2/token'') (PAYPAL_CLIENT_ID env @ '':'' @ PAYPAL_SECRET env) of
             Unreachable msg \<Rightarrow> (Inl msg, cache)
           | NotOk st \<Rightarrow> (Inl (''PayPal auth failed ('' @ show_nat st @ '')''), cache)
           | Body j \<Rightarrow>
               (Inr (tk_access_token j),
                Some \<lparr>ct_token = tk_access_token j, ct_expires = now + tk_expires_in j * 1000\<rparr>)))"

record verified_order =
  vo_id :: string
  vo_status :: string
  vo_amountUsd :: js_number
  vo_customId :: "string option"

text \<open>\<open>xs?.[0]\<close>\<close>

definition first_of :: "'a list option \<Rightarrow> 'a option" where
  "first_of xs = (case xs of Some (x # _) \<Rightarrow> Some x | _ \<Rightarrow> None)"

text \<open>Lines 73 and 74: the amount of the first capture, or else of the first purchase unit.\<close>

definition amount_source :: "order_json \<Rightarrow> money option" where
  "amount_source order =
     (case first_of (o_units order) of None \<Rightarrow> None
      | Some u \<Rightarrow> (case first_of (pu_captures u) of Some m \<Rightarrow> Some m | None \<Rightarrow> pu_amount u))"

definition verifyOrder ::
  "service \<Rightarrow> paypal_env \<Rightarrow> int \<Rightarrow> string \<Rightarrow> token_cache \<Rightarrow> (string, verified_order) result \<times> token_cache" where
  "verifyOrder sv env now orderId cache =
     (case paypalAccessToken sv env now cache of
        (Inl e, cache') \<Rightarrow> (Inl e, cache')
      | (Inr token, cache') \<Rightarrow>
          ((case s_order sv (PAYPAL_BASE env @ ''/v2/checkout/orders/'' @ orderId) token of
              Unreachable msg \<Rightarrow> Inl msg
            | NotOk st \<Rightarrow> Inl (''PayPal order fetch failed ('' @ show_nat st @ '')'')
            | Body order \<Rightarrow>
                (case amount_source order of
                   None \<Rightarrow> Inl ''No amount on PayPal order''
                 | Some m \<Rightarrow>
                     if m_currency m \<noteq> ''USD'' then Inl ''Non-USD order rejected''
                     else Inr \<lparr>vo_id = orderId, vo_status = o_status order,
                        vo_amountUsd = parseFloat (m_value m),
                        vo_customId = (case first_of (o_units order) of None \<Rightarrow> None | Some u \<Rightarrow> pu_customId u)\<rparr>)),
           cache'))"

section \<open>Creating an order\<close>

record create_request =
  cr_contentLength :: "int option"
  cr_amountUsd :: js_number
  cr_tournamentName :: "string option"

text \<open>
  The amount \<open>None\<close> stands for every value \<open>Number\<close> does not read as finite. The description sent to the
  service is a fixed prefix and the name below.
\<close>

definition create_order_route ::
  "service \<Rightarrow> paypal_env \<Rightarrow> int \<Rightarrow> create_request \<Rightarrow> token_cache \<Rightarrow> string reply \<times> token_cache" where
  "create_order_route sv env now q cache =
     (if validateBodySize (cr_contentLength q) then (Err 413 ''payload too large'', cache)
      else if \<not> paypalConfigured env
      then (Err 503 ''PayPal not configured. Set PAYPAL_CLIENT_ID / PAYPAL_SECRET.'', cache)
      else case cr_amountUsd q of
        None \<Rightarrow> (Err 400 ''amountUsd must be between 1 and 10000'', cache)
      | Some amount \<Rightarrow>
          if amount < 1 \<or> amount > 10000 then (Err 400 ''amountUsd must be between 1 and 10000'', cache)
          else (case paypalAccessToken sv env now cache of
                  (Inl e, cache') \<Rightarrow> (Err 500 e, cache')
                | (Inr token, cache') \<Rightarrow>
                    ((case s_create sv (PAYPAL_BASE env @ ''/v2/checkout/orders'') token
                             \<lparr>ob_value = toFixed2 amount,
                              ob_name = or_string (cr_tournamentName q) ''Community Cup'', ob_time = now\<rparr> of
                        Unreachable msg \<Rightarrow> Err 500 msg
                      | NotOk st \<Rightarrow> Err 502 (''PayPal create failed ('' @ show_nat st @ '')'')
                      | Body i \<Rightarrow> Ok i), cache')))"

section \<open>Capturing an order\<close>

record capture_config =
  k_payoutBps :: "int list option"
  k_finalizeDays :: "int option"
  k_mode :: "cup_mode option"
  k_winnerWallets :: "string list option"
  k_format :: "bracket_format option"
  k_swissRounds :: "int option"
  k_players :: "player list option"

record capture_request =
  k_contentLength :: "int option"
  k_orderID :: "string option"
  k_tournament :: "capture_config option"

datatype capture_reply =
  Replayed (cp_jobId: "int option") "int option"
| Funded (cp_job: int) "string option" js_number

text \<open>Lines 26 to 37: the checks on the body.\<close>

definition capture_error :: "capture_request \<Rightarrow> string option" where
  "capture_error q =
     (case k_tournament q of
        None \<Rightarrow> Some ''Missing orderID or payoutBps''
      | Some t \<Rightarrow>
          if no_string (k_orderID q) \<or> k_payoutBps t = None then Some ''Missing orderID or payoutBps''
          else if length (the (k_payoutBps t)) > 16 then Some ''too many placements''
          else let mode = or_else (k_mode t) Instant in
            if mode = Instant \<and> (k_winnerWallets t = None \<or>
                length (the (k_winnerWallets t)) \<noteq> length (the (k_payoutBps t)))
            then Some ''winners count != placements''
            else if mode = Bracket \<and> (k_format t = None \<or> k_players t = None)
            then Some ''bracket mode needs format + players''
            else None)"

definition capture_token :: "8 word list \<Rightarrow> capture_config \<Rightarrow> string option" where
  "capture_token buf t = (if or_else (k_mode t) Instant = Bracket then Some (generateManageToken buf) else None)"

definition capture_job :: "8 word list \<Rightarrow> string \<Rightarrow> js_number \<Rightarrow> capture_config \<Rightarrow> job_payload" where
  "capture_job buf orderId amountUsd t = Fund
     \<lparr>f_payoutBps = the (k_payoutBps t),
      f_winnerWallets = (if or_else (k_mode t) Instant = Instant then the (k_winnerWallets t) else []),
      f_fundedAvax = amountUsd, f_mode = or_else (k_mode t) Instant,
      f_finalizeDays = or_else (k_finalizeDays t) 7, f_format = k_format t, f_swissRounds = k_swissRounds t,
      f_players = k_players t, f_paypalOrderId = orderId, f_manageToken = capture_token buf t\<rparr>"

text \<open>Lines 51 to 75: claim the order, enqueue the job, note it on the order.\<close>

definition capture_fund ::
  "8 word list \<Rightarrow> string \<Rightarrow> js_number \<Rightarrow> capture_config \<Rightarrow> db \<Rightarrow> capture_reply \<times> db" where
  "capture_fund buf orderId amountUsd t d =
     (let (intent, d1) = claimFundingIntent orderId amountUsd d
      in if \<not> c_first intent then (Replayed (c_jobId intent) (c_tournamentId intent), d1)
         else (let (jobId, d2) = enqueueJob (capture_job buf orderId amountUsd t) d1
               in (Funded jobId (capture_token buf t) amountUsd, updateFundingIntent orderId jobId None d2)))"

definition capture_route ::
  "service \<Rightarrow> paypal_env \<Rightarrow> 8 word list \<Rightarrow> int \<Rightarrow> capture_request \<Rightarrow> token_cache \<times> db \<Rightarrow>
     capture_reply reply \<times> token_cache \<times> db" where
  "capture_route sv env buf now q s =
     (case s of (cache, d) \<Rightarrow>
        if validateBodySize (k_contentLength q) then (Err 413 ''payload too large'', cache, d)
        else case capture_error q of Some msg \<Rightarrow> (Err 400 msg, cache, d)
        | None \<Rightarrow>
            (case verifyOrder sv env now (the (k_orderID q)) cache of
               (Inl e, cache') \<Rightarrow> (Err 502 ''order verification failed'', cache', d)
             | (Inr order, cache') \<Rightarrow>
                 if vo_status order \<noteq> ''COMPLETED'' \<and> vo_status order \<noteq> ''APPROVED''
                 then (Err 400 (''Order not completable ('' @ vo_status order @ '')''), cache', d)
                 else (let (r, d') = capture_fund buf (the (k_orderID q)) (vo_amountUsd order) (the (k_tournament q)) d
                       in (Ok r, cache', d'))))"

section \<open>The webhook\<close>

record webhook_request =
  w_contentLength :: "int option"
  w_headers :: webhook_headers
  w_event :: "webhook_event option"

definition hook_order :: "webhook_event \<Rightarrow> string" where
  "hook_order ev = or_else (coalesce (w_relatedOrder ev) (w_resourceId ev)) ''''"

definition hook_amount :: "webhook_event \<Rightarrow> js_number" where
  "hook_amount ev = parseFloat (or_else (w_amount ev) ''0'')"

definition positive :: "js_number \<Rightarrow> bool" where
  "positive x = (case x of None \<Rightarrow> False | Some q \<Rightarrow> q > 0)"

definition hook_job :: "string \<Rightarrow> js_number \<Rightarrow> job_payload" where
  "hook_job orderId amount = Fund
     \<lparr>f_payoutBps = [10000], f_winnerWallets = [], f_fundedAvax = amount, f_mode = Instant,
      f_finalizeDays = 7, f_format = None, f_swissRounds = None, f_players = None,
      f_paypalOrderId = orderId, f_manageToken = None\<rparr>"

text \<open>Lines 58 to 85, for an event whose signature is verified.\<close>

definition hook_fund :: "webhook_event \<Rightarrow> db \<Rightarrow> db" where
  "hook_fund ev d =
     (if w_type ev = Some ''PAYMENT.CAPTURE.COMPLETED'' \<and> hook_order ev \<noteq> '''' \<and> positive (hook_amount ev)
      then (let (intent, d1) = claimFundingIntent (hook_order ev) (hook_amount ev) d
            in if c_first intent then snd (enqueueJob (hook_job (hook_order ev) (hook_amount ev)) d1) else d1)
      else d)"

text \<open>The reply is \<open>ok\<close> with status 200 on every path but the size check.\<close>

definition webhook_route ::
  "service \<Rightarrow> paypal_env \<Rightarrow> int \<Rightarrow> webhook_request \<Rightarrow> token_cache \<times> db \<Rightarrow> unit reply \<times> token_cache \<times> db" where
  "webhook_route sv env now q s =
     (case s of (cache, d) \<Rightarrow>
        if validateBodySize (w_contentLength q) then (Err 413 ''payload too large'', cache, d)
        else if \<not> paypalConfigured env \<or> no_string (e_PAYPAL_WEBHOOK_ID env) then (Ok (), cache, d)
        else case w_event q of None \<Rightarrow> (Ok (), cache, d)
        | Some ev \<Rightarrow>
            (case paypalAccessToken sv env now cache of
               (Inl e, cache') \<Rightarrow> (Ok (), cache', d)
             | (Inr token, cache') \<Rightarrow>
                 (case s_verify sv (PAYPAL_BASE env @ ''/v1/notifications/verify-webhook-signature'') token
                         (w_headers q) (the (e_PAYPAL_WEBHOOK_ID env)) ev of
                    Inl e \<Rightarrow> (Ok (), cache', d)
                  | Inr v \<Rightarrow> if v = Some ''SUCCESS'' then (Ok (), cache', hook_fund ev d) else (Ok (), cache', d))))"

end
