(* ===== verification/Funding.thy ===== *)
theory Funding
  imports Payments
begin

text \<open>
  What the payment routes promise: amounts survive printing and reading, tokens are fresh, the amount
  of a fund job is the one the payment service reports; and the processes of captures and webhooks, one
  step per statement of the database, with what each step commits to an order.
\<close>

section \<open>Numbers\<close>

lemma digit_char: "n < 10 \<Longrightarrow> is_digit (char_of (48 + n)) \<and> (of_char (char_of (48 + n) :: char) :: nat) = 48 + n"
  by (simp add: is_digit_def of_char_of take_bit_eq_mod)

lemma show_nat_digits: "c \<in> set (show_nat n) \<Longrightarrow> is_digit c"
proof (induction n rule: show_nat.induct)
  case (1 n)
  then show ?case
    using digit_char [of n] digit_char [of "n mod 10"] by (subst (asm) (2) show_nat.simps) (auto split: if_splits)
qed

lemma digits_val_snoc: "digits_val (s @ [c]) = 10 * digits_val s + (of_char c - 48)"
  by (simp add: digits_val_def)

lemma digits_val_show: "digits_val (show_nat n) = n"
proof (induction n rule: show_nat.induct)
  case (1 n)
  show ?case
  proof (cases "n < 10")
    case True
    then show ?thesis using digit_char [of n] by (simp add: show_nat.simps [of n] digits_val_def)
  next
    case False
    then have "show_nat n = show_nat (n div 10) @ [char_of (48 + n mod 10)]" by (simp add: show_nat.simps [of n])
    with 1 [OF False] digit_char [of "n mod 10"] show ?thesis by (simp add: digits_val_snoc)
  qed
qed

lemma show_nat_Nil [simp]: "show_nat n \<noteq> []"
  by (simp add: show_nat.simps [of n])

lemma digit_not: "is_digit c \<Longrightarrow> \<not> js_space c \<and> c \<noteq> CHR ''-'' \<and> c \<noteq> CHR ''+'' \<and> c \<noteq> CHR ''.''"
  by (auto simp: is_digit_def js_space_def)

text \<open>A literal with digits around a decimal point.\<close>

lemma parse_literal:
  assumes "\<forall>c \<in> set ip. is_digit c" "\<forall>c \<in> set fp. is_digit c" "ip \<noteq> []"
  shows "parseFloat (ip @ ''.'' @ fp) = Some (rat_of_nat (digits_val (ip @ fp)) * 10 powi (- int (length fp)))"
proof -
  obtain c ip' where c: "ip = c # ip'" "is_digit c" using assms(1,3) by (cases ip) auto
  then have "dropWhile js_space (ip @ ''.'' @ fp) = ip @ ''.'' @ fp" using digit_not [of c] by simp
  moreover have "split_sign (ip @ ''.'' @ fp) = (False, ip @ ''.'' @ fp)"
    using digit_not [OF c(2)] by (simp add: split_sign_def c(1))
  moreover have dot: "\<not> is_digit (CHR ''.'')" by (simp add: is_digit_def)
  then have "takeWhile is_digit (ip @ ''.'' @ fp) = ip" "dropWhile is_digit (ip @ ''.'' @ fp) = ''.'' @ fp"
    using assms(1) by (simp_all add: takeWhile_append2 dropWhile_append2)
  moreover have "takeWhile is_digit fp = fp" "dropWhile is_digit fp = []" using assms(2) by (simp_all add: takeWhile_eq_all_conv dropWhile_eq_Nil_conv)
  ultimately show ?thesis using assms(3) dot by (simp add: parseFloat_def exponent_of_def Let_def takeWhile_eq_all_conv [THEN iffD2, OF assms(2)])
qed

lemma digits_val_two:
  "m < 10 \<Longrightarrow> n < 10 \<Longrightarrow>
     digits_val (s @ [char_of (48 + m), char_of (48 + n)]) = 10 * (10 * digits_val s + m) + n"
proof -
  assume mn: "m < 10" "n < 10"
  define a b :: char where "a = char_of (48 + m)" and "b = char_of (48 + n)"
  have ab: "(of_char a :: nat) - 48 = m" "(of_char b :: nat) - 48 = n"
    using digit_char [OF mn(1)] digit_char [OF mn(2)] by (simp_all add: a_def b_def)
  have "digits_val (s @ [a, b]) = digits_val ((s @ [a]) @ [b])" by simp
  also have "\<dots> = 10 * (10 * digits_val s + m) + n" by (simp only: digits_val_snoc ab)
  finally show ?thesis by (simp only: a_def b_def)
qed

lemma digit_split: "10 * (10 * (n div 100) + n mod 100 div 10) + n mod 10 = (n :: nat)"
proof -
  have "n mod 100 div 10 = n div 10 mod 10" using mod_mult2_eq [of n 10 10] by simp
  moreover have "n div 100 = n div 10 div 10" using div_mult2_eq [of n 10 10] by simp
  ultimately show ?thesis by simp
qed

lemma parse_cents:
  "parseFloat (show_nat (n div 100) @ ''.'' @ [char_of (48 + n mod 100 div 10), char_of (48 + n mod 10)]) =
     Some (rat_of_nat n / 100)"
proof -
  define i j where "i = n mod 100 div 10" and "j = n mod 10"
  then have ij: "i < 10" "j < 10" by auto
  have all: "\<forall>c \<in> set [char_of (48 + i), char_of (48 + j)]. is_digit c"
    using digit_char [OF ij(1)] digit_char [OF ij(2)] by simp
  have "digits_val (show_nat (n div 100) @ [char_of (48 + i), char_of (48 + j)]) = 10 * (10 * (n div 100) + i) + j"
    by (simp only: digits_val_two [OF ij] digits_val_show)
  also have "\<dots> = n" unfolding i_def j_def by (rule digit_split)
  finally have val: "digits_val (show_nat (n div 100) @ [char_of (48 + i), char_of (48 + j)]) = n" .
  have "parseFloat (show_nat (n div 100) @ ''.'' @ [char_of (48 + i), char_of (48 + j)]) =
      Some (rat_of_nat (digits_val (show_nat (n div 100) @ [char_of (48 + i), char_of (48 + j)])) *
        10 powi (- int (length [char_of (48 + i), char_of (48 + j) :: char])))"
    using show_nat_digits by (intro parse_literal [OF _ all]) auto
  then have "parseFloat (show_nat (n div 100) @ ''.'' @ [char_of (48 + i), char_of (48 + j)]) = Some (rat_of_nat n / 100)"
    by (simp only: val) (simp add: power_int_minus field_simps)
  then show ?thesis by (simp only: i_def j_def)
qed

lemma amount_reads_back:
  assumes "0 \<le> x"
  shows "parseFloat (toFixed2 x) = Some (rat_of_nat (cents x) / 100) \<and>
    \<bar>rat_of_nat (cents x) / 100 - x\<bar> \<le> 1 / 200"
proof
  let ?n = "cents x"
  show "parseFloat (toFixed2 x) = Some (rat_of_nat (cents x) / 100)"
    using parse_cents [of ?n] by (simp add: toFixed2_def)
  have "rat_of_nat ?n = of_int \<lfloor>100 * x + 1 / 2\<rfloor>"
    using assms by (simp add: cents_def of_nat_nat)
  then show "\<bar>rat_of_nat ?n / 100 - x\<bar> \<le> 1 / 200"
    using floor_correct [of "100 * x + 1 / 2"] by (simp add: abs_if field_simps)
qed

text \<open>An amount printed with two digits reads back as the amount rounded to the cent, at most half a
  cent away.\<close>

theorem amount_roundtrip:
  assumes "0 \<le> x"
  shows "parseFloat (toFixed2 x) = Some (rat_of_nat (cents x) / 100) \<and>
    \<bar>rat_of_nat (cents x) / 100 - x\<bar> \<le> 1 / 200"
  using assms by (rule amount_reads_back)

theorem amount_roundtrip_witness: "parseFloat (toFixed2 (25 / 2)) = Some (rat_of_nat (cents (25 / 2)) / 100)"
  using amount_roundtrip [of "25 / 2"] by simp

section \<open>Tokens and orders\<close>

text \<open>A bearer token handed out is the cached one, and then valid for more than 30 seconds, or one the
  service just issued, which is then cached with the expiry the service gave.\<close>

theorem access_token_fresh:
  assumes "paypalAccessToken sv env now cache = (Inr token, cache')"
  shows "\<exists>c. cache' = Some c \<and> ct_token c = token \<and>
    (cache = Some c \<and> now + 30000 < ct_expires c \<or>
     (\<exists>j. s_token sv (PAYPAL_BASE env @ ''/v1/oauth2/token'')
             (PAYPAL_CLIENT_ID env @ '':'' @ PAYPAL_SECRET env) = Body j \<and>
         token = tk_access_token j \<and> ct_expires c = now + tk_expires_in j * 1000))"
  using assms by (auto simp: paypalAccessToken_def split: if_splits option.splits response.splits)

lemma verifyOrder_Inr:
  assumes "verifyOrder sv env now orderId cache = (Inr order, cache')"
  obtains token j m where "s_order sv (PAYPAL_BASE env @ ''/v2/checkout/orders/'' @ orderId) token = Body j"
    "amount_source j = Some m" "m_currency m = ''USD''" "vo_amountUsd order = parseFloat (m_value m)"
    "vo_status order = o_status j"
  using assms that
  by (auto simp: verifyOrder_def split: prod.splits sum.splits response.splits option.splits if_splits)

lemma create_order_Ok:
  assumes "create_order_route sv env now q cache = (Ok i, cache')"
  obtains amount token where "cr_amountUsd q = Some amount" "1 \<le> amount" "amount \<le> 10000"
    "s_create sv (PAYPAL_BASE env @ ''/v2/checkout/orders'') token
       \<lparr>ob_value = toFixed2 amount, ob_name = or_string (cr_tournamentName q) ''Community Cup'', ob_time = now\<rparr> = Body i"
  using assms that
  by (auto simp: create_order_route_def not_less split: prod.splits sum.splits response.splits option.splits if_splits)

lemma cents_bounds: "1 \<le> x \<Longrightarrow> x \<le> 10000 \<Longrightarrow> 100 \<le> cents x \<and> cents x \<le> 1000000"
  by (simp add: cents_def le_nat_iff nat_le_iff le_floor_iff floor_le_iff)

text \<open>C38. An order that is created has an amount between 1 and 10000 dollars: the value the service is
  sent reads back as the requested amount rounded to the cent.\<close>

theorem create_order_amount:
  assumes "create_order_route sv env now q cache = (Ok i, cache')"
  shows "\<exists>amount token body v. cr_amountUsd q = Some amount \<and>
    s_create sv (PAYPAL_BASE env @ ''/v2/checkout/orders'') token body = Body i \<and>
    parseFloat (ob_value body) = Some v \<and> \<bar>v - amount\<bar> \<le> 1 / 200 \<and> 1 \<le> v \<and> v \<le> 10000"
proof -
  from assms obtain amount token where 1: "cr_amountUsd q = Some amount" "1 \<le> amount" "amount \<le> 10000"
    "s_create sv (PAYPAL_BASE env @ ''/v2/checkout/orders'') token
       \<lparr>ob_value = toFixed2 amount, ob_name = or_string (cr_tournamentName q) ''Community Cup'', ob_time = now\<rparr> = Body i"
    by (rule create_order_Ok)
  have "1 \<le> rat_of_nat (cents amount) / 100" "rat_of_nat (cents amount) / 100 \<le> 10000"
    using cents_bounds [OF 1(2,3)] by simp_all
  moreover have "parseFloat (toFixed2 amount) = Some (rat_of_nat (cents amount) / 100) \<and>
      \<bar>rat_of_nat (cents amount) / 100 - amount\<bar> \<le> 1 / 200"
    using 1(2) by (intro amount_reads_back) simp
  ultimately show ?thesis
    using 1(1,4) by (intro exI [of _ amount] exI [of _ token]
        exI [of _ "\<lparr>ob_value = toFixed2 amount, ob_name = or_string (cr_tournamentName q) ''Community Cup'', ob_time = now\<rparr>"]
        exI [of _ "rat_of_nat (cents amount) / 100"]) simp
qed

section \<open>Processes\<close>

text \<open>
  A request that passed its checks is a process: each of its steps is one statement of the
  database, and other requests run between them. \<open>Claimed\<close> is a capture or a webhook that
  was first to claim the order and has not enqueued its job yet.
\<close>

datatype proc =
  Capturing "8 word list" string js_number capture_config
| Hooking webhook_event
| Claimed string job_payload bool
| Queued string int
| Ended

fun proc_step :: "proc \<Rightarrow> db \<Rightarrow> proc \<times> db" where
  "proc_step (Capturing buf orderId amountUsd t) d =
     (let (intent, d') = claimFundingIntent orderId amountUsd d
      in (if c_first intent then Claimed orderId (capture_job buf orderId amountUsd t) True else Ended, d'))"
| "proc_step (Hooking ev) d =
     (if w_type ev = Some ''PAYMENT.CAPTURE.COMPLETED'' \<and> hook_order ev \<noteq> '''' \<and> positive (hook_amount ev)
      then (let (intent, d') = claimFundingIntent (hook_order ev) (hook_amount ev) d
            in (if c_first intent then Claimed (hook_order ev) (hook_job (hook_order ev) (hook_amount ev)) False
                else Ended, d'))
      else (Ended, d))"
| "proc_step (Claimed orderId payload note) d =
     (let (jobId, d') = enqueueJob payload d in (if note then Queued orderId jobId else Ended, d'))"
| "proc_step (Queued orderId jobId) d = (Ended, updateFundingIntent orderId jobId None d)"
| "proc_step Ended d = (Ended, d)"

text \<open>Run alone, the steps of a process are the handler.\<close>

lemma capture_steps:
  "((\<lambda>(p, d). proc_step p d) ^^ 3) (Capturing buf orderId a t, d) = (Ended, snd (capture_fund buf orderId a t d))"
  by (simp add: capture_fund_def case_prod_unfold Let_def numeral_3_eq_3)

lemma hook_steps:
  "((\<lambda>(p, d). proc_step p d) ^^ 2) (Hooking ev, d) = (Ended, hook_fund ev d)"
  by (simp add: hook_fund_def case_prod_unfold Let_def numeral_2_eq_2)

text \<open>The handlers are what their processes do when nothing runs in between: three statements of a
  capture, two of a webhook, and the database of the handler.\<close>

theorem payment_steps_refine:
  "((\<lambda>(p, d). proc_step p d) ^^ 3) (Capturing buf orderId a t, d) = (Ended, snd (capture_fund buf orderId a t d)) \<and>
   ((\<lambda>(p, d). proc_step p d) ^^ 2) (Hooking ev, d) = (Ended, hook_fund ev d)"
  using capture_steps hook_steps by blast

text \<open>The orders of the fund jobs in the queue.\<close>

definition order_of :: "job_payload \<Rightarrow> string option" where
  "order_of p = (case p of Fund f \<Rightarrow> Some (f_paypalOrderId f) | Finalize _ \<Rightarrow> None)"

definition fund_jobs :: "string \<Rightarrow> db \<Rightarrow> nat" where
  "fund_jobs o1 d = length (filter (\<lambda>j. order_of (j_payload j) = Some o1) (d_jobs d))"

definition holds :: "string \<Rightarrow> proc \<Rightarrow> nat" where
  "holds o1 p = (case p of Claimed o2 pl _ \<Rightarrow> if order_of pl = Some o1 then 1 else 0 | _ \<Rightarrow> 0)"

lemma intent_taken_frame [simp]:
  "intent_taken o1 (snd (enqueueJob p d)) = intent_taken o1 d"
  "intent_taken o1 (updateFundingIntent o2 j x d) = intent_taken o1 d"
  "fund_jobs o1 (updateFundingIntent o2 j x d) = fund_jobs o1 d"
  "fund_jobs o1 (snd (claimFundingIntent o2 a d)) = fund_jobs o1 d"
  "intent_taken o1 (snd (claimFundingIntent o2 a d)) \<longleftrightarrow> o1 = o2 \<or> intent_taken o1 d"
  "c_first (fst (claimFundingIntent o2 a d)) \<longleftrightarrow> \<not> intent_taken o2 d"
  by (auto simp: intent_taken_def updateFundingIntent_def map_of_map_entry fund_jobs_def
      claimFundingIntent_def split: option.split)

lemma fund_jobs_enqueue:
  "fund_jobs o1 (snd (enqueueJob p d)) = fund_jobs o1 d + (if order_of p = Some o1 then 1 else 0)"
  by (simp add: fund_jobs_def enqueueJob_def)

lemma order_of_jobs [simp]:
  "order_of (capture_job buf o1 a t) = Some o1" "order_of (hook_job o1 a) = Some o1"
  by (simp_all add: order_of_def capture_job_def hook_job_def)

text \<open>A step commits to an order only by claiming it.\<close>

lemma proc_step_commits:
  assumes "proc_step p d = (p', d')"
  shows "fund_jobs o1 d' + holds o1 p' = fund_jobs o1 d + holds o1 p +
      (if intent_taken o1 d' \<and> \<not> intent_taken o1 d then 1 else 0)"
    and "intent_taken o1 d \<Longrightarrow> intent_taken o1 d'"
  using assms
  by (cases p; auto simp: holds_def case_prod_unfold Let_def fund_jobs_enqueue split: if_splits)+

text \<open>When the webhook comes first, the capture of the same order is answered as a replay without a
  job id, and the payout and bracket the buyer configured are not stored anywhere.\<close>

theorem hook_first_drops_config:
  assumes "w_type ev = Some ''PAYMENT.CAPTURE.COMPLETED''" "hook_order ev = orderId" "orderId \<noteq> ''''"
    and "positive (hook_amount ev)" "\<not> intent_taken orderId d"
  shows "capture_fund buf orderId a t (hook_fund ev d) = (Replayed None None, hook_fund ev d)"
  using assms by (auto simp: capture_fund_def hook_fund_def claimFundingIntent_def intent_taken_def
      enqueueJob_def Let_def split: option.splits)

text \<open>C27. The client cannot choose the amount: when a capture is funded, the amount is the one the
  payment service reports for the order, in dollars, and the fund job carries that same number
  as its amount of AVAX.\<close>

theorem capture_amount_verified:
  assumes "capture_route sv env buf now q (cache, d) = (Ok (Funded jobId token amount), cache', d')"
  shows "\<exists>bearer order m.
    s_order sv (PAYPAL_BASE env @ ''/v2/checkout/orders/'' @ the (k_orderID q)) bearer = Body order \<and>
    amount_source order = Some m \<and> m_currency m = ''USD'' \<and> amount = parseFloat (m_value m) \<and>
    d_jobs d' = d_jobs d @ [\<lparr>j_id = jobId, j_payload = capture_job buf (the (k_orderID q)) amount (the (k_tournament q)),
      j_status = Pending, j_tournamentId = None, j_txHash = None, j_error = None\<rparr>] \<and>
    (\<exists>f. capture_job buf (the (k_orderID q)) amount (the (k_tournament q)) = Fund f \<and> f_fundedAvax f = amount)"
proof -
  from assms obtain order where o1: "verifyOrder sv env now (the (k_orderID q)) cache = (Inr order, cache')"
    and f: "capture_fund buf (the (k_orderID q)) (vo_amountUsd order) (the (k_tournament q)) d = (Funded jobId token amount, d')"
    by (auto simp: capture_route_def split: if_splits option.splits prod.splits sum.splits)
  from f have "amount = vo_amountUsd order"
    "d_jobs d' = d_jobs d @ [\<lparr>j_id = jobId, j_payload = capture_job buf (the (k_orderID q)) amount (the (k_tournament q)),
      j_status = Pending, j_tournamentId = None, j_txHash = None, j_error = None\<rparr>]"
    by (auto simp: capture_fund_def claimFundingIntent_def enqueueJob_def updateFundingIntent_def Let_def
        split: if_splits option.splits)
  moreover have "\<exists>f. capture_job buf (the (k_orderID q)) amount (the (k_tournament q)) = Fund f \<and> f_fundedAvax f = amount"
    by (simp add: capture_job_def)
  ultimately show ?thesis using o1 by (elim verifyOrder_Inr) blast
qed

section \<open>A service, for the closed instances\<close>

definition demo_env :: paypal_env where
  "demo_env = \<lparr>e_PAYPAL_API_BASE = None, e_PAYPAL_CLIENT_ID = Some ''id'', e_PAYPAL_ID = None,
     e_PAYPAL_SECRET = Some ''key'', e_PAYPAL_CLIENT_SECRET = None, e_PAYPAL_WEBHOOK_ID = Some ''hook''\<rparr>"

definition demo_service :: service where
  "demo_service = \<lparr>
     s_token = (\<lambda>url cred. Body \<lparr>tk_access_token = ''tok'', tk_expires_in = 900\<rparr>),
     s_order = (\<lambda>url tok. Body \<lparr>o_status = ''COMPLETED'', o_units = Some
       [\<lparr>pu_captures = Some [\<lparr>m_value = ''50.00'', m_currency = ''USD''\<rparr>], pu_customId = None, pu_amount = None\<rparr>]\<rparr>),
     s_create = (\<lambda>url tok body. Body ''order1''),
     s_verify = (\<lambda>url tok h i ev. Inr (Some ''SUCCESS''))\<rparr>"

definition demo_config :: capture_config where
  "demo_config = \<lparr>k_payoutBps = Some [10000], k_finalizeDays = None, k_mode = None,
     k_winnerWallets = Some [''0xa1''], k_format = None, k_swissRounds = None, k_players = None\<rparr>"

definition demo_capture :: capture_request where
  "demo_capture = \<lparr>k_contentLength = None, k_orderID = Some ''order1'', k_tournament = Some demo_config\<rparr>"

definition demo_hook :: webhook_event where
  "demo_hook = \<lparr>w_type = Some ''PAYMENT.CAPTURE.COMPLETED'', w_relatedOrder = Some ''order1'',
     w_resourceId = None, w_amount = Some ''50.00''\<rparr>"

lemmas demo_defs = demo_env_def demo_service_def demo_config_def demo_capture_def demo_hook_def

lemma demo_value: "parseFloat ''50.00'' = Some 50"
proof -
  have "\<forall>c \<in> set ''50''. is_digit c" "\<forall>c \<in> set ''00''. is_digit c" by (simp_all add: is_digit_def)
  from parse_literal [OF this] show ?thesis by (simp add: digits_val_def power_int_minus)
qed

lemma demo_hook_facts:
  "w_type demo_hook = Some ''PAYMENT.CAPTURE.COMPLETED''" "hook_order demo_hook = ''order1''"
  "hook_amount demo_hook = Some 50"
  by (simp_all add: demo_hook_def hook_order_def hook_amount_def coalesce_def demo_value)

theorem access_token_fresh_witness:
  "\<exists>c. snd (paypalAccessToken demo_service demo_env 0 None) = Some c \<and> ct_token c = ''tok''"
proof -
  have "fst (paypalAccessToken demo_service demo_env 0 None) = Inr ''tok''" by code_simp
  then have "paypalAccessToken demo_service demo_env 0 None =
      (Inr ''tok'', snd (paypalAccessToken demo_service demo_env 0 None))" by (simp add: prod_eq_iff)
  from access_token_fresh [OF this] show ?thesis by blast
qed

definition demo_create :: create_request where
  "demo_create = \<lparr>cr_contentLength = None, cr_amountUsd = Some (25 / 2), cr_tournamentName = None\<rparr>"

theorem create_order_amount_witness:
  "\<exists>amount token body v. cr_amountUsd demo_create = Some amount \<and>
    s_create demo_service (PAYPAL_BASE demo_env @ ''/v2/checkout/orders'') token body = Body ''order1'' \<and>
    parseFloat (ob_value body) = Some v \<and> \<bar>v - amount\<bar> \<le> 1 / 200 \<and> 1 \<le> v \<and> v \<le> 10000"
proof -
  have "fst (create_order_route demo_service demo_env 0 demo_create None) = Ok ''order1''" by code_simp
  then have "create_order_route demo_service demo_env 0 demo_create None =
      (Ok ''order1'', snd (create_order_route demo_service demo_env 0 demo_create None))" by (simp add: prod_eq_iff)
  from create_order_amount [OF this] show ?thesis .
qed

theorem hook_first_drops_config_witness:
  "capture_fund [] ''order1'' None demo_config (hook_fund demo_hook empty_db) =
     (Replayed None None, hook_fund demo_hook empty_db)"
proof (rule hook_first_drops_config)
  show "\<not> intent_taken ''order1'' empty_db" by (simp add: intent_taken_def empty_db_def)
qed (simp_all add: demo_hook_facts positive_def)

theorem capture_amount_verified_witness:
  "\<exists>order m. amount_source order = Some m \<and> m_currency m = ''USD'' \<and> Some 50 = parseFloat (m_value m)"
proof -
  let ?r = "capture_route demo_service demo_env [] 0 demo_capture (None, empty_db)"
  have "fst ?r = Ok (Funded 1 None (Some 50))"
    by (simp add: demo_defs capture_route_def capture_error_def validateBodySize_def MAX_BODY_def no_string_def
        verifyOrder_def paypalAccessToken_def PAYPAL_CLIENT_ID_def PAYPAL_SECRET_def or_string_def
        amount_source_def first_of_def demo_value capture_fund_def claimFundingIntent_def enqueueJob_def
        empty_db_def capture_token_def Let_def)
  then have "?r = (Ok (Funded 1 None (Some 50)), fst (snd ?r), snd (snd ?r))" by (simp add: prod_eq_iff)
  from capture_amount_verified [OF this] show ?thesis by blast
qed

end
