(* ===== verification/Api.thy ===== *)
theory Api
  imports Funding
begin

text \<open>
  The whole web interface: a request changes the database through one handler. This theory states
  what each handler needs and does, composes them into runs of requests, and proves what holds
  over any run.
\<close>

section \<open>What an organizer route needs\<close>

lemma init_route_Ok:
  assumes "init_route buf now q d = (Ok tok, d')"
  obtains tid where "n_tid q = Some tid" "tok = generateManageToken buf" "init_body_error q = None"
    "getTournament tid d = None \<or> requireOrganizer (n_auth q) tid d \<noteq> None"
    "d' = saveBracket tid (init_bracket q) (saveTournament (init_record buf now tid q) d)"
  using assms that by (auto simp: init_route_def split: if_splits option.splits)

lemma bracket_route_Ok:
  assumes "bracket_route q d = (Ok u, d')"
  obtains tid where "u_tid q = Some tid" "requireOrganizer (u_auth q) tid d \<noteq> None"
    "u_format q \<noteq> None" "u_players q \<noteq> None" "u_results q \<noteq> None" "d' = saveBracket tid (put_bracket q) d"
  using assms that by (auto simp: bracket_route_def split: if_splits option.splits)

lemma derive_winners_Ok:
  assumes "derive_winners n b = Ok ws"
  obtains t ids where "reconstruct b = Inr t" "isComplete t" "winners t = Inr ids"
    "ws = winner_wallets n (b_players b) ids" "length ws = n"
  using assms that by (auto simp: derive_winners_def Let_def split: sum.splits if_splits)

lemma finalize_route_Ok:
  assumes "finalize_route q d = (Ok jobId, d')"
  obtains tid rec b ws where "z_tid q = Some tid" "requireOrganizer (z_auth q) tid d = Some rec"
    "getBracket tid d = Some b" "b_finalized b \<noteq> Some True"
    "derive_winners (length (r_payoutBps rec)) b = Ok ws" "jobId = d_nextJob d"
    "d' = snd (enqueueJob (Finalize tid) (saveBracket tid (b\<lparr>b_computedWinners := Some ws, b_finalized := Some True\<rparr>) d))"
  using assms that
  by (auto simp: finalize_route_def Let_def enqueueJob_def saveBracket_def split: if_splits option.splits reply.splits)

lemma issue_token_Ok:
  assumes "issue_token buf tid wallet d = (Ok tok, d')"
  obtains rec where "getTournament tid d = Some rec" "owns wallet rec"
    "r_manageToken rec = Some tok \<and> tok \<noteq> '''' \<and> d' = d \<or>
     no_string (r_manageToken rec) \<and> tok = generateManageToken buf \<and>
     d' = saveTournament (rec\<lparr>r_manageToken := Some tok\<rparr>) d"
  using assms that
  by (auto simp: issue_token_def no_string_def Let_def split: if_splits option.splits)

lemma auth_route_Ok:
  assumes "auth_route v buf now q d = (Ok tok, d')"
  obtains tid wallet ts sig r where "a_tid q = Some tid" "a_wallet q = Some wallet" "a_ts q = Some ts" "a_sig q = Some sig"
    "\<bar>now - ts\<bar> \<le> 300" "v (manage_message tid ts) sig = Some r" "toLowerCase r = toLowerCase wallet"
    "issue_token buf tid wallet d = (Ok tok, d')"
  using assms that
  by (auto simp: auth_route_def no_string_def no_number_def not_less split: if_splits option.splits)

text \<open>A reply that is not \<open>Ok\<close> leaves the database alone.\<close>

lemma refused_unchanged:
  "\<not> is_ok (fst (init_route buf now iq d)) \<Longrightarrow> snd (init_route buf now iq d) = d"
  "\<not> is_ok (fst (bracket_route pq d)) \<Longrightarrow> snd (bracket_route pq d) = d"
  "\<not> is_ok (fst (finalize_route zq d)) \<Longrightarrow> snd (finalize_route zq d) = d"
  "\<not> is_ok (fst (auth_route v buf now aq d)) \<Longrightarrow> snd (auth_route v buf now aq d) = d"
proof -
  show "\<not> is_ok (fst (init_route buf now iq d)) \<Longrightarrow> snd (init_route buf now iq d) = d"
    by (auto simp: init_route_def split: option.split)
  show "\<not> is_ok (fst (bracket_route pq d)) \<Longrightarrow> snd (bracket_route pq d) = d"
    by (auto simp: bracket_route_def split: option.split)
  show "\<not> is_ok (fst (finalize_route zq d)) \<Longrightarrow> snd (finalize_route zq d) = d"
    by (auto simp: finalize_route_def Let_def case_prod_unfold split: option.split reply.split)
  show "\<not> is_ok (fst (auth_route v buf now aq d)) \<Longrightarrow> snd (auth_route v buf now aq d) = d"
    by (auto simp: auth_route_def issue_token_def Let_def split: option.split)
qed

section \<open>The whole interface\<close>

text \<open>What the handlers take from outside.\<close>

record outside =
  x_verifyMessage :: "string \<Rightarrow> string \<Rightarrow> string option"
  x_service :: service
  x_env :: paypal_env

text \<open>The requests that can write; the read routes leave the state alone by their type.\<close>

datatype api_request =
  ApiInit "8 word list" init_request
| ApiPut put_request
| ApiReport report_request
| ApiFinalize finalize_request
| ApiAuth "8 word list" auth_request
| ApiCapture "8 word list" capture_request
| ApiHook webhook_request

definition lift_db :: "token_cache \<Rightarrow> 'a reply \<times> db \<Rightarrow> bool \<times> token_cache \<times> db" where
  "lift_db cache r = (is_ok (fst r), cache, snd r)"

definition accept :: "'a reply \<times> token_cache \<times> db \<Rightarrow> bool \<times> token_cache \<times> db" where
  "accept r = (is_ok (fst r), snd r)"

text \<open>One request at time \<open>now\<close> in milliseconds: whether it was answered with success, and the new state.\<close>

fun api_step :: "outside \<Rightarrow> int \<Rightarrow> api_request \<Rightarrow> token_cache \<times> db \<Rightarrow> bool \<times> token_cache \<times> db" where
  "api_step x now (ApiInit buf q) (c, d) = lift_db c (init_route buf now q d)"
| "api_step x now (ApiPut q) (c, d) = lift_db c (bracket_route q d)"
| "api_step x now (ApiReport q) (c, d) = lift_db c (report_route (x_verifyMessage x) (now div 1000) q d)"
| "api_step x now (ApiFinalize q) (c, d) = lift_db c (finalize_route q d)"
| "api_step x now (ApiAuth buf q) (c, d) = lift_db c (auth_route (x_verifyMessage x) buf (now div 1000) q d)"
| "api_step x now (ApiCapture buf q) s = accept (capture_route (x_service x) (x_env x) buf now q s)"
| "api_step x now (ApiHook q) s = accept (webhook_route (x_service x) (x_env x) now q s)"

fun api_run :: "outside \<Rightarrow> (int \<times> api_request) list \<Rightarrow> token_cache \<times> db \<Rightarrow> bool list \<times> token_cache \<times> db" where
  "api_run x [] s = ([], s)"
| "api_run x ((now, q) # qs) s =
     (let (ok, s1) = api_step x now q s; (oks, s2) = api_run x qs s1 in (ok # oks, s2))"

text \<open>The effect of each request on the database, one case per kind of write.\<close>

lemma payment_frame:
  "getBracket i (snd (snd (capture_route sv env buf now q (c, d)))) = getBracket i d"
  "getTournament i (snd (snd (capture_route sv env buf now q (c, d)))) = getTournament i d"
  "getBracket i (snd (snd (webhook_route sv env now wq (c, d)))) = getBracket i d"
  "getTournament i (snd (snd (webhook_route sv env now wq (c, d)))) = getTournament i d"
  by (simp_all add: capture_route_def webhook_route_def capture_fund_def hook_fund_def Let_def case_prod_unfold
      split: option.split sum.split prod.split response.split)

lemma getBracket_save [simp]: "getBracket i (saveBracket tid b d) = (if i = tid then Some b else getBracket i d)"
  using brackets.get_put_if [of i "(tid, b)" d] by (simp add: bracket_row_def)

lemma report_body_effect:
  "(\<forall>i. getBracket i (snd (report_body tid m w out n d)) = getBracket i d) \<or>
   (\<exists>b st b'. getBracket tid d = Some b \<and> judge_report m w out b = Ok (st, b') \<and>
      (\<forall>i. getBracket i (snd (report_body tid m w out n d)) = (if i = tid then Some b' else getBracket i d)))"
proof -
  obtain ok d1 where d1: "useNonce (toLowerCase w) tid m n d = (ok, d1)" by force
  then have get: "getBracket i d1 = getBracket i d" for i
    using store_frame(9) [of i "toLowerCase w" tid m n d] by simp
  show ?thesis
  proof (cases "ok \<and> (\<exists>b st b'. getBracket tid d = Some b \<and> judge_report m w out b = Ok (st, b'))")
    case True
    then show ?thesis using d1 get by (auto simp: report_body_def)
  next
    case False
    then have "\<forall>i. getBracket i (snd (report_body tid m w out n d)) = getBracket i d"
      using d1 get by (auto simp: report_body_def split: option.split reply.split)
    then show ?thesis ..
  qed
qed

lemma report_effect:
  "(\<forall>i. getBracket i (snd (report_route v now q d)) = getBracket i d) \<or>
   (\<exists>tid b st b'. report_admissible v now q \<and> q_tid q = Some tid \<and> getBracket tid d = Some b \<and>
      judge_report (the (q_matchId q)) (the (q_wallet q)) (the (q_outcome q)) b = Ok (st, b') \<and>
      (\<forall>i. getBracket i (snd (report_route v now q d)) = (if i = tid then Some b' else getBracket i d)))"
proof (rule report_route_cases [of v now q d])
  assume adm: "report_admissible v now q" and r: "report_route v now q d = admitted_report q d"
  then have "q_tid q = Some (the (q_tid q))" by (auto simp: report_admissible_def)
  with adm report_body_effect [of "the (q_tid q)" "the (q_matchId q)" "the (q_wallet q)" "the (q_outcome q)" "the (q_nonce q)" d]
  show ?thesis unfolding r by blast
qed simp

lemma report_tournament [simp]: "getTournament i (snd (report_route v now q d)) = getTournament i d"
proof (rule report_route_cases [of v now q d])
  assume "report_route v now q d = admitted_report q d"
  then show ?thesis
    by (simp add: report_body_def Let_def case_prod_unfold split: option.split reply.split)
qed simp

section \<open>The invariant of the database\<close>

definition record_ok :: "int \<Rightarrow> tournament_record \<Rightarrow> bool" where
  "record_ok tid rec \<longleftrightarrow> r_tournamentId rec = tid \<and> foldl (+) 0 (r_payoutBps rec) = 10000 \<and>
     length (r_payoutBps rec) \<le> 16"

text \<open>
  Every bracket belongs to a registered tournament (the foreign key of the schema), every
  tournament splits exactly its prize pool and has one row, job ids are unique, and every finalize job is
  for a registered tournament.
\<close>

definition db_ok :: "db \<Rightarrow> bool" where
  "db_ok d \<longleftrightarrow>
     (\<forall>tid. getBracket tid d \<noteq> None \<longrightarrow> getTournament tid d \<noteq> None) \<and>
     (\<forall>tid rec. getTournament tid d = Some rec \<longrightarrow> record_ok tid rec) \<and> jobs_ok d \<and>
     (\<forall>j \<in> set (d_jobs d). \<forall>tid. j_payload j = Finalize tid \<longrightarrow> getTournament tid d \<noteq> None) \<and>
     distinct (map fst (d_tournaments d))"

lemma tournament_keys_frame [simp]:
  "distinct (map fst (d_tournaments (saveTournament rec d))) = distinct (map fst (d_tournaments d))"
  "d_tournaments (saveBracket tid b d) = d_tournaments d" "d_tournaments (snd (useNonce w t m n d)) = d_tournaments d"
  "d_tournaments (snd (claimFundingIntent o1 a d)) = d_tournaments d"
  "d_tournaments (updateFundingIntent o1 j y d) = d_tournaments d" "d_tournaments (snd (enqueueJob p d)) = d_tournaments d"
  by (auto simp: saveTournament_def saveBracket_def useNonce_def claimFundingIntent_def updateFundingIntent_def enqueueJob_def
      update_keys Let_def split: option.split)

lemma jobs_ok_frame [simp]:
  "jobs_ok (saveBracket tid b d) = jobs_ok d" "jobs_ok (saveTournament rec d) = jobs_ok d"
  "jobs_ok (snd (useNonce w t m n d)) = jobs_ok d" "jobs_ok (snd (claimFundingIntent o1 a d)) = jobs_ok d"
  "jobs_ok (updateFundingIntent o1 j y d) = jobs_ok d"
  by (auto simp: jobs_ok_def saveBracket_def saveTournament_def useNonce_def claimFundingIntent_def
      updateFundingIntent_def Let_def split: option.split)

lemma record_ok_upsert: "record_ok tid old \<Longrightarrow> record_ok tid (upsert_tournament rec old)"
  by (simp add: record_ok_def upsert_tournament_def)

lemma db_ok_saveBracket: "db_ok d \<Longrightarrow> getTournament tid d \<noteq> None \<Longrightarrow> db_ok (saveBracket tid b d)"
  by (auto simp: db_ok_def)

lemma db_ok_saveTournament:
  assumes "db_ok d" "getTournament (r_tournamentId rec) d = None \<Longrightarrow> record_ok (r_tournamentId rec) rec"
  shows "db_ok (saveTournament rec d)"
  using assms record_ok_upsert by (auto simp: db_ok_def getTournament_save split: option.split)

lemma db_ok_enqueue:
  assumes "db_ok d" "\<And>tid. p = Finalize tid \<Longrightarrow> getTournament tid d \<noteq> None"
  shows "db_ok (snd (enqueueJob p d))"
proof -
  have "set (d_jobs (snd (enqueueJob p d))) \<subseteq> insert \<lparr>j_id = d_nextJob d, j_payload = p, j_status = Pending,
      j_tournamentId = None, j_txHash = None, j_error = None\<rparr> (set (d_jobs d))"
    by (auto simp: enqueueJob_def)
  with assms jobs_ok_enqueue [of d p] show ?thesis by (fastforce simp: db_ok_def)
qed

lemma db_ok_frame:
  "db_ok d \<Longrightarrow> db_ok (snd (useNonce w t m n d))" "db_ok d \<Longrightarrow> db_ok (snd (claimFundingIntent o1 a d))"
  "db_ok d \<Longrightarrow> db_ok (updateFundingIntent o1 j y d)"
  by (simp_all add: db_ok_def)

lemma init_record_ok:
  assumes "init_body_error q = None"
  shows "record_ok tid (init_record buf now tid q)"
  using assms by (auto simp: init_body_error_def record_ok_def init_record_def split: option.splits if_splits)

lemma db_ok_init: "db_ok d \<Longrightarrow> db_ok (snd (init_route buf now q d))"
proof (cases "is_ok (fst (init_route buf now q d))")
  case True
  then obtain tok d' where r: "init_route buf now q d = (Ok tok, d')" by (cases "init_route buf now q d"; cases "fst (init_route buf now q d)") auto
  assume ok: "db_ok d"
  from r obtain tid where i: "init_body_error q = None"
    "d' = saveBracket tid (init_bracket q) (saveTournament (init_record buf now tid q) d)" by (rule init_route_Ok) blast
  have id: "r_tournamentId (init_record buf now tid q) = tid" by (simp add: init_record_def)
  have "db_ok (saveTournament (init_record buf now tid q) d)"
    using db_ok_saveTournament [OF ok] init_record_ok [OF i(1)] id by metis
  moreover have "getTournament tid (saveTournament (init_record buf now tid q) d) \<noteq> None"
    by (simp add: getTournament_save id)
  ultimately show ?thesis using r i(2) by (simp add: db_ok_saveBracket)
qed (simp add: refused_unchanged)

lemma db_ok_report: "db_ok d \<Longrightarrow> db_ok (snd (report_route v now q d))"
proof -
  assume ok: "db_ok d"
  have body: "db_ok (snd (report_body tid m w out n d))" for tid m w out n
  proof -
    obtain fresh d1 where d1: "useNonce (toLowerCase w) tid m n d = (fresh, d1)" by force
    then have "db_ok d1" using db_ok_frame(1) [OF ok, of "toLowerCase w" tid m n] by simp
    with d1 show ?thesis
      by (auto simp: report_body_def db_ok_saveBracket db_ok_def [of d1] split: option.split reply.split intro!: db_ok_saveBracket)
  qed
  show ?thesis by (rule report_route_cases [of v now q d]) (simp_all add: ok body)
qed

lemma db_ok_step: "db_ok (snd s) \<Longrightarrow> db_ok (snd (snd (api_step x now q s)))"
proof (cases s)
  fix c d assume s: "s = (c, d)" and "db_ok (snd s)"
  then have ok: "db_ok d" by simp
  show ?thesis
  proof (cases q)
    case (ApiInit buf iq)
    then show ?thesis using s ok by (simp add: lift_db_def db_ok_init)
  next
    case (ApiPut pq)
    have "db_ok (snd (bracket_route pq d))"
      using ok by (auto simp: bracket_route_def requireOrganizer_Some split: option.split intro!: db_ok_saveBracket)
    then show ?thesis using s ApiPut by (simp add: lift_db_def)
  next
    case (ApiReport rq)
    then show ?thesis using s ok by (simp add: lift_db_def db_ok_report)
  next
    case (ApiFinalize fq)
    have "db_ok (snd (finalize_route fq d))"
      using ok by (auto simp: finalize_route_def requireOrganizer_Some Let_def case_prod_unfold
          split: option.split reply.split intro!: db_ok_saveBracket db_ok_enqueue)
    then show ?thesis using s ApiFinalize by (simp add: lift_db_def)
  next
    case (ApiAuth buf aq)
    have "db_ok (snd (auth_route v buf n aq d))" for v n
      using ok by (auto simp: auth_route_def issue_token_def Let_def db_ok_def [of d] record_ok_def
          split: option.split intro!: db_ok_saveTournament)
    then show ?thesis using s ApiAuth by (simp add: lift_db_def)
  next
    case (ApiCapture buf kq)
    have "db_ok (snd (capture_fund buf o1 a t d))" for o1 a t
      using ok by (auto simp: capture_fund_def Let_def case_prod_unfold capture_job_def intro!: db_ok_frame db_ok_enqueue)
    with ok show ?thesis
      by (simp add: s ApiCapture accept_def capture_route_def case_prod_unfold Let_def split: option.split sum.split)
  next
    case (ApiHook wq)
    have "db_ok (hook_fund ev d)" for ev
      using ok by (auto simp: hook_fund_def Let_def case_prod_unfold hook_job_def intro!: db_ok_frame db_ok_enqueue)
    with ok show ?thesis
      by (simp add: s ApiHook accept_def webhook_route_def case_prod_unfold split: option.split sum.split response.split)
  qed
qed

text \<open>Whatever requests arrive, every tournament has one row, every bracket belongs to one, the payouts of a
  tournament are at most 16 shares that add up to 10000 basis points, job ids are unique, and every
  finalize job names a registered tournament.\<close>

theorem api_keeps_db_ok:
  assumes "db_ok d" "api_run x qs (c, d) = (oks, c', d')"
  shows "db_ok d'"
proof -
  have "db_ok (snd s) \<Longrightarrow> db_ok (snd (snd (api_run x qs s)))" for s
  proof (induction qs arbitrary: s)
    case (Cons r qs)
    then show ?case using db_ok_step [of s x "fst r" "snd r"] by (cases r) (simp add: case_prod_unfold Let_def)
  qed simp
  from this [of "(c, d)"] assms show ?thesis by simp
qed

section \<open>Finalizing\<close>

lemma wallet_of_nonempty: "wallet_of ps i \<noteq> '''' \<Longrightarrow> \<exists>p \<in> set ps. p_id p = i \<and> p_wallet p = wallet_of ps i"
  by (auto simp: wallet_of_def split: option.splits dest: find_Some_iff_hd)

lemma winner_wallets_full:
  assumes "length (winner_wallets n ps ids) = n"
  shows "winner_wallets n ps ids = map (wallet_of ps) (take n ids) \<and> n \<le> length ids \<and>
    '''' \<notin> set (map (wallet_of ps) (take n ids))"
proof -
  let ?ws = "map (wallet_of ps) (take n ids)"
  have full: "length (filter (\<lambda>w. w \<noteq> '''') ?ws) = n" using assms by (simp only: winner_wallets_def)
  have "length (filter (\<lambda>w. w \<noteq> '''') ?ws) \<le> length ?ws" by (rule length_filter_le)
  then have "n \<le> length ?ws" unfolding full .
  moreover have "length ?ws \<le> n" by simp
  ultimately have len2: "length ?ws = n" by (rule antisym [rotated])
  have len: "length (filter (\<lambda>w. w \<noteq> '''') ?ws) = length ?ws" "length ?ws = n" unfolding full len2 by (rule refl)+
  have all: "\<forall>w \<in> set ?ws. w \<noteq> ''''"
  proof (rule ballI, rule notI)
    fix w assume "w \<in> set ?ws" "w = ''''"
    then have "length (filter (\<lambda>w. w \<noteq> '''') ?ws) < length ?ws" by (intro length_filter_less [of w]) (assumption, simp only: not_not)
    then show False unfolding len(1) by (rule less_irrefl [THEN notE])
  qed
  then have "filter (\<lambda>w. w \<noteq> '''') ?ws = ?ws" by (simp only: filter_id_conv)
  moreover from len(2) have "n \<le> length ids" by simp
  ultimately show ?thesis using all unfolding winner_wallets_def by blast
qed

text \<open>C4. A finalize request that succeeds pays the winners the engine computes: the stored results replay
  to a complete tournament, the bracket is marked with the wallets of its first placements, one
  per payout share and none empty, and one job is queued that carries nothing but the tournament id.\<close>

theorem finalize_pays_winners:
  assumes "finalize_route q d = (Ok jobId, d')"
  shows "\<exists>tid rec b t ids. z_tid q = Some tid \<and> requireOrganizer (z_auth q) tid d = Some rec \<and>
    getBracket tid d = Some b \<and> reconstruct b = Inr t \<and> isComplete t \<and> winners t = Inr ids \<and>
    (let ws = map (wallet_of (b_players b)) (take (length (r_payoutBps rec)) ids)
     in getBracket tid d' = Some (b\<lparr>b_computedWinners := Some ws, b_finalized := Some True\<rparr>) \<and>
        length ws = length (r_payoutBps rec) \<and> '''' \<notin> set ws) \<and>
    map j_payload (d_jobs d') = map j_payload (d_jobs d) @ [Finalize tid]"
proof -
  from assms obtain tid rec b ws where 1: "z_tid q = Some tid" "requireOrganizer (z_auth q) tid d = Some rec"
    "getBracket tid d = Some b" "derive_winners (length (r_payoutBps rec)) b = Ok ws"
    "d' = snd (enqueueJob (Finalize tid) (saveBracket tid (b\<lparr>b_computedWinners := Some ws, b_finalized := Some True\<rparr>) d))"
    by (rule finalize_route_Ok) blast
  from 1(4) obtain t ids where 2: "reconstruct b = Inr t" "isComplete t" "winners t = Inr ids"
    "ws = winner_wallets (length (r_payoutBps rec)) (b_players b) ids" "length ws = length (r_payoutBps rec)"
    by (rule derive_winners_Ok)
  have 3: "ws = map (wallet_of (b_players b)) (take (length (r_payoutBps rec)) ids)" "'''' \<notin> set ws"
    using winner_wallets_full [of "length (r_payoutBps rec)" "b_players b" ids] 2(4,5) by simp_all
  have "map j_payload (d_jobs d') = map j_payload (d_jobs d) @ [Finalize tid]"
    unfolding 1(5) by (simp add: enqueueJob_def)
  moreover have "getBracket tid d' = Some (b\<lparr>b_computedWinners := Some ws, b_finalized := Some True\<rparr>)"
    unfolding 1(5) by simp
  ultimately show ?thesis
    using 1(1-3) 2(1-3,5) 3 by (intro exI [of _ tid] exI [of _ rec] exI [of _ b] exI [of _ t] exI [of _ ids]) simp
qed

definition is_finalized :: "int \<Rightarrow> db \<Rightarrow> bool" where
  "is_finalized tid d \<longleftrightarrow> (\<exists>b. getBracket tid d = Some b \<and> b_finalized b = Some True)"

text \<open>The requests that replace the bracket of a tournament.\<close>

definition replaces :: "int \<Rightarrow> api_request \<Rightarrow> bool" where
  "replaces tid q = (case q of ApiInit buf iq \<Rightarrow> n_tid iq = Some tid | ApiPut pq \<Rightarrow> u_tid pq = Some tid | _ \<Rightarrow> False)"

definition finalizes :: "int \<Rightarrow> api_request \<Rightarrow> bool" where
  "finalizes tid q = (case q of ApiFinalize zq \<Rightarrow> z_tid zq = Some tid | _ \<Rightarrow> False)"

lemma judge_keeps_finalized: "judge_report m w out b = Ok (st, b') \<Longrightarrow> b_finalized b \<noteq> Some True"
  by (auto simp: judge_report_def)

lemma is_finalized_finalize:
  "is_finalized tid d \<Longrightarrow> is_finalized tid (snd (finalize_route q d))"
  "is_ok (fst (finalize_route q d)) \<Longrightarrow> z_tid q = Some tid \<Longrightarrow>
     \<not> is_finalized tid d \<and> is_finalized tid (snd (finalize_route q d))"
  by (auto simp: finalize_route_def is_finalized_def Let_def case_prod_unfold split: option.splits reply.splits if_splits)

lemma is_finalized_step:
  assumes "is_finalized tid (snd s)" "\<not> replaces tid q"
  shows "is_finalized tid (snd (snd (api_step x now q s)))"
proof (cases s)
  fix c d assume s: "s = (c, d)"
  with assms(1) have fin: "is_finalized tid d" by simp
  show ?thesis
  proof (cases q)
    case (ApiInit buf iq)
    with assms(2) have "n_tid iq \<noteq> Some tid" by (simp add: replaces_def)
    then have "getBracket tid (snd (init_route buf now iq d)) = getBracket tid d"
      by (auto simp: init_route_def split: option.split)
    with fin show ?thesis by (simp add: s ApiInit lift_db_def is_finalized_def)
  next
    case (ApiPut pq)
    with assms(2) have "u_tid pq \<noteq> Some tid" by (simp add: replaces_def)
    then have "getBracket tid (snd (bracket_route pq d)) = getBracket tid d"
      by (auto simp: bracket_route_def split: option.split)
    with fin show ?thesis by (simp add: s ApiPut lift_db_def is_finalized_def)
  next
    case (ApiReport rq)
    have "getBracket tid (snd (report_route v n rq d)) = getBracket tid d" for v n
      using report_effect [of v n rq d] fin judge_keeps_finalized by (auto simp: is_finalized_def)
    with fin show ?thesis by (simp add: s ApiReport lift_db_def is_finalized_def)
  next
    case (ApiFinalize zq)
    with fin show ?thesis by (simp add: s lift_db_def is_finalized_finalize(1))
  next
    case (ApiAuth buf aq)
    have "getBracket tid (snd (auth_route v buf n aq d)) = getBracket tid d" for v n
      by (auto simp: auth_route_def issue_token_def Let_def split: option.split)
    with fin show ?thesis by (simp add: s ApiAuth lift_db_def is_finalized_def)
  qed (use fin in \<open>simp_all add: s accept_def is_finalized_def payment_frame\<close>)
qed

lemma finalized_no_more:
  assumes "is_finalized tid (snd s)" "\<forall>(now, q) \<in> set qs. \<not> replaces tid q"
  shows "length (filter (\<lambda>((now, q), ok). finalizes tid q \<and> ok) (zip qs (fst (api_run x qs s)))) = 0"
  using assms
proof (induction qs arbitrary: s)
  case (Cons r qs)
  obtain now q where r: "r = (now, q)" by force
  have "\<not> (finalizes tid q \<and> fst (api_step x now q s))"
    using Cons.prems(1) is_finalized_finalize(2) by (cases s; cases q) (auto simp: finalizes_def lift_db_def)
  moreover have "length (filter (\<lambda>((now, q), ok). finalizes tid q \<and> ok)
      (zip qs (fst (api_run x qs (snd (api_step x now q s)))))) = 0"
    by (rule Cons.IH) (use Cons.prems r is_finalized_step [of tid s q x now] in auto)
  ultimately show ?case by (auto simp: r Let_def case_prod_unfold)
qed simp

text \<open>When requests run one after the other, a tournament is finalized at most once as long as its bracket is not replaced:
  among any requests that hold no \<open>init\<close> and no bracket update of it, at most one finalize request succeeds.\<close>

theorem finalized_once:
  assumes "\<forall>(now, q) \<in> set qs. \<not> replaces tid q"
  shows "length (filter (\<lambda>((now, q), ok). finalizes tid q \<and> ok) (zip qs (fst (api_run x qs s)))) \<le> 1"
  using assms
proof (induction qs arbitrary: s)
  case (Cons r qs)
  obtain now q where r: "r = (now, q)" by force
  let ?n = "\<lambda>s. length (filter (\<lambda>((now, q), ok). finalizes tid q \<and> ok) (zip qs (fst (api_run x qs s))))"
  let ?s = "snd (api_step x now q s)"
  have split: "length (filter (\<lambda>((now, q), ok). finalizes tid q \<and> ok) (zip (r # qs) (fst (api_run x (r # qs) s)))) =
      (if finalizes tid q \<and> fst (api_step x now q s) then 1 else 0) + ?n ?s"
    by (simp add: r Let_def case_prod_unfold)
  have rest: "\<forall>(now, q) \<in> set qs. \<not> replaces tid q" using Cons.prems by simp
  show ?case
  proof (cases "finalizes tid q \<and> fst (api_step x now q s)")
    case True
    then have "is_finalized tid (snd ?s)"
      using is_finalized_finalize(2) by (cases s; cases q) (auto simp: finalizes_def lift_db_def)
    from finalized_no_more [OF this rest, of x] show ?thesis using split by simp
  next
    case False
    with Cons.IH [OF rest, of ?s] split show ?thesis by simp
  qed
qed simp

text \<open>Once finalized is not finalized for good: the organizer's bracket update is accepted on a finalized
  tournament too, and when the bracket it stores is not marked and is complete, a second finalize
  succeeds and queues a second payout job.\<close>

theorem update_reopens_finalized:
  assumes "is_finalized tid d" "bracket_route pq d = (Ok u, d1)" "u_tid pq = Some tid" "u_finalized pq \<noteq> Some True"
    and "getTournament tid d = Some rec" "derive_winners (length (r_payoutBps rec)) (put_bracket pq) = Ok ws"
  shows "\<exists>jobId d2. finalize_route \<lparr>z_contentLength = None, z_tid = Some tid, z_auth = u_auth pq\<rparr> d1 = (Ok jobId, d2) \<and>
    map j_payload (d_jobs d2) = map j_payload (d_jobs d) @ [Finalize tid]"
proof -
  from assms(2,3) have d1: "d1 = saveBracket tid (put_bracket pq) d" "requireOrganizer (u_auth pq) tid d \<noteq> None"
    by (auto elim: bracket_route_Ok)
  have auth: "requireOrganizer (u_auth pq) tid d1 = Some rec"
    using d1(2) assms(5) by (auto simp: d1(1) requireOrganizer_Some)
  have get: "getBracket tid d1 = Some (put_bracket pq)" by (simp add: d1(1))
  have "b_finalized (put_bracket pq) \<noteq> Some True" using assms(4) by (simp add: put_bracket_def)
  then show ?thesis
    using auth get assms(6)
    by (simp add: finalize_route_def validateBodySize_def MAX_BODY_def Let_def enqueueJob_def d1(1))
qed

section \<open>Who may write\<close>

definition proves_wallet :: "outside \<Rightarrow> string \<Rightarrow> string \<Rightarrow> string \<Rightarrow> bool" where
  "proves_wallet x message sig wallet \<longleftrightarrow>
     (\<exists>r. x_verifyMessage x message sig = Some r \<and> toLowerCase r = toLowerCase wallet)"

text \<open>
  What a request needs to change a tournament: the bearer token, a signed report by one of its
  players, a sign-in signed by its owner, or that the tournament is not registered yet.
\<close>

definition entitled :: "outside \<Rightarrow> int \<Rightarrow> api_request \<Rightarrow> db \<Rightarrow> bool" where
  "entitled x tid q d =
     (case q of
        ApiInit buf iq \<Rightarrow> n_tid iq = Some tid \<and> (getTournament tid d = None \<or> requireOrganizer (n_auth iq) tid d \<noteq> None)
      | ApiPut pq \<Rightarrow> u_tid pq = Some tid \<and> requireOrganizer (u_auth pq) tid d \<noteq> None
      | ApiFinalize zq \<Rightarrow> z_tid zq = Some tid \<and> requireOrganizer (z_auth zq) tid d \<noteq> None
      | ApiReport rq \<Rightarrow> q_tid rq = Some tid \<and>
          proves_wallet x (report_message tid (the (q_matchId rq)) (the (q_outcome rq)) (the (q_nonce rq)) (the (q_ts rq)))
            (the (q_sig rq)) (the (q_wallet rq)) \<and>
          (\<exists>b p. getBracket tid d = Some b \<and> p \<in> set (b_players b) \<and>
             toLowerCase (p_wallet p) = toLowerCase (the (q_wallet rq)))
      | ApiAuth buf aq \<Rightarrow> a_tid aq = Some tid \<and>
          proves_wallet x (manage_message tid (the (a_ts aq))) (the (a_sig aq)) (the (a_wallet aq)) \<and>
          (\<exists>rec. getTournament tid d = Some rec \<and> owns (the (a_wallet aq)) rec)
      | _ \<Rightarrow> False)"

definition tournament_view :: "int \<Rightarrow> db \<Rightarrow> tournament_record option \<times> bracket_state option" where
  "tournament_view tid d = (getTournament tid d, getBracket tid d)"

lemma view_init: "tournament_view tid (snd (init_route buf now iq d)) \<noteq> tournament_view tid d \<Longrightarrow>
    entitled x tid (ApiInit buf iq) d"
  by (auto simp: init_route_def entitled_def tournament_view_def getTournament_save init_record_def
      split: option.splits if_splits)

lemma view_put: "tournament_view tid (snd (bracket_route pq d)) \<noteq> tournament_view tid d \<Longrightarrow>
    entitled x tid (ApiPut pq) d"
  by (auto simp: bracket_route_def entitled_def tournament_view_def split: option.splits if_splits)

lemma view_finalize: "tournament_view tid (snd (finalize_route zq d)) \<noteq> tournament_view tid d \<Longrightarrow>
    entitled x tid (ApiFinalize zq) d"
  by (auto simp: finalize_route_def entitled_def tournament_view_def Let_def case_prod_unfold
      split: option.splits if_splits reply.splits)

lemma view_report:
  assumes "tournament_view tid (snd (report_route (x_verifyMessage x) now rq d)) \<noteq> tournament_view tid d"
  shows "entitled x tid (ApiReport rq) d"
proof -
  from assms have "getBracket tid (snd (report_route (x_verifyMessage x) now rq d)) \<noteq> getBracket tid d"
    by (simp add: tournament_view_def)
  then obtain b st b' where 1: "report_admissible (x_verifyMessage x) now rq" "q_tid rq = Some tid" "getBracket tid d = Some b"
    "judge_report (the (q_matchId rq)) (the (q_wallet rq)) (the (q_outcome rq)) b = Ok (st, b')"
    using report_effect [of "x_verifyMessage x" now rq d] by (auto split: if_splits)
  from 1(4) obtain p :: player where "p \<in> set (b_players b)" "toLowerCase (p_wallet p) = toLowerCase (the (q_wallet rq))"
    by (rule judge_Ok) blast
  with 1(1-3) show ?thesis by (auto simp: entitled_def report_admissible_def proves_wallet_def)
qed

lemma view_auth:
  assumes "tournament_view tid (snd (auth_route (x_verifyMessage x) buf now aq d)) \<noteq> tournament_view tid d" "db_ok d"
  shows "entitled x tid (ApiAuth buf aq) d"
proof -
  have "is_ok (fst (auth_route (x_verifyMessage x) buf now aq d))"
    using assms(1) refused_unchanged(4) [of "x_verifyMessage x" buf now aq d] by metis
  then obtain tok d' where r: "auth_route (x_verifyMessage x) buf now aq d = (Ok tok, d')"
    by (cases "auth_route (x_verifyMessage x) buf now aq d"; cases "fst (auth_route (x_verifyMessage x) buf now aq d)") auto
  then obtain tid' wallet ts sig w where a: "a_tid aq = Some tid'" "a_wallet aq = Some wallet" "a_ts aq = Some ts"
    "a_sig aq = Some sig" "x_verifyMessage x (manage_message tid' ts) sig = Some w" "toLowerCase w = toLowerCase wallet"
    "issue_token buf tid' wallet d = (Ok tok, d')" by (rule auth_route_Ok) blast
  from a(7) obtain rec where i: "getTournament tid' d = Some rec" "owns wallet rec"
    "d' = d \<or> d' = saveTournament (rec\<lparr>r_manageToken := Some tok\<rparr>) d" by (rule issue_token_Ok) blast
  have "r_tournamentId rec = tid'" using assms(2) i(1) by (auto simp: db_ok_def record_ok_def)
  then have "tid = tid'" using assms(1) r i(3) by (auto simp: tournament_view_def getTournament_save split: if_splits)
  with a i show ?thesis by (auto simp: entitled_def proves_wallet_def)
qed

text \<open>C8. Nobody else writes: a request that changes the stored record or bracket of a tournament carries its
  bearer token, is a report signed by the wallet of one of its players, is a sign-in signed by its
  owner, or registers a tournament that was not there.\<close>

theorem writers_are_entitled:
  assumes "db_ok d" "api_step x now q (c, d) = (ok, c', d')" "tournament_view tid d' \<noteq> tournament_view tid d"
  shows "entitled x tid q d"
proof -
  have d': "d' = snd (snd (api_step x now q (c, d)))" using assms(2) by simp
  show ?thesis
  proof (cases q)
    case (ApiInit buf iq) with assms(3) d' show ?thesis by (simp add: lift_db_def view_init)
  next
    case (ApiPut pq) with assms(3) d' show ?thesis by (simp add: lift_db_def view_put)
  next
    case (ApiReport rq) with assms(3) d' show ?thesis by (simp add: lift_db_def view_report)
  next
    case (ApiFinalize zq) with assms(3) d' show ?thesis by (simp add: lift_db_def view_finalize)
  next
    case (ApiAuth buf aq) with assms(1,3) d' show ?thesis by (simp add: lift_db_def view_auth)
  qed (use assms(3) d' in \<open>simp_all add: accept_def tournament_view_def payment_frame\<close>)
qed

section \<open>Manage tokens\<close>

lemma bearer_plain: "\<forall>c \<in> set tok. \<not> js_space c \<Longrightarrow> bearer_token (Some (''Bearer '' @ tok)) = tok"
  using trim_id [of tok] by (simp add: bearer_token_def startsWith_def)

lemma init_result:
  assumes "init_route buf now q d = (Ok tok, d')"
  obtains tid rec where "n_tid q = Some tid" "getTournament tid d' = Some rec" "r_manageToken rec = Some tok"
    "tok = generateManageToken buf" "getBracket tid d' = Some (init_bracket q)"
    "rec = (case getTournament tid d of None \<Rightarrow> init_record buf now tid q
       | Some old \<Rightarrow> upsert_tournament (init_record buf now tid q) old)"
proof -
  from assms obtain tid where i: "n_tid q = Some tid" "tok = generateManageToken buf"
    "d' = saveBracket tid (init_bracket q) (saveTournament (init_record buf now tid q) d)" by (rule init_route_Ok)
  let ?rec = "case getTournament tid d of None \<Rightarrow> init_record buf now tid q
       | Some old \<Rightarrow> upsert_tournament (init_record buf now tid q) old"
  have "r_tournamentId (init_record buf now tid q) = tid" by (simp add: init_record_def)
  then have "getTournament tid d' = Some ?rec" by (simp add: i(3) getTournament_save)
  moreover have "r_manageToken ?rec = Some tok"
    by (simp add: i(2) init_record_def upsert_tournament_def coalesce_def split: option.split)
  moreover have "getBracket tid d' = Some (init_bracket q)" by (simp add: i(3))
  ultimately show thesis using that i(1,2) by blast
qed

text \<open>C29. Registering hands out the key: after a successful \<open>init\<close> the returned token authorizes its
  holder, the bracket is the submitted one without results, and every other token is rejected.\<close>

theorem init_hands_out_key:
  assumes "init_route buf now q d = (Ok tok, d')" "length buf = 32"
  shows "\<exists>tid. n_tid q = Some tid \<and> getBracket tid d' = Some (init_bracket q) \<and>
    requireOrganizer (Some (''Bearer '' @ tok)) tid d' \<noteq> None \<and>
    (requireOrganizer h tid d' \<noteq> None \<longrightarrow> bearer_token h = tok)"
proof -
  from assms(1) obtain tid rec where i: "n_tid q = Some tid" "getTournament tid d' = Some rec" "r_manageToken rec = Some tok"
    "tok = generateManageToken buf" "getBracket tid d' = Some (init_bracket q)" by (rule init_result)
  have "bearer_token (Some (''Bearer '' @ tok)) = tok" using bearer_generated i(4) by simp
  moreover have "length tok = 64" using assms(2) i(4) length_token by simp
  ultimately have "requireOrganizer (Some (''Bearer '' @ tok)) tid d' = Some rec"
    using i(2,3) by (simp add: requireOrganizer_Some)
  moreover have "requireOrganizer h tid d' \<noteq> None \<longrightarrow> bearer_token h = tok"
    using i(2,3) by (auto simp: requireOrganizer_Some)
  ultimately show ?thesis using i(1,5) by auto
qed

text \<open>C13. The key is public: the unauthenticated read of a tournament returns its record with the manage
  token, and whoever sends that token back is the organizer.\<close>

theorem manage_token_is_public:
  assumes "init_route buf now q d = (Ok tok, d')" "length buf = 32"
  shows "\<exists>rec b tid. tournament_route (n_tid q) d' = Ok (rec, b) \<and> n_tid q = Some tid \<and> r_manageToken rec = Some tok \<and>
    requireOrganizer (Some (''Bearer '' @ the (r_manageToken rec))) tid d' = Some rec"
proof -
  from assms(1) obtain tid rec where i: "n_tid q = Some tid" "getTournament tid d' = Some rec" "r_manageToken rec = Some tok"
    "tok = generateManageToken buf" "getBracket tid d' = Some (init_bracket q)" by (rule init_result)
  have "bearer_token (Some (''Bearer '' @ tok)) = tok" using bearer_generated i(4) by simp
  moreover have "length tok = 64" using assms(2) i(4) length_token by simp
  ultimately have "requireOrganizer (Some (''Bearer '' @ tok)) tid d' = Some rec"
    using i(2,3) by (simp add: requireOrganizer_Some)
  then show ?thesis
    using i(1-3,5) by (intro exI [of _ rec] exI [of _ "Some (init_bracket q)"] exI [of _ tid]) (simp add: tournament_route_def)
qed

text \<open>Registering again keeps the old payouts: when the tournament is already there, \<open>init\<close> with new
  payouts answers with success and replaces the bracket, but the stored payouts and sponsor stay.\<close>

theorem reinit_keeps_payouts:
  assumes "init_route buf now q d = (Ok tok, d')" "getTournament tid d = Some old" "n_tid q = Some tid"
  shows "\<exists>rec. getTournament tid d' = Some rec \<and> r_payoutBps rec = r_payoutBps old \<and> r_sponsor rec = r_sponsor old \<and>
    r_createdAt rec = r_createdAt old \<and> getBracket tid d' = Some (init_bracket q)"
proof -
  from assms(1) obtain tid' rec where i: "n_tid q = Some tid'" "getTournament tid' d' = Some rec"
    "getBracket tid' d' = Some (init_bracket q)"
    "rec = (case getTournament tid' d of None \<Rightarrow> init_record buf now tid' q
       | Some old \<Rightarrow> upsert_tournament (init_record buf now tid' q) old)" by (rule init_result)
  then show ?thesis using assms(2,3) by (simp add: upsert_tournament_def)
qed

text \<open>A sign-in gives a token only to the owner: the signature over tournament and timestamp, at most
  five minutes old, recovers the wallet of the organizer or sponsor.\<close>

theorem auth_only_for_owner:
  assumes "auth_route v buf now q d = (Ok tok, d')"
  shows "\<exists>tid rec ts r. a_tid q = Some tid \<and> getTournament tid d = Some rec \<and> a_ts q = Some ts \<and> \<bar>now - ts\<bar> \<le> 300 \<and>
    v (manage_message tid ts) (the (a_sig q)) = Some r \<and> owns r rec"
proof -
  from assms obtain tid wallet ts sig r where a: "a_tid q = Some tid" "a_ts q = Some ts" "a_sig q = Some sig" "\<bar>now - ts\<bar> \<le> 300"
    "v (manage_message tid ts) sig = Some r" "toLowerCase r = toLowerCase wallet"
    "issue_token buf tid wallet d = (Ok tok, d')" by (rule auth_route_Ok)
  from a(7) obtain rec where "getTournament tid d = Some rec" "owns wallet rec" by (rule issue_token_Ok) blast
  with a show ?thesis by (auto simp: owns_def)
qed

section \<open>A cup of two, for the closed instances\<close>

definition duo :: "player list" where
  "duo = [\<lparr>p_id = 0, p_wallet = ''0xa0'', p_name = ''P'', p_seed = 1\<rparr>,
          \<lparr>p_id = 1, p_wallet = ''0xa1'', p_name = ''Q'', p_seed = 2\<rparr>]"

definition duo_buf :: "8 word list" where
  "duo_buf = replicate 32 171"

definition duo_key :: "string option" where
  "duo_key = Some (''Bearer '' @ generateManageToken duo_buf)"

definition duo_init :: init_request where
  "duo_init = \<lparr>n_contentLength = None, n_tid = Some 7, n_auth = duo_key, n_sponsor = Some ''0xb0'', n_prizePoolWei = None,
     n_payoutBps = Some [10000], n_format = Some F_single_elimination, n_swissRounds = None,
     n_players = Some duo, n_txHash = None\<rparr>"

definition duo_db0 :: db where
  "duo_db0 = snd (init_route duo_buf 0 duo_init empty_db)"

lemma duo_length: "length duo_buf = 32" by (simp add: duo_buf_def)

lemma duo_registered: "init_route duo_buf 0 duo_init empty_db = (Ok (generateManageToken duo_buf), duo_db0)"
  by (simp add: duo_db0_def init_route_def duo_init_def validateBodySize_def MAX_BODY_def init_body_error_def
      getTournament_def empty_db_def duo_def)

lemma duo_db0_eq:
  "duo_db0 = saveBracket 7 (init_bracket duo_init) (saveTournament (init_record duo_buf 0 7 duo_init) empty_db)"
  by (rule init_route_Ok [OF duo_registered]) (simp add: duo_init_def [THEN arg_cong [where f = n_tid]])

lemma duo_empty: "getTournament i empty_db = None" "getBracket i empty_db = None"
  by (simp_all add: empty_db_def getTournament_def getBracket_def)

lemma duo_stored: "getTournament 7 duo_db0 = Some (init_record duo_buf 0 7 duo_init)"
  "getBracket 7 duo_db0 = Some (init_bracket duo_init)"
proof -
  have "r_tournamentId (init_record duo_buf 0 7 duo_init) = 7" by (simp add: init_record_def)
  then show "getTournament 7 duo_db0 = Some (init_record duo_buf 0 7 duo_init)"
    by (simp add: duo_db0_eq getTournament_save duo_empty)
qed (simp add: duo_db0_eq)

lemma duo_bearer: "bearer_token duo_key = generateManageToken duo_buf"
  unfolding duo_key_def by (rule bearer_generated)

definition duo_put :: put_request where
  "duo_put = \<lparr>u_contentLength = None, u_tid = Some 7, u_auth = duo_key, u_format = Some F_single_elimination,
     u_swissRounds = None, u_players = Some duo, u_results = Some [\<lparr>mr_matchId = 1, mr_outcome = ''A''\<rparr>],
     u_finalized = None, u_computedWinners = None, u_reports = None, u_disputes = None\<rparr>"

definition duo_finalize :: finalize_request where
  "duo_finalize = \<lparr>z_contentLength = None, z_tid = Some 7, z_auth = duo_key\<rparr>"

definition duo_db1 :: db where
  "duo_db1 = snd (bracket_route duo_put duo_db0)"

definition duo_db2 :: db where
  "duo_db2 = snd (finalize_route duo_finalize duo_db1)"

definition duo_db3 :: db where
  "duo_db3 = snd (bracket_route duo_put duo_db2)"

definition duo_rec :: tournament_record where
  "duo_rec = init_record duo_buf 0 7 duo_init"

lemma duo_authorized: "getTournament 7 d = Some duo_rec \<Longrightarrow> requireOrganizer duo_key 7 d = Some duo_rec"
  by (simp add: requireOrganizer_Some duo_bearer length_token duo_length) (simp add: duo_rec_def init_record_def)

lemma duo_update: "getTournament 7 d = Some duo_rec \<Longrightarrow> bracket_route duo_put d = (Ok (), saveBracket 7 (put_bracket duo_put) d)"
  using duo_authorized [of d]
  by (simp add: bracket_route_def duo_put_def validateBodySize_def MAX_BODY_def duo_def)

lemma duo_winners: "derive_winners 1 (put_bracket duo_put) = Ok [''0xa0'']" by code_simp

lemma duo_payouts [simp]: "length (r_payoutBps duo_rec) = 1"
  by (simp add: duo_rec_def init_record_def duo_init_def)

lemma duo_db1: "getTournament 7 duo_db1 = Some duo_rec" "getBracket 7 duo_db1 = Some (put_bracket duo_put)"
  using duo_update [of duo_db0] duo_stored(1) by (simp_all add: duo_db1_def duo_rec_def)

lemma duo_finalized: "finalize_route duo_finalize duo_db1 = (Ok 1, duo_db2)"
proof -
  have "d_nextJob duo_db1 = 1"
    using duo_update [of duo_db0] duo_stored(1)
    by (simp add: duo_db1_def duo_rec_def saveBracket_def saveTournament_def Let_def duo_db0_eq) (simp add: empty_db_def)
  moreover have "b_finalized (put_bracket duo_put) \<noteq> Some True" by (simp add: put_bracket_def duo_put_def)
  ultimately have "fst (finalize_route duo_finalize duo_db1) = Ok 1"
    using duo_authorized [OF duo_db1(1)] duo_db1(2) duo_winners
    by (simp add: finalize_route_def duo_finalize_def validateBodySize_def MAX_BODY_def enqueueJob_def saveBracket_def Let_def)
  then show ?thesis by (simp add: duo_db2_def prod_eq_iff)
qed

lemma duo_db2: "getTournament 7 duo_db2 = Some duo_rec" "is_finalized 7 duo_db2"
proof -
  have r: "finalize_route duo_finalize duo_db1 = (Ok 1, duo_db2)" by (rule duo_finalized)
  then obtain ws b where d2: "duo_db2 = snd (enqueueJob (Finalize 7) (saveBracket 7 (b\<lparr>b_computedWinners := Some ws, b_finalized := Some True\<rparr>) duo_db1))"
    by (rule finalize_route_Ok) (simp add: duo_finalize_def)
  show "getTournament 7 duo_db2 = Some duo_rec" "is_finalized 7 duo_db2"
    unfolding d2 using duo_db1(1) by (simp_all add: is_finalized_def)
qed

theorem finalize_pays_winners_witness:
  "\<exists>b ids. getBracket 7 duo_db1 = Some b \<and> (\<exists>t. reconstruct b = Inr t \<and> isComplete t \<and> winners t = Inr ids)"
  using finalize_pays_winners [OF duo_finalized] by (auto simp: duo_finalize_def)

definition duo_outside :: outside where
  "duo_outside = \<lparr>x_verifyMessage = demo_verify, x_service = demo_service, x_env = demo_env\<rparr>"

definition duo_twice :: "(int \<times> api_request) list" where
  "duo_twice = [(0, ApiFinalize duo_finalize), (1, ApiFinalize duo_finalize)]"

theorem finalized_once_witness:
  "length (filter (\<lambda>((now, q), ok). finalizes 7 q \<and> ok)
     (zip duo_twice (fst (api_run duo_outside duo_twice (None, duo_db1))))) \<le> 1"
  by (rule finalized_once) (simp add: replaces_def duo_twice_def)

theorem update_reopens_finalized_witness:
  "\<exists>jobId d2. finalize_route \<lparr>z_contentLength = None, z_tid = Some 7, z_auth = u_auth duo_put\<rparr> duo_db3 = (Ok jobId, d2)"
proof -
  have up: "bracket_route duo_put duo_db2 = (Ok (), duo_db3)"
    using duo_update [OF duo_db2(1)] by (simp add: duo_db3_def)
  have "u_tid duo_put = Some 7" "u_finalized duo_put \<noteq> Some True" by (simp_all add: duo_put_def)
  moreover have "derive_winners (length (r_payoutBps duo_rec)) (put_bracket duo_put) = Ok [''0xa0'']"
    using duo_winners by simp
  ultimately show ?thesis using update_reopens_finalized [OF duo_db2(2) up _ _ duo_db2(1)] by blast
qed

lemma db_ok_empty: "db_ok empty_db"
  by (simp add: db_ok_def jobs_ok_empty duo_empty) (simp add: empty_db_def)

definition duo_run :: "bool list \<times> token_cache \<times> db" where
  "duo_run = api_run duo_outside [(0, ApiInit duo_buf duo_init), (1, ApiPut duo_put)] (None, empty_db)"

theorem api_keeps_db_ok_witness: "db_ok (snd (snd duo_run))"
proof -
  have "api_run duo_outside [(0, ApiInit duo_buf duo_init), (1, ApiPut duo_put)] (None, empty_db) =
      (fst duo_run, fst (snd duo_run), snd (snd duo_run))" by (simp add: duo_run_def)
  from api_keeps_db_ok [OF db_ok_empty this] show ?thesis .
qed

theorem writers_are_entitled_witness: "entitled duo_outside 7 (ApiInit duo_buf duo_init) empty_db"
proof -
  have step: "api_step duo_outside 0 (ApiInit duo_buf duo_init) (None, empty_db) = (True, None, duo_db0)"
    by (simp add: lift_db_def duo_registered)
  have "tournament_view 7 duo_db0 \<noteq> tournament_view 7 empty_db"
    by (simp add: tournament_view_def duo_stored duo_empty)
  from writers_are_entitled [OF db_ok_empty step this] show ?thesis .
qed

theorem init_hands_out_key_witness: "requireOrganizer duo_key 7 duo_db0 \<noteq> None"
  using init_hands_out_key [OF duo_registered duo_length] by (auto simp: duo_key_def duo_init_def)

theorem manage_token_is_public_witness:
  "\<exists>rec b. tournament_route (Some 7) duo_db0 = Ok (rec, b) \<and>
     requireOrganizer (Some (''Bearer '' @ the (r_manageToken rec))) 7 duo_db0 = Some rec"
  using manage_token_is_public [OF duo_registered duo_length] by (auto simp: duo_init_def)

definition duo_again :: init_request where
  "duo_again = duo_init\<lparr>n_payoutBps := Some [5000, 5000]\<rparr>"

theorem reinit_keeps_payouts_witness:
  "\<exists>rec. getTournament 7 (snd (init_route duo_buf 5 duo_again duo_db0)) = Some rec \<and> r_payoutBps rec = [10000]"
proof -
  have get: "getTournament 7 duo_db0 = Some duo_rec" by (simp add: duo_stored duo_rec_def)
  have "fst (init_route duo_buf 5 duo_again duo_db0) = Ok (generateManageToken duo_buf)"
    using duo_authorized [OF get]
    by (simp add: init_route_def duo_again_def duo_init_def validateBodySize_def MAX_BODY_def init_body_error_def duo_def)
  then have r: "init_route duo_buf 5 duo_again duo_db0 =
      (Ok (generateManageToken duo_buf), snd (init_route duo_buf 5 duo_again duo_db0))" by (simp add: prod_eq_iff)
  have "n_tid duo_again = Some 7" by (simp add: duo_again_def duo_init_def)
  from reinit_keeps_payouts [OF r get this] show ?thesis
    by (auto simp: duo_rec_def init_record_def duo_init_def)
qed

definition duo_signin :: auth_request where
  "duo_signin = \<lparr>a_tid = Some 7, a_wallet = Some ''0xB0'', a_sig = Some ''s'', a_ts = Some 100\<rparr>"

theorem auth_only_for_owner_witness: "\<exists>rec. getTournament 7 duo_db0 = Some rec \<and> owns ''0xb0'' rec"
proof -
  have "toLowerCase ''0xB0'' = toLowerCase ''0xb0''" by code_simp
  then have "auth_route (\<lambda>msg sig. Some ''0xb0'') duo_buf 120 duo_signin duo_db0 =
      (Ok (generateManageToken duo_buf), duo_db0)"
    using length_token [of duo_buf]
    by (auto simp: auth_route_def duo_signin_def no_string_def no_number_def issue_token_def duo_stored owns_def
        init_record_def duo_init_def duo_length)
  from auth_only_for_owner [OF this] show ?thesis by (auto simp: duo_signin_def)
qed

end
