(* ===== verification/Handlers.thy ===== *)
theory Handlers
  imports Api
begin

text \<open>
  The writing routes statement by statement. A handler waits at every statement of the database, and
  other handlers run meanwhile, so each route is a process whose steps are its statements; payments
  are the processes of \<open>Funding\<close>. Run alone, a process is the handler of \<open>Api\<close>. Here it is shown what
  survives every interleaving, with crashes, what holds while the handlers of one cup do not overlap, and what does
  not survive.
\<close>

section \<open>Processes\<close>

datatype handler =
  Report int report_request
| ReportCounted report_request
| ReportRead report_request bracket_state
| ReportDone report_request "report_status reply"
| Final finalize_request
| FinalAllowed int tournament_record
| FinalRead int tournament_record bracket_state
| FinalSaved int
| FinalDone "int reply"
| Put put_request
| PutAllowed put_request
| PutDone "unit reply"
| Init "8 word list" int init_request
| InitKnown "8 word list" int init_request
| InitAllowed "8 word list" int init_request
| InitSaved "8 word list" init_request
| InitDone "string reply"
| SignIn "8 word list" int auth_request
| SignInSave tournament_record string
| SignInDone "string reply"
| Pay proc
| Died

text \<open>\<open>report\<close>: the checks need no statement; then the nonce, the read and the write.\<close>

definition report_read :: "report_request \<Rightarrow> bracket_state option \<Rightarrow> handler" where
  "report_read q b =
     (case b of None \<Rightarrow> ReportDone q (Err 404 ''bracket not found'') | Some b \<Rightarrow> ReportRead q b)"

definition report_write :: "report_request \<Rightarrow> bracket_state \<Rightarrow> db \<Rightarrow> handler \<times> db" where
  "report_write q b d =
     (case judge_report (the (q_matchId q)) (the (q_wallet q)) (the (q_outcome q)) b of
        Ok (status, b') \<Rightarrow> (ReportDone q (Ok status), saveBracket (the (q_tid q)) b' d)
      | Err c msg \<Rightarrow> (ReportDone q (Err c msg), d)
      | Crash e \<Rightarrow> (ReportDone q (Crash e), d))"

text \<open>\<open>finalize\<close>: the record, the bracket, the write of the winners and the job.\<close>

definition final_start :: "finalize_request \<Rightarrow> db \<Rightarrow> handler" where
  "final_start q d =
     (if validateBodySize (z_contentLength q) then FinalDone (Err 413 ''payload too large'')
      else case z_tid q of None \<Rightarrow> FinalDone (Err 400 ''bad id'')
      | Some tid \<Rightarrow>
          (case requireOrganizer (z_auth q) tid d of
             None \<Rightarrow> FinalDone (Err 401 ''unauthorized'') | Some rec \<Rightarrow> FinalAllowed tid rec))"

definition final_read :: "int \<Rightarrow> tournament_record \<Rightarrow> bracket_state option \<Rightarrow> handler" where
  "final_read tid rec b =
     (case b of
        None \<Rightarrow> FinalDone (Err 404 ''bracket not found'')
      | Some b \<Rightarrow> if b_finalized b = Some True then FinalDone (Err 400 ''already finalized'') else FinalRead tid rec b)"

definition final_write :: "int \<Rightarrow> tournament_record \<Rightarrow> bracket_state \<Rightarrow> db \<Rightarrow> handler \<times> db" where
  "final_write tid rec b d =
     (case derive_winners (length (r_payoutBps rec)) b of
        Err c msg \<Rightarrow> (FinalDone (Err c msg), d)
      | Crash e \<Rightarrow> (FinalDone (Crash e), d)
      | Ok ws \<Rightarrow> (FinalSaved tid, saveBracket tid (b\<lparr>b_computedWinners := Some ws, b_finalized := Some True\<rparr>) d))"

definition put_start :: "put_request \<Rightarrow> db \<Rightarrow> handler" where
  "put_start q d =
     (if validateBodySize (u_contentLength q) then PutDone (Err 413 ''payload too large'')
      else case u_tid q of None \<Rightarrow> PutDone (Err 400 ''bad id'')
      | Some tid \<Rightarrow>
          if requireOrganizer (u_auth q) tid d = None then PutDone (Err 401 ''unauthorized'')
          else if u_format q = None \<or> u_players q = None \<or> u_results q = None
          then PutDone (Err 400 ''invalid bracket state'')
          else if length (the (u_players q)) > 1024 \<or> length (the (u_results q)) > 4096
          then PutDone (Err 400 ''too many entries'')
          else PutAllowed q)"

text \<open>\<open>init\<close>: is there a tournament, does the caller hold its token, then the two writes.\<close>

definition init_checked :: "8 word list \<Rightarrow> int \<Rightarrow> init_request \<Rightarrow> handler" where
  "init_checked buf now q =
     (case init_body_error q of Some msg \<Rightarrow> InitDone (Err 400 msg) | None \<Rightarrow> InitAllowed buf now q)"

definition init_start :: "8 word list \<Rightarrow> int \<Rightarrow> init_request \<Rightarrow> db \<Rightarrow> handler" where
  "init_start buf now q d =
     (if validateBodySize (n_contentLength q) then InitDone (Err 413 ''payload too large'')
      else case n_tid q of None \<Rightarrow> InitDone (Err 400 ''bad id'')
      | Some tid \<Rightarrow> if getTournament tid d \<noteq> None then InitKnown buf now q else init_checked buf now q)"

text \<open>\<open>auth\<close>: the record, and the write of a new token.\<close>

definition sign_in_start ::
  "(string \<Rightarrow> string \<Rightarrow> string option) \<Rightarrow> 8 word list \<Rightarrow> int \<Rightarrow> auth_request \<Rightarrow> db \<Rightarrow> handler" where
  "sign_in_start v buf now q d =
     (case a_tid q of None \<Rightarrow> SignInDone (Err 400 ''bad id'')
      | Some tid \<Rightarrow>
          if no_string (a_wallet q) \<or> no_string (a_sig q) \<or> no_number (a_ts q)
          then SignInDone (Err 400 ''wallet, sig, ts required'')
          else if \<bar>now - the (a_ts q)\<bar> > 300 then SignInDone (Err 400 ''timestamp expired (5 min window)'')
          else (case v (manage_message tid (the (a_ts q))) (the (a_sig q)) of
                  None \<Rightarrow> SignInDone (Err 401 ''invalid signature'')
                | Some recovered \<Rightarrow>
                    if toLowerCase recovered \<noteq> toLowerCase (the (a_wallet q))
                    then SignInDone (Err 401 ''signature mismatch'')
                    else (case getTournament tid d of
                            None \<Rightarrow> SignInDone (Err 404 ''tournament not found'')
                          | Some rec \<Rightarrow>
                              if \<not> owns (the (a_wallet q)) rec then SignInDone (Err 403 ''not the organizer'')
                              else if no_string (r_manageToken rec) then SignInSave rec (generateManageToken buf)
                              else SignInDone (Ok (the (r_manageToken rec))))))"

fun handler_step :: "(string \<Rightarrow> string \<Rightarrow> string option) \<Rightarrow> handler \<Rightarrow> db \<Rightarrow> handler \<times> db" where
  "handler_step v (Report now q) d =
     (if report_admissible v now q
      then (let (fresh, d') = useNonce (toLowerCase (the (q_wallet q))) (the (q_tid q)) (the (q_matchId q)) (the (q_nonce q)) d
            in (if fresh then ReportCounted q else ReportDone q (Err 409 ''nonce already used''), d'))
      else (ReportDone q (fst (report_route v now q d)), d))"
| "handler_step v (ReportCounted q) d = (report_read q (getBracket (the (q_tid q)) d), d)"
| "handler_step v (ReportRead q b) d = report_write q b d"
| "handler_step v (ReportDone q r) d = (ReportDone q r, d)"
| "handler_step v (Final q) d = (final_start q d, d)"
| "handler_step v (FinalAllowed tid rec) d = (final_read tid rec (getBracket tid d), d)"
| "handler_step v (FinalRead tid rec b) d = final_write tid rec b d"
| "handler_step v (FinalSaved tid) d = (let (jobId, d') = enqueueJob (Finalize tid) d in (FinalDone (Ok jobId), d'))"
| "handler_step v (FinalDone r) d = (FinalDone r, d)"
| "handler_step v (Put q) d = (put_start q d, d)"
| "handler_step v (PutAllowed q) d = (PutDone (Ok ()), saveBracket (the (u_tid q)) (put_bracket q) d)"
| "handler_step v (PutDone r) d = (PutDone r, d)"
| "handler_step v (Init buf now q) d = (init_start buf now q d, d)"
| "handler_step v (InitKnown buf now q) d =
     (if requireOrganizer (n_auth q) (the (n_tid q)) d = None then InitDone (Err 401 ''unauthorized'') else init_checked buf now q, d)"
| "handler_step v (InitAllowed buf now q) d = (InitSaved buf q, saveTournament (init_record buf now (the (n_tid q)) q) d)"
| "handler_step v (InitSaved buf q) d = (InitDone (Ok (generateManageToken buf)), saveBracket (the (n_tid q)) (init_bracket q) d)"
| "handler_step v (InitDone r) d = (InitDone r, d)"
| "handler_step v (SignIn buf now q) d = (sign_in_start v buf now q d, d)"
| "handler_step v (SignInSave rec token) d = (SignInDone (Ok token), saveTournament (rec\<lparr>r_manageToken := Some token\<rparr>) d)"
| "handler_step v (SignInDone r) d = (SignInDone r, d)"
| "handler_step v (Pay p) d = (let (p', d') = proc_step p d in (Pay p', d'))"
| "handler_step v Died d = (Died, d)"

text \<open>\<open>n\<close> statements of one process with nothing in between.\<close>

definition alone :: "(string \<Rightarrow> string \<Rightarrow> string option) \<Rightarrow> nat \<Rightarrow> handler \<times> db \<Rightarrow> handler \<times> db" where
  "alone v n s = ((\<lambda>(h, d). handler_step v h d) ^^ n) s"

lemma alone_simps:
  "alone v 0 s = s" "alone v (Suc n) (h, d) = alone v n (handler_step v h d)"
  by (simp_all add: alone_def funpow_swap1)

lemma alone_done [simp]:
  "alone v n (ReportDone q r, d) = (ReportDone q r, d)" "alone v n (FinalDone r2, d) = (FinalDone r2, d)"
  "alone v n (PutDone r3, d) = (PutDone r3, d)" "alone v n (InitDone r4, d) = (InitDone r4, d)"
  "alone v n (SignInDone r4, d) = (SignInDone r4, d)"
  by (induction n) (simp_all add: alone_simps)

lemma report_alone: "alone v 3 (Report now q, d) = (let r = report_route v now q d in (ReportDone q (fst r), snd r))"
proof (rule report_route_cases [of v now q d])
  fix c msg assume "\<not> report_admissible v now q" "report_route v now q d = (Err c msg, d)"
  then show ?thesis by (simp add: numeral_3_eq_3 alone_simps)
next
  assume "report_admissible v now q" "report_route v now q d = admitted_report q d"
  then show ?thesis
    by (simp add: numeral_3_eq_3 alone_simps report_body_def report_read_def report_write_def Let_def case_prod_unfold
        split: option.split reply.split)
qed

lemma final_alone: "alone v 4 (Final q, d) = (let r = finalize_route q d in (FinalDone (fst r), snd r))"
  by (simp add: eval_nat_numeral alone_simps finalize_route_def final_start_def final_read_def final_write_def Let_def
      case_prod_unfold split: option.split reply.split)

lemma put_alone: "alone v 2 (Put q, d) = (let r = bracket_route q d in (PutDone (fst r), snd r))"
  by (simp add: numeral_2_eq_2 alone_simps bracket_route_def put_start_def Let_def split: option.split)

lemma init_alone: "alone v 4 (Init buf now q, d) = (let r = init_route buf now q d in (InitDone (fst r), snd r))"
  by (simp add: eval_nat_numeral alone_simps init_route_def init_start_def init_checked_def Let_def split: option.split)

lemma sign_in_alone:
  "alone v 2 (SignIn buf now q, d) = (let r = auth_route v buf now q d in (SignInDone (fst r), snd r))"
  by (simp add: numeral_2_eq_2 alone_simps auth_route_def sign_in_start_def issue_token_def Let_def split: option.split)

lemma pay_alone: "alone v n (Pay p, d) = (let r = ((\<lambda>(p, d). proc_step p d) ^^ n) (p, d) in (Pay (fst r), snd r))"
  by (induction n arbitrary: p d)
    (simp_all add: alone_simps funpow_Suc_right case_prod_unfold Let_def del: funpow.simps(2))

text \<open>The routes are what their processes do when nothing runs in between: three statements of a report, four of
  a finalization, two of an update, four of a registration, two of a sign-in, three of a capture and two of
  a webhook give the reply and the database of the handler.\<close>

lemma handlers_refine:
  "alone v 3 (Report now rq, d) = (let r = report_route v now rq d in (ReportDone rq (fst r), snd r)) \<and>
   alone v 4 (Final fq, d) = (let r = finalize_route fq d in (FinalDone (fst r), snd r)) \<and>
   alone v 2 (Put pq, d) = (let r = bracket_route pq d in (PutDone (fst r), snd r)) \<and>
   alone v 4 (Init buf now iq, d) = (let r = init_route buf now iq d in (InitDone (fst r), snd r)) \<and>
   alone v 2 (SignIn buf now aq, d) = (let r = auth_route v buf now aq d in (SignInDone (fst r), snd r)) \<and>
   alone v 3 (Pay (Capturing buf orderId a t), d) = (Pay Ended, snd (capture_fund buf orderId a t d)) \<and>
   alone v 2 (Pay (Hooking ev), d) = (Pay Ended, hook_fund ev d)"
  by (simp only: report_alone final_alone put_alone init_alone sign_in_alone pay_alone capture_steps hook_steps
      Let_def fst_conv snd_conv simp_thms)

section \<open>Interleavings\<close>

fun arriving :: "handler \<Rightarrow> bool" where
  "arriving (Report now q) = True" | "arriving (Final q) = True" | "arriving (Put q) = True"
| "arriving (Init buf now q) = True" | "arriving (SignIn buf now q) = True"
| "arriving (Pay (Capturing buf o1 a t)) = True" | "arriving (Pay (Hooking ev)) = True"
| "arriving h = False"

text \<open>A request arrives, a handler executes its next statement, or the server dies on it.\<close>

inductive server :: "(string \<Rightarrow> string \<Rightarrow> string option) \<Rightarrow> handler list \<times> db \<Rightarrow> handler list \<times> db \<Rightarrow> bool" for v where
  arrive: "arriving h \<Longrightarrow> server v (hs, d) (hs @ [h], d)"
| run_one: "i < length hs \<Longrightarrow> handler_step v (hs ! i) d = (h, d') \<Longrightarrow> server v (hs, d) (hs[i := h], d')"
| die: "i < length hs \<Longrightarrow> server v (hs, d) (hs[i := Died], d)"

inductive_cases serverE: "server v s s'"

text \<open>
  An invariant of the database and a property of each process that the steps of the others do not break: then
  every interleaving keeps both.
\<close>

locale interleaved =
  fixes v :: "string \<Rightarrow> string \<Rightarrow> string option" and db_inv :: "db \<Rightarrow> bool" and local_inv :: "db \<Rightarrow> handler \<Rightarrow> bool"
  assumes arrived: "arriving h \<Longrightarrow> local_inv d h" and died: "local_inv d Died"
    and stepped: "db_inv d \<Longrightarrow> local_inv d h \<Longrightarrow> handler_step v h d = (h', d') \<Longrightarrow> db_inv d' \<and> local_inv d' h'"
    and undisturbed: "db_inv d \<Longrightarrow> local_inv d h \<Longrightarrow> handler_step v h d = (h', d') \<Longrightarrow> local_inv d g \<Longrightarrow> local_inv d' g"
begin

lemma server_inv:
  assumes "server v s s'" "db_inv (snd s) \<and> list_all (local_inv (snd s)) (fst s)"
  shows "db_inv (snd s') \<and> list_all (local_inv (snd s')) (fst s')"
  using assms(1)
proof cases
  case (arrive h hs d)
  with assms(2) arrived show ?thesis by simp
next
  case (run_one i hs d h d')
  have ok: "db_inv d" "local_inv d (hs ! i)" "\<And>g. g \<in> set hs \<Longrightarrow> local_inv d g"
    using assms(2) run_one by (auto simp: list_all_iff)
  from stepped [OF ok(1,2) run_one(4)] undisturbed [OF ok(1,2) run_one(4)] ok(3) show ?thesis
    using set_update_subset_insert [of hs i h] run_one by (auto simp: list_all_iff)
next
  case (die i hs d)
  with assms(2) died set_update_subset_insert [of hs i Died] show ?thesis by (auto simp: list_all_iff)
qed

lemma reach_inv:
  "(server v)\<^sup>*\<^sup>* s s' \<Longrightarrow> db_inv (snd s) \<and> list_all (local_inv (snd s)) (fst s) \<Longrightarrow>
     db_inv (snd s') \<and> list_all (local_inv (snd s')) (fst s')"
  by (induction rule: rtranclp_induct) (assumption, rule server_inv)

end

text \<open>
  Something that is granted to one process only: a process holds the grant from the statement that takes it on, and
  \<open>given\<close> counts the grants that were used up in the database.
\<close>

locale granted =
  fixes v :: "string \<Rightarrow> string \<Rightarrow> string option" and taken :: "db \<Rightarrow> bool" and given :: "db \<Rightarrow> nat" and has :: "handler \<Rightarrow> nat"
  assumes empty_handed: "arriving h \<Longrightarrow> has h = 0" "has Died = 0"
    and takes: "handler_step v h d = (h', d') \<Longrightarrow>
      given d' + has h' \<le> given d + has h + (if taken d' \<and> \<not> taken d then 1 else 0)"
    and stays_taken: "handler_step v h d = (h', d') \<Longrightarrow> taken d \<Longrightarrow> taken d'"
begin

definition grants :: "handler list \<times> db \<Rightarrow> nat" where
  "grants s = given (snd s) + sum_list (map has (fst s))"

lemma grants_update:
  assumes "i < length hs" "given d' + has h \<le> given d + has (hs ! i) + k"
  shows "grants (hs[i := h], d') \<le> grants (hs, d) + k"
  using sum_list_map_update [OF assms(1), of has h] assms(2) unfolding grants_def fst_conv snd_conv by linarith

lemma grants_step: "server v s s' \<Longrightarrow> grants s \<le> (if taken (snd s) then 1 else 0) \<Longrightarrow>
    grants s' \<le> (if taken (snd s') then 1 else 0)"
proof (erule serverE)
  fix i hs d h d'
  assume 1: "s = (hs, d)" "s' = (hs[i := h], d')" "i < length hs" "handler_step v (hs ! i) d = (h, d')"
    and "grants s \<le> (if taken (snd s) then 1 else 0)"
  with grants_update [OF 1(3) takes [OF 1(4)]] stays_taken [OF 1(4)]
  show "grants s' \<le> (if taken (snd s') then 1 else 0)" by (simp split: if_splits)
next
  fix i hs d assume 1: "s = (hs, d)" "s' = (hs[i := Died], d)" "i < length hs" "grants s \<le> (if taken (snd s) then 1 else 0)"
  with grants_update [OF 1(3), of d Died d 0] empty_handed(2)
  show "grants s' \<le> (if taken (snd s') then 1 else 0)" by simp
qed (simp add: grants_def empty_handed)

text \<open>A grant that was taken and is held by no one is lost.\<close>

lemma grant_lost_step: "server v s s' \<Longrightarrow> taken (snd s) \<and> grants s = 0 \<Longrightarrow> taken (snd s') \<and> grants s' = 0"
proof (erule serverE)
  fix i hs d h d'
  assume 1: "s = (hs, d)" "s' = (hs[i := h], d')" "i < length hs" "handler_step v (hs ! i) d = (h, d')"
    and lost: "taken (snd s) \<and> grants s = 0"
  have "given d' + has h \<le> given d + has (hs ! i) + 0" using takes [OF 1(4)] lost 1(1) by simp
  from grants_update [OF 1(3) this] stays_taken [OF 1(4)] lost 1(1,2) show "taken (snd s') \<and> grants s' = 0" by simp
next
  fix i hs d assume 1: "s = (hs, d)" "s' = (hs[i := Died], d)" "i < length hs" "taken (snd s) \<and> grants s = 0"
  with grants_update [OF 1(3), of d Died d 0] empty_handed(2) show "taken (snd s') \<and> grants s' = 0" by simp
qed (simp add: grants_def empty_handed)

lemma grant_lost: "(server v)\<^sup>*\<^sup>* s s' \<Longrightarrow> taken (snd s) \<and> grants s = 0 \<Longrightarrow> grants s' = 0"
proof -
  assume "(server v)\<^sup>*\<^sup>* s s'" "taken (snd s) \<and> grants s = 0"
  then have "taken (snd s') \<and> grants s' = 0" by (induction rule: rtranclp_induct) (assumption, metis grant_lost_step)
  then show ?thesis ..
qed

lemma granted_once: "(server v)\<^sup>*\<^sup>* s s' \<Longrightarrow> grants s \<le> (if taken (snd s) then 1 else 0) \<Longrightarrow> grants s' \<le> 1"
proof -
  assume "(server v)\<^sup>*\<^sup>* s s'" "grants s \<le> (if taken (snd s) then 1 else 0)"
  then have "grants s' \<le> (if taken (snd s') then 1 else 0)"
    by (induction rule: rtranclp_induct) (blast intro: grants_step)+
  then show ?thesis by (auto split: if_splits)
qed

end

section \<open>What survives every interleaving\<close>

text \<open>Nonces and orders are granted once, by the single-use registers of the store.\<close>

fun counts :: "nonce_key \<Rightarrow> handler \<Rightarrow> nat" where
  "counts k (ReportCounted q) = (if report_key q = k then 1 else 0)"
| "counts k (ReportRead q b) = (if report_key q = k then 1 else 0)"
| "counts k (ReportDone q (Ok status)) = (if report_key q = k then 1 else 0)"
| "counts k h = 0"

fun pays :: "string \<Rightarrow> handler \<Rightarrow> nat" where
  "pays o1 (Pay p) = holds o1 p"
| "pays o1 h = 0"

lemma store_nonces [simp]:
  "nonce_used k (saveBracket tid b d) = nonce_used k d" "nonce_used k (saveTournament rec d) = nonce_used k d"
  "nonce_used k (snd (enqueueJob p d)) = nonce_used k d" "nonce_used k (snd (claimFundingIntent o1 a d)) = nonce_used k d"
  "nonce_used k (updateFundingIntent o1 j x d) = nonce_used k d"
  by (simp_all add: nonce_used_def enqueueJob_def claimFundingIntent_def updateFundingIntent_def split: option.split)

lemma proc_step_nonces [simp]: "nonce_used k (snd (proc_step p d)) = nonce_used k d"
  by (cases p) (simp_all add: case_prod_unfold Let_def)

lemma counts_quiet [simp]:
  "counts k (final_start fq d) = 0" "counts k (final_read tid rec b) = 0" "counts k (put_start pq d) = 0"
  "counts k (init_start buf now iq d) = 0" "counts k (init_checked buf now iq) = 0" "counts k (sign_in_start v buf now aq d) = 0"
  "pays o1 (final_start fq d) = 0" "pays o1 (final_read tid rec b) = 0" "pays o1 (put_start pq d) = 0"
  "pays o1 (init_start buf now iq d) = 0" "pays o1 (init_checked buf now iq) = 0" "pays o1 (sign_in_start v buf now aq d) = 0"
  "pays o1 (report_read q bo) = 0"
  by (simp_all add: final_start_def final_read_def put_start_def init_start_def init_checked_def sign_in_start_def report_read_def
      split: option.split)

lemma rejected_counts [simp]:
  "\<not> report_admissible v now q \<Longrightarrow> counts k (ReportDone q (fst (report_route v now q d))) = 0"
  using report_rejected [of v now q d] by auto

lemma useNonce_cases:
  "fst (useNonce w t m n d) \<longleftrightarrow> \<not> nonce_used (w, t, m, n) d"
  "nonce_used k (snd (useNonce w t m n d)) \<longleftrightarrow> k = (w, t, m, n) \<or> nonce_used k d"
  using nonces.try_fresh [of "(w, t, m, n)" d] nonces.try_marks [of k "(w, t, m, n)" d] by simp_all

interpretation report_nonce: granted v "nonce_used k" "\<lambda>d. 0" "counts k" for v k
proof unfold_locales
  show "arriving h \<Longrightarrow> counts k h = 0" for h by (erule arriving.elims) simp_all
  fix h h' d d' assume step: "handler_step v h d = (h', d')"
  show "0 + counts k h' \<le> 0 + counts k h + (if nonce_used k d' \<and> \<not> nonce_used k d then 1 else 0)"
    using step by (cases h) (auto simp: useNonce_cases report_key_def report_read_def report_write_def final_write_def
        case_prod_unfold Let_def split: if_splits option.splits reply.splits)
  show "nonce_used k d \<Longrightarrow> nonce_used k d'"
    using step by (cases h) (auto simp: useNonce_cases report_write_def final_write_def case_prod_unfold Let_def
        split: if_splits reply.splits)
qed simp

lemma store_funds [simp]:
  "fund_jobs o1 (saveBracket tid b d) = fund_jobs o1 d" "fund_jobs o1 (saveTournament rec d) = fund_jobs o1 d"
  "fund_jobs o1 (snd (useNonce w t m n d)) = fund_jobs o1 d" "fund_jobs o1 (snd (enqueueJob (Finalize tid) d)) = fund_jobs o1 d"
  "intent_taken o1 (saveBracket tid b d) = intent_taken o1 d" "intent_taken o1 (saveTournament rec d) = intent_taken o1 d"
  "intent_taken o1 (snd (useNonce w t m n d)) = intent_taken o1 d"
  by (simp_all add: fund_jobs_def intent_taken_def enqueueJob_def order_of_def)

interpretation order_job: granted v "intent_taken o1" "fund_jobs o1" "pays o1" for v o1
proof unfold_locales
  show "arriving h \<Longrightarrow> pays o1 h = 0" for h by (erule arriving.elims) (simp_all add: holds_def)
  fix h h' d d' assume step: "handler_step v h d = (h', d')"
  show "fund_jobs o1 d' + pays o1 h' \<le> fund_jobs o1 d + pays o1 h + (if intent_taken o1 d' \<and> \<not> intent_taken o1 d then 1 else 0)"
  proof (cases h)
    case (Pay p)
    with step proc_step_commits(1) [of p d] show ?thesis by (cases "proc_step p d") auto
  qed (use step in \<open>auto simp: report_write_def final_write_def case_prod_unfold Let_def split: reply.splits if_splits\<close>)
  show "intent_taken o1 d \<Longrightarrow> intent_taken o1 d'"
  proof (cases h)
    case (Pay p)
    with step proc_step_commits(2) [of p d] show "intent_taken o1 d \<Longrightarrow> intent_taken o1 d'" by (cases "proc_step p d") auto
  qed (use step in \<open>auto simp: report_write_def final_write_def case_prod_unfold Let_def split: reply.splits if_splits\<close>)
qed simp

text \<open>C7. However the statements of all writing routes and payments interleave, and wherever handlers die: of the
  reports with one wallet, tournament, match and nonce at most one is accepted, and an order has at most one
  fund job.\<close>

theorem granted_once_interleaved:
  assumes "(server v)\<^sup>*\<^sup>* ([], empty_db) (hs, d)"
  shows "length (filter (\<lambda>h. \<exists>q status. h = ReportDone q (Ok status) \<and> report_key q = k) hs) \<le> 1 \<and> fund_jobs o1 d \<le> 1"
proof
  let ?accepted = "\<lambda>h. \<exists>q status. h = ReportDone q (Ok status) \<and> report_key q = k"
  have "?accepted h \<Longrightarrow> counts k h = 1" for h by auto
  then have "length (filter ?accepted hs) \<le> sum_list (map (counts k) hs)"
    unfolding length_filter_sum by (intro sum_list_mono) auto
  also have "\<dots> \<le> 1"
    using report_nonce.granted_once [OF assms, of k] by (simp add: report_nonce.grants_def)
  finally show "length (filter ?accepted hs) \<le> 1" .
  show "fund_jobs o1 d \<le> 1"
    using order_job.granted_once [OF assms, of o1] by (simp add: order_job.grants_def fund_jobs_def empty_db_def)
qed

section \<open>The invariant of the database between two statements\<close>

text \<open>What a handler still relies on when it executes its next write.\<close>

fun relies :: "db \<Rightarrow> handler \<Rightarrow> bool" where
  "relies d (ReportRead q b) = (getTournament (the (q_tid q)) d \<noteq> None)"
| "relies d (FinalAllowed tid rec) = (getTournament tid d \<noteq> None)"
| "relies d (FinalRead tid rec b) = (getTournament tid d \<noteq> None)"
| "relies d (FinalSaved tid) = (getTournament tid d \<noteq> None)"
| "relies d (PutAllowed q) = (getTournament (the (u_tid q)) d \<noteq> None)"
| "relies d (InitAllowed buf now q) = (init_body_error q = None)"
| "relies d (InitSaved buf q) = (getTournament (the (n_tid q)) d \<noteq> None)"
| "relies d (SignInSave rec token) = (getTournament (r_tournamentId rec) d \<noteq> None)"
| "relies d (Pay (Claimed o1 payload note)) = (order_of payload \<noteq> None)"
| "relies d h = True"

lemma proc_step_frame:
  "getTournament i (snd (proc_step p d)) = getTournament i d" "getBracket i (snd (proc_step p d)) = getBracket i d"
  by (cases p; simp add: case_prod_unfold Let_def)+

lemma tournaments_stay:
  "handler_step v h d = (h', d') \<Longrightarrow> getTournament tid d \<noteq> None \<Longrightarrow> getTournament tid d' \<noteq> None"
  by (cases h) (auto simp: getTournament_save proc_step_frame report_write_def final_write_def case_prod_unfold Let_def
      split: reply.splits if_splits)

lemma start_relies:
  "relies d (report_read q (getBracket (the (q_tid q)) d)) \<longleftrightarrow> getBracket (the (q_tid q)) d = None \<or> getTournament (the (q_tid q)) d \<noteq> None"
  "relies d (final_start fq d)" "relies d (put_start pq d)" "relies d (init_start buf now iq d)" "relies d (init_checked buf now iq)"
  "getTournament tid d \<noteq> None \<Longrightarrow> relies d (final_read tid rec b)"
  by (auto simp: report_read_def final_start_def put_start_def init_start_def init_checked_def final_read_def
      requireOrganizer_Some split: option.split)

lemma sign_in_relies: "db_ok d \<Longrightarrow> relies d (sign_in_start v buf now aq d)"
  by (auto simp: sign_in_start_def db_ok_def record_ok_def split: option.split)

lemma db_ok_proc: "db_ok d \<Longrightarrow> relies d (Pay p) \<Longrightarrow> proc_step p d = (p', d') \<Longrightarrow> db_ok d' \<and> relies d' (Pay p')"
  by (cases p) (auto simp: case_prod_unfold Let_def order_of_def capture_job_def hook_job_def split: if_splits
      intro!: db_ok_frame db_ok_enqueue)

interpretation server_db: interleaved v db_ok relies for v
proof unfold_locales
  show "arriving h \<Longrightarrow> relies d h" for h d by (erule arriving.elims) simp_all
  fix d h h' d' assume ok: "db_ok d" "relies d h" and step: "handler_step v h d = (h', d')"
  show "relies d g \<Longrightarrow> relies d' g" for g
    by (cases "(d, g)" rule: relies.cases) (use tournaments_stay [OF step] in auto)
  show "db_ok d' \<and> relies d' h'"
  proof (cases h)
    case (Pay p)
    with step ok db_ok_proc [of d p] show ?thesis by (cases "proc_step p d") auto
  next
    case (Report now q)
    with step ok(1) show ?thesis by (auto simp: case_prod_unfold Let_def db_ok_frame split: if_splits)
  next
    case (ReportCounted q)
    with step ok(1) show ?thesis by (auto simp: start_relies db_ok_def)
  next
    case (ReportRead q b)
    with step ok show ?thesis by (auto simp: report_write_def split: reply.splits intro!: db_ok_saveBracket)
  next
    case (FinalRead tid rec b)
    with step ok show ?thesis by (auto simp: final_write_def split: reply.splits intro!: db_ok_saveBracket)
  next
    case (FinalSaved tid)
    with step ok show ?thesis by (auto simp: case_prod_unfold Let_def intro!: db_ok_enqueue)
  next
    case (PutAllowed q)
    with step ok show ?thesis by (auto intro!: db_ok_saveBracket)
  next
    case (InitAllowed buf now q)
    with step ok init_record_ok [of q "the (n_tid q)" buf now] show ?thesis
      by (auto simp: getTournament_save init_record_def intro!: db_ok_saveTournament)
  next
    case (InitSaved buf q)
    with step ok show ?thesis by (auto intro!: db_ok_saveBracket)
  next
    case (SignInSave rec token)
    with step ok show ?thesis by (auto intro!: db_ok_saveTournament)
  qed (use step ok in \<open>auto simp: start_relies sign_in_relies split: if_splits\<close>)
qed simp

text \<open>C24. The database is well formed between any two statements: in every interleaving of the writing routes and
  payments, with handlers dying anywhere, every tournament has one row, every bracket belongs to one, the
  payouts of a tournament add up, job ids are unique, and finalize jobs name registered tournaments.\<close>

theorem db_ok_interleaved:
  assumes "(server v)\<^sup>*\<^sup>* ([], d0) (hs, d)" "db_ok d0"
  shows "db_ok d"
  using server_db.reach_inv [OF assms(1)] assms(2) by simp

section \<open>What does not survive\<close>

text \<open>A server that dies between claiming an order and queueing its job leaves an order that is paid and claimed, and
  that no retry and no webhook ever funds.\<close>

lemma crashed_order_lost:
  assumes "\<not> intent_taken o1 d" "fund_jobs o1 d = 0"
  shows "\<exists>d1. (server v)\<^sup>*\<^sup>* ([Pay (Capturing buf o1 a t)], d) ([Died], d1) \<and> intent_taken o1 d1 \<and>
    (\<forall>hs d2. (server v)\<^sup>*\<^sup>* ([Died], d1) (hs, d2) \<longrightarrow> fund_jobs o1 d2 = 0)"
proof -
  obtain p d1 where p: "proc_step (Capturing buf o1 a t) d = (p, d1)" by force
  have taken: "intent_taken o1 d1" using p by (auto simp: Let_def claimFundingIntent_def intent_taken_def split: option.splits)
  have none: "fund_jobs o1 d1 = 0"
    using p assms(2) by (auto simp: Let_def case_prod_unfold fund_jobs_def)
  have "server v ([Pay (Capturing buf o1 a t)], d) ([Pay (Capturing buf o1 a t)][0 := Pay p], d1)"
    by (rule run_one) (simp_all add: p del: proc_step.simps)
  moreover have "server v ([Pay p], d1) ([Pay p][0 := Died], d1)" by (rule die) simp
  ultimately have "(server v)\<^sup>*\<^sup>* ([Pay (Capturing buf o1 a t)], d) ([Died], d1)" by simp
  moreover have "fund_jobs o1 d2 = 0" if "(server v)\<^sup>*\<^sup>* ([Died], d1) (hs, d2)" for hs d2
    using order_job.grant_lost [OF that, of o1] taken none by (simp add: order_job.grants_def)
  ultimately show ?thesis using taken by blast
qed

text \<open>A schedule: which handler executes its next statement.\<close>

fun schedule_server :: "(string \<Rightarrow> string \<Rightarrow> string option) \<Rightarrow> nat list \<Rightarrow> handler list \<times> db \<Rightarrow> handler list \<times> db" where
  "schedule_server v [] s = s"
| "schedule_server v (i # is) (hs, d) =
     (let (h, d') = handler_step v (hs ! i) d in schedule_server v is (hs[i := h], d'))"

lemma schedule_reaches: "list_all (\<lambda>i. i < length hs) is \<Longrightarrow> (server v)\<^sup>*\<^sup>* (hs, d) (schedule_server v is (hs, d))"
proof (induction "is" arbitrary: hs d)
  case (Cons i "is")
  obtain h d' where step: "handler_step v (hs ! i) d = (h, d')" by force
  have "server v (hs, d) (hs[i := h], d')" using Cons.prems step by (intro run_one) simp_all
  moreover have "(server v)\<^sup>*\<^sup>* (hs[i := h], d') (schedule_server v is (hs[i := h], d'))" using Cons by simp
  ultimately show ?case using step by (simp add: converse_rtranclp_into_rtranclp)
qed simp

definition finalize_jobs :: "int \<Rightarrow> db \<Rightarrow> nat" where
  "finalize_jobs tid d = length (filter (\<lambda>j. j_payload j = Finalize tid) (d_jobs d))"

lemma finalize_jobs_simps [simp]:
  "finalize_jobs tid (saveBracket t b d) = finalize_jobs tid d"
  "finalize_jobs tid (snd (enqueueJob p d)) = finalize_jobs tid d + (if p = Finalize tid then 1 else 0)"
  by (simp_all add: finalize_jobs_def enqueueJob_def)

text \<open>C26. Finalizing looks before it writes, in two statements: a second finalization is refused when it comes after
  the first, but when the two run at the same time both are answered with success and two payout jobs
  are queued for the tournament.\<close>

theorem finalize_queued_twice:
  assumes "finalize_route q d = (Ok jobId, d1)" "z_tid q = Some tid"
  shows "fst (finalize_route q d1) = Err 400 ''already finalized'' \<and>
    (\<exists>j1 j2 d'. (server v)\<^sup>*\<^sup>* ([Final q, Final q], d) ([FinalDone (Ok j1), FinalDone (Ok j2)], d') \<and>
       finalize_jobs tid d' = finalize_jobs tid d + 2)"
proof
  from assms obtain rec b ws where 1: "requireOrganizer (z_auth q) tid d = Some rec" "getBracket tid d = Some b"
    "b_finalized b \<noteq> Some True" "derive_winners (length (r_payoutBps rec)) b = Ok ws"
    "d1 = snd (enqueueJob (Finalize tid) (saveBracket tid (b\<lparr>b_computedWinners := Some ws, b_finalized := Some True\<rparr>) d))"
    by (elim finalize_route_Ok) auto
  have size: "\<not> validateBodySize (z_contentLength q)" using assms(1) by (auto simp: finalize_route_def split: if_splits)
  have "requireOrganizer (z_auth q) tid d1 = Some rec" using 1(1) unfolding 1(5) by (simp add: requireOrganizer_Some)
  then show "fst (finalize_route q d1) = Err 400 ''already finalized''"
    using size assms(2) by (simp add: finalize_route_def 1(5))
  have "list_all (\<lambda>i. i < length [Final q, Final q]) [0, 1, 0, 1, 0, 1, 0, 1]" by simp
  from schedule_reaches [OF this, of v d]
  have reach: "(server v)\<^sup>*\<^sup>* ([Final q, Final q], d) (schedule_server v [0, 1, 0, 1, 0, 1, 0, 1] ([Final q, Final q], d))" .
  let ?b = "b\<lparr>b_computedWinners := Some ws, b_finalized := Some True\<rparr>"
  let ?d = "saveBracket tid ?b (saveBracket tid ?b d)"
  obtain j1 d2 where j1: "enqueueJob (Finalize tid) ?d = (j1, d2)" by force
  obtain j2 d3 where j2: "enqueueJob (Finalize tid) d2 = (j2, d3)" by force
  have "schedule_server v [0, 1, 0, 1, 0, 1, 0, 1] ([Final q, Final q], d) = ([FinalDone (Ok j1), FinalDone (Ok j2)], d3)"
    using size 1(1-4) assms(2) by (simp add: final_start_def final_read_def final_write_def j1 j2)
  moreover have "finalize_jobs tid d3 = finalize_jobs tid d + 2"
    using arg_cong [OF j1, of "\<lambda>r. finalize_jobs tid (snd r)"] arg_cong [OF j2, of "\<lambda>r. finalize_jobs tid (snd r)"] by simp
  ultimately show "\<exists>j1 j2 d'. (server v)\<^sup>*\<^sup>* ([Final q, Final q], d) ([FinalDone (Ok j1), FinalDone (Ok j2)], d') \<and>
       finalize_jobs tid d' = finalize_jobs tid d + 2"
    using reach by metis
qed

lemma filed_last:
  "b_reports (snd (file_report i s w out b)) = Some (filter (\<lambda>r. \<not> (rp_matchId r = i \<and> rp_side r = s)) (or_empty (b_reports b)) @
     [\<lparr>rp_matchId = i, rp_side = s, rp_wallet = w, rp_outcome = out\<rparr>])"
  by (auto simp: file_report_def Let_def split: option.split)

lemma judge_side:
  "judge_report i w out b = Ok x \<Longrightarrow> \<exists>side. x = file_report i side w out b \<and>
     (\<forall>b'. b_players b' = b_players b \<longrightarrow> b_finalized b' = b_finalized b \<longrightarrow> reconstruct b' = reconstruct b \<longrightarrow>
        judge_report i w out b' = Ok (file_report i side w out b'))"
  by (auto simp: judge_report_def split: if_splits option.splits sum.splits)

text \<open>Two agreeing reports in sequence: the second confirms.\<close>

lemma reports_meet:
  assumes "file_report i RA w1 out b = (Waiting, b1)"
    and "judge_report i w2 out b = Ok (file_report i RB w2 out b)" "\<forall>r \<in> set (or_empty (b_reports b)). rp_matchId r \<noteq> i"
  shows "\<exists>b'. judge_report i w2 out b1 = Ok (Confirmed, b')"
proof -
  from judge_side [OF assms(2)] obtain side where side: "file_report i RB w2 out b = file_report i side w2 out b"
    "\<And>b'. b_players b' = b_players b \<Longrightarrow> b_finalized b' = b_finalized b \<Longrightarrow> reconstruct b' = reconstruct b \<Longrightarrow>
        judge_report i w2 out b' = Ok (file_report i side w2 out b')" by blast
  have "side = RB" using arg_cong [OF side(1), of "\<lambda>r. b_reports (snd r)"] by (simp add: filed_last)
  then have judge: "judge_report i w2 out b1 = Ok (file_report i RB w2 out b1)"
    using side(2) file_report_results [OF assms(1)] by simp
  have "filter (\<lambda>r. rp_matchId r = i \<longrightarrow> rp_side r \<noteq> RA) (or_empty (b_reports b)) = or_empty (b_reports b)"
    using assms(3) by (auto simp: filter_id_conv)
  then have "or_empty (b_reports b1) = or_empty (b_reports b) @ [\<lparr>rp_matchId = i, rp_side = RA, rp_wallet = w1, rp_outcome = out\<rparr>]"
    using filed_last [of i RA w1 out b] assms(1) by simp
  moreover have "List.find P (xs @ [y]) = Some y" if "\<forall>x \<in> set xs. \<not> P x" "P y" for P :: "match_report \<Rightarrow> bool" and xs y
    using that by (induction xs) auto
  ultimately have "List.find (\<lambda>r. rp_matchId r = i \<and> rp_side r = other_report_side RB) (or_empty (b_reports b1)) =
      Some \<lparr>rp_matchId = i, rp_side = RA, rp_wallet = w1, rp_outcome = out\<rparr>"
    using assms(3) by (simp add: other_report_side_def)
  then show ?thesis using judge file_report_status [of i RB w2 out b1] by (cases "file_report i RB w2 out b1") auto
qed

lemma fresh_nonce:
  assumes "\<not> nonce_used (w, t, m, n) d"
  obtains d' where "useNonce w t m n d = (True, d')" "\<And>k. nonce_used k d' \<longleftrightarrow> k = (w, t, m, n) \<or> nonce_used k d"
    "\<And>i. getBracket i d' = getBracket i d"
  using that [of "snd (useNonce w t m n d)"] useNonce_cases(1) [of w t m n d] useNonce_cases(2) [of _ w t m n d]
    store_frame(9) [of _ w t m n d] assms
  by (cases "useNonce w t m n d") auto

text \<open>The first report of a match waits for the other side.\<close>

lemma first_report:
  assumes "judge_report i w out b = Ok (file_report i s w out b)" "\<forall>r \<in> set (or_empty (b_reports b)). rp_matchId r \<noteq> i"
  obtains b' where "file_report i s w out b = (Waiting, b')" "judge_report i w out b = Ok (Waiting, b')"
    "b_results b' = b_results b" "\<forall>r \<in> set (or_empty (b_reports b')). rp_matchId r = i \<longrightarrow> rp_side r = s"
proof -
  have "List.find (\<lambda>r. rp_matchId r = i \<and> P r) (or_empty (b_reports b)) = None" for P
    using assms(2) by (auto simp: find_None_iff)
  then obtain b' where b': "file_report i s w out b = (Waiting, b')"
    using file_report_status [of i s w out b] by (cases "file_report i s w out b") auto
  have "rp_matchId r = i \<longrightarrow> rp_side r = s" if "r \<in> set (or_empty (b_reports b'))" for r
  proof -
    have "r \<in> set (or_empty (b_reports b)) \<or> r = \<lparr>rp_matchId = i, rp_side = s, rp_wallet = w, rp_outcome = out\<rparr>"
      using file_report_results(5) [OF b'] that by blast
    with assms(2) show ?thesis by (elim disjE) (blast, simp)
  qed
  with that [OF b'] assms(1) b' file_report_results(1) [OF b'] show thesis by simp
qed

text \<open>C31. So does a report: when both players of a match agree and report one after the other, the result is recorded;
  when their reports cross, each handler writes back the bracket it had read with its own report in it,
  both players are told that the other has to confirm, and the report that was written first is gone.\<close>

theorem crossing_reports_lost:
  assumes "report_admissible v n1 q1" "report_admissible v n2 q2"
    and "report_key q1 \<noteq> report_key q2" "\<not> nonce_used (report_key q1) d" "\<not> nonce_used (report_key q2) d"
    and "q_tid q1 = Some tid" "q_tid q2 = Some tid" "q_matchId q1 = Some i" "q_matchId q2 = Some i"
    and "q_outcome q1 = Some out" "q_outcome q2 = Some out"
    and "getBracket tid d = Some b"
    and "judge_report i (the (q_wallet q1)) out b = Ok (file_report i RA (the (q_wallet q1)) out b)"
    and "judge_report i (the (q_wallet q2)) out b = Ok (file_report i RB (the (q_wallet q2)) out b)"
    and "\<forall>r \<in> set (or_empty (b_reports b)). rp_matchId r \<noteq> i"
  shows "fst (report_route v n2 q2 (snd (report_route v n1 q1 d))) = Ok Confirmed \<and>
    (\<exists>d' b'. (server v)\<^sup>*\<^sup>* ([Report n1 q1, Report n2 q2], d) ([ReportDone q1 (Ok Waiting), ReportDone q2 (Ok Waiting)], d') \<and>
       getBracket tid d' = Some b' \<and> b_results b' = b_results b \<and>
       (\<forall>r \<in> set (or_empty (b_reports b')). rp_matchId r = i \<longrightarrow> rp_side r = RB))"
proof
  let ?w1 = "the (q_wallet q1)" and ?w2 = "the (q_wallet q2)"
  note fields = assms(6-11)
  have key: "report_key q1 = (toLowerCase ?w1, tid, i, the (q_nonce q1))" "report_key q2 = (toLowerCase ?w2, tid, i, the (q_nonce q2))"
    using fields by (simp_all add: report_key_def)
  obtain b1 where b1: "file_report i RA ?w1 out b = (Waiting, b1)" "judge_report i ?w1 out b = Ok (Waiting, b1)"
    using assms(13,15) by (rule first_report)
  obtain b2 where b2: "judge_report i ?w2 out b = Ok (Waiting, b2)" "b_results b2 = b_results b"
    "\<forall>r \<in> set (or_empty (b_reports b2)). rp_matchId r = i \<longrightarrow> rp_side r = RB" using assms(14,15) by (rule first_report)
  have "\<not> nonce_used (toLowerCase ?w1, tid, i, the (q_nonce q1)) d" using assms(4) key by simp
  then obtain d1 where d1: "useNonce (toLowerCase ?w1) tid i (the (q_nonce q1)) d = (True, d1)"
    "\<And>k. nonce_used k d1 \<longleftrightarrow> k = (toLowerCase ?w1, tid, i, the (q_nonce q1)) \<or> nonce_used k d"
    "\<And>j. getBracket j d1 = getBracket j d" by (rule fresh_nonce) blast
  have free: "\<not> nonce_used (toLowerCase ?w2, tid, i, the (q_nonce q2)) d1" using d1(2) assms(3,5) key by auto
  then obtain d2 where d2: "useNonce (toLowerCase ?w2) tid i (the (q_nonce q2)) d1 = (True, d2)"
    "\<And>j. getBracket j d2 = getBracket j d1" by (rule fresh_nonce) blast
  have "\<not> nonce_used (toLowerCase ?w2, tid, i, the (q_nonce q2)) (saveBracket tid b1 d1)" using free by simp
  then obtain d3 where d3: "useNonce (toLowerCase ?w2) tid i (the (q_nonce q2)) (saveBracket tid b1 d1) = (True, d3)"
    "\<And>j. getBracket j d3 = getBracket j (saveBracket tid b1 d1)" by (rule fresh_nonce) blast
  have first: "report_route v n1 q1 d = (Ok Waiting, saveBracket tid b1 d1)"
    using fields d1(1,3) assms(12) b1(2) by (simp add: report_admitted [OF assms(1)] report_body_def)
  from d3 fields show "fst (report_route v n2 q2 (snd (report_route v n1 q1 d))) = Ok Confirmed"
    using reports_meet [OF b1(1) assms(14,15)]
    by (auto simp: first report_admitted [OF assms(2)] report_body_def split: prod.splits)
  have "list_all (\<lambda>k. k < length [Report n1 q1, Report n2 q2]) [0, 1, 0, 1, 0, 1]" by simp
  from schedule_reaches [OF this, of v d]
  have "(server v)\<^sup>*\<^sup>* ([Report n1 q1, Report n2 q2], d) (schedule_server v [0, 1, 0, 1, 0, 1] ([Report n1 q1, Report n2 q2], d))" .
  moreover have "schedule_server v [0, 1, 0, 1, 0, 1] ([Report n1 q1, Report n2 q2], d) =
      ([ReportDone q1 (Ok Waiting), ReportDone q2 (Ok Waiting)], saveBracket tid b2 (saveBracket tid b1 d2))"
    using assms(1,2,12) fields d1(1,3) d2 b1(2) b2(1) by (simp add: report_read_def report_write_def)
  ultimately show "\<exists>d' b'. (server v)\<^sup>*\<^sup>* ([Report n1 q1, Report n2 q2], d) ([ReportDone q1 (Ok Waiting), ReportDone q2 (Ok Waiting)], d') \<and>
       getBracket tid d' = Some b' \<and> b_results b' = b_results b \<and>
       (\<forall>r \<in> set (or_empty (b_reports b')). rp_matchId r = i \<longrightarrow> rp_side r = RB)"
    using b2(2,3) by (intro exI [of _ "saveBracket tid b2 (saveBracket tid b1 d2)"] exI [of _ b2]) simp
qed

section \<open>When handlers do not overlap\<close>

text \<open>A handler holds a copy of the bracket from its read to its write; an update or a registration replaces it.\<close>

fun copies :: "int \<Rightarrow> handler \<Rightarrow> bool" where
  "copies tid (ReportRead q b) = (the (q_tid q) = tid)"
| "copies tid (FinalRead t rec b) = (t = tid)"
| "copies tid h = False"

fun replacing :: "int \<Rightarrow> handler \<Rightarrow> bool" where
  "replacing tid (PutAllowed q) = (the (u_tid q) = tid)"
| "replacing tid (InitSaved buf q) = (the (n_tid q) = tid)"
| "replacing tid h = False"

definition exclusive :: "(string \<Rightarrow> string \<Rightarrow> string option) \<Rightarrow> int \<Rightarrow> handler list \<times> db \<Rightarrow> handler list \<times> db \<Rightarrow> bool" where
  "exclusive v tid s s' \<longleftrightarrow> server v s s' \<and> length (filter (copies tid) (fst s')) \<le> 1 \<and> list_all (\<lambda>h. \<not> replacing tid h) (fst s')"

text \<open>What a copy says about the mark of the stored bracket, and the finalization that is still possible.\<close>

fun copy_ok :: "int \<Rightarrow> db \<Rightarrow> handler \<Rightarrow> bool" where
  "copy_ok tid d (ReportRead q b) = (the (q_tid q) = tid \<longrightarrow> (b_finalized b = Some True \<longleftrightarrow> is_finalized tid d))"
| "copy_ok tid d (FinalRead t rec b) = (t = tid \<longrightarrow> \<not> is_finalized tid d)"
| "copy_ok tid d (Pay (Claimed o1 payload note)) = (order_of payload \<noteq> None)"
| "copy_ok tid d h = True"

fun saved :: "int \<Rightarrow> handler \<Rightarrow> nat" where
  "saved tid (FinalSaved t) = (if t = tid then 1 else 0)"
| "saved tid h = 0"

definition chances :: "int \<Rightarrow> db \<Rightarrow> nat" where
  "chances tid d = finalize_jobs tid d + (if is_finalized tid d then 0 else 1)"

lemma is_finalized_saves [simp]:
  "is_finalized tid (saveBracket t b d) \<longleftrightarrow> (if t = tid then b_finalized b = Some True else is_finalized tid d)"
  "is_finalized tid (saveTournament rec d) = is_finalized tid d" "is_finalized tid (snd (useNonce w t m n d)) = is_finalized tid d"
  "is_finalized tid (snd (enqueueJob p d)) = is_finalized tid d" "is_finalized tid (snd (proc_step p1 d)) = is_finalized tid d"
  by (auto simp: is_finalized_def proc_step_frame)

lemma finalize_jobs_saves [simp]:
  "finalize_jobs tid (saveTournament rec d) = finalize_jobs tid d"
  "finalize_jobs tid (snd (useNonce w t m n d)) = finalize_jobs tid d"
  by (simp_all add: finalize_jobs_def)

lemma proc_step_chances:
  "copy_ok tid d (Pay p) \<Longrightarrow> proc_step p d = (p', d') \<Longrightarrow> finalize_jobs tid d' = finalize_jobs tid d \<and> copy_ok tid d' (Pay p')"
  by (cases p) (auto simp: finalize_jobs_def enqueueJob_def order_of_def capture_job_def hook_job_def case_prod_unfold Let_def
      split: if_splits)

lemma report_write_chances:
  assumes "report_write q b d = (h', d')" "copy_ok tid d (ReportRead q b)"
  shows "is_finalized tid d' = is_finalized tid d" "finalize_jobs tid d' = finalize_jobs tid d" "h' = ReportDone q r \<or> \<not> copies tid h'"
    "saved tid h' = 0" "copy_ok tid d' h'"
proof -
  have "is_finalized tid d' = is_finalized tid d \<and> finalize_jobs tid d' = finalize_jobs tid d \<and> (\<exists>r. h' = ReportDone q r)"
  proof (cases "judge_report (the (q_matchId q)) (the (q_wallet q)) (the (q_outcome q)) b")
    case (Ok x)
    obtain status b' where x: "x = (status, b')" by force
    have "b_finalized b \<noteq> Some True" using judge_keeps_finalized Ok x by blast
    moreover have "b_finalized b' = b_finalized b"
      using judge_side [OF Ok] file_report_results(4) [of "the (q_matchId q)"] x by metis
    ultimately show ?thesis using assms Ok x by (auto simp: report_write_def split: if_splits)
  qed (use assms in \<open>auto simp: report_write_def\<close>)
  then show "is_finalized tid d' = is_finalized tid d" "finalize_jobs tid d' = finalize_jobs tid d" "h' = ReportDone q r \<or> \<not> copies tid h'"
    "saved tid h' = 0" "copy_ok tid d' h'" by auto
qed

lemma start_no_copy [simp]:
  "copies tid (final_start fq d) = False" "copies tid (put_start pq d) = False" "copies tid (init_start buf now iq d) = False"
  "copies tid (init_checked buf now iq) = False" "copies tid (sign_in_start v buf now aq d) = False"
  "saved tid (final_start fq d) = 0" "saved tid (put_start pq d) = 0" "saved tid (init_start buf now iq d) = 0"
  "saved tid (init_checked buf now iq) = 0" "saved tid (sign_in_start v buf now aq d) = 0"
  "saved tid (report_read q bo) = 0" "saved tid (final_read t rec bo) = 0"
  "copy_ok tid d (final_start fq d1)" "copy_ok tid d (put_start pq d1)" "copy_ok tid d (init_start buf now iq d1)"
  "copy_ok tid d (init_checked buf now iq)" "copy_ok tid d (sign_in_start v buf now aq d1)"
  by (simp_all add: final_start_def put_start_def init_start_def init_checked_def sign_in_start_def report_read_def final_read_def
      split: option.split)

lemma read_copy_ok:
  "copy_ok tid d (report_read q (getBracket (the (q_tid q)) d))" "copy_ok tid d (final_read t rec (getBracket t d))"
  by (auto simp: report_read_def final_read_def is_finalized_def split: option.split)

lemma exclusive_handler:
  assumes "handler_step v h d = (h', d')" "copy_ok tid d h" "\<not> replacing tid h"
  shows "chances tid d' + saved tid h' \<le> chances tid d + saved tid h \<and> copy_ok tid d' h' \<and>
    (is_finalized tid d' = is_finalized tid d \<or> copies tid h)"
proof (cases h)
  case (Report now q)
  with assms(1) show ?thesis by (auto simp: chances_def case_prod_unfold Let_def split: if_splits)
next
  case (ReportCounted q)
  with assms(1) show ?thesis by (auto simp: read_copy_ok)
next
  case (ReportRead q b)
  with assms(1,2) report_write_chances [of q b d h' d' tid] show ?thesis by (simp add: chances_def)
next
  case (FinalAllowed t rec)
  with assms(1) show ?thesis by (auto simp: read_copy_ok)
next
  case (FinalRead t rec b)
  with assms(1,2) show ?thesis
    by (auto simp: final_write_def chances_def split: reply.splits if_splits)
next
  case (FinalSaved t)
  with assms(1) show ?thesis by (auto simp: chances_def case_prod_unfold Let_def)
next
  case (PutAllowed q)
  with assms(1,3) show ?thesis by (auto simp: chances_def)
next
  case (InitAllowed buf now q)
  with assms(1) show ?thesis by (auto simp: chances_def)
next
  case (InitSaved buf q)
  with assms(1,3) show ?thesis by (auto simp: chances_def)
next
  case (SignInSave rec token)
  with assms(1) show ?thesis by (auto simp: chances_def)
next
  case (Pay p)
  obtain p' d1 where p: "proc_step p d = (p', d1)" by force
  with Pay assms(1) have "h' = Pay p'" "d' = d1" by auto
  moreover have "is_finalized tid d1 = is_finalized tid d" using is_finalized_saves(5) [of tid p d] p by simp
  ultimately show ?thesis using proc_step_chances [of tid d p p' d1] p Pay assms(2) by (simp add: chances_def)
qed (use assms(1) in \<open>auto split: if_splits\<close>)

lemma copy_ok_others:
  "copy_ok tid d g \<Longrightarrow> is_finalized tid d' = is_finalized tid d \<or> \<not> copies tid g \<Longrightarrow> copy_ok tid d' g"
  by (cases "(tid, d, g)" rule: copy_ok.cases) auto

lemma arriving_plain: "arriving h \<Longrightarrow> saved tid h = 0 \<and> copy_ok tid d h"
  by (erule arriving.elims) simp_all

lemma two_in_filter: "i < length xs \<Longrightarrow> j < length xs \<Longrightarrow> i \<noteq> j \<Longrightarrow> P (xs ! i) \<Longrightarrow> P (xs ! j) \<Longrightarrow> 2 \<le> length (filter P xs)"
proof -
  assume *: "i < length xs" "j < length xs" "i \<noteq> j" "P (xs ! i)" "P (xs ! j)"
  then have "card {i, j} \<le> card {k. k < length xs \<and> P (xs ! k)}" by (intro card_mono) auto
  with * show ?thesis by (simp add: length_filter_conv_card)
qed

definition final_inv :: "int \<Rightarrow> nat \<Rightarrow> handler list \<times> db \<Rightarrow> bool" where
  "final_inv tid k s \<longleftrightarrow>
     chances tid (snd s) + sum_list (map (saved tid) (fst s)) \<le> k \<and> list_all (copy_ok tid (snd s)) (fst s) \<and>
     length (filter (copies tid) (fst s)) \<le> 1 \<and> list_all (\<lambda>h. \<not> replacing tid h) (fst s)"

lemma final_inv_step: "exclusive v tid s s' \<Longrightarrow> final_inv tid k s \<Longrightarrow> final_inv tid k s'"
proof -
  assume ex: "exclusive v tid s s'" and inv: "final_inv tid k s"
  from ex have step: "server v s s'" and guard: "length (filter (copies tid) (fst s')) \<le> 1" "list_all (\<lambda>h. \<not> replacing tid h) (fst s')"
    by (simp_all add: exclusive_def)
  from step have "chances tid (snd s') + sum_list (map (saved tid) (fst s')) \<le> k \<and> list_all (copy_ok tid (snd s')) (fst s')"
  proof cases
    case (arrive h hs d)
    with inv arriving_plain [OF arrive(3), of tid d] show ?thesis by (simp add: final_inv_def)
  next
    case (run_one i hs d h d')
    have at: "copy_ok tid d (hs ! i)" "\<not> replacing tid (hs ! i)"
      using inv run_one by (simp_all add: final_inv_def list_all_length)
    note one = exclusive_handler [OF run_one(4) at]
    have "copy_ok tid d' g" if g: "g \<in> set (hs[i := h])" for g
    proof -
      from g obtain j where j: "j < length hs" "g = hs[i := h] ! j" by (auto simp: in_set_conv_nth)
      show ?thesis
      proof (cases "j = i")
        case True
        with j one run_one(3) show ?thesis by simp
      next
        case False
        then have "is_finalized tid d' = is_finalized tid d \<or> \<not> copies tid (hs ! j)"
          using one two_in_filter [of i hs j "copies tid"] run_one(3) j(1) inv by (auto simp: final_inv_def run_one(1))
        with False j inv show ?thesis
          by (auto intro: copy_ok_others simp: final_inv_def run_one(1) list_all_length)
      qed
    qed
    moreover have "chances tid d' + sum_list (map (saved tid) (hs[i := h])) \<le> chances tid d + sum_list (map (saved tid) hs)"
      using sum_list_map_update [OF run_one(3), of "saved tid" h] one by linarith
    ultimately show ?thesis using inv by (simp add: final_inv_def run_one(1,2) list_all_iff)
  next
    case (die i hs d)
    have "sum_list (map (saved tid) (hs[i := Died])) \<le> sum_list (map (saved tid) hs)"
      using sum_list_map_update [OF die(3), of "saved tid" Died] by simp
    with inv die set_update_subset_insert [of hs i Died] show ?thesis by (auto simp: final_inv_def list_all_iff)
  qed
  with guard show ?thesis by (simp add: final_inv_def)
qed

text \<open>C23. A cup is finalized once when its handlers do not overlap: in every interleaving, with handlers dying anywhere,
  in which at most one handler at a time is between its read and its write of the bracket of the tournament and none
  replaces the bracket, at most one payout job is queued for it, and none when it was finalized before.\<close>

theorem finalized_once_exclusive:
  assumes "(exclusive v tid)\<^sup>*\<^sup>* ([], d0) (hs, d)"
  shows "finalize_jobs tid d \<le> finalize_jobs tid d0 + (if is_finalized tid d0 then 0 else 1)"
proof -
  from assms have "final_inv tid (chances tid d0) (hs, d)"
  proof (induction rule: rtranclp_induct)
    case base
    show ?case by (simp add: final_inv_def)
  qed (rule final_inv_step)
  then show ?thesis by (simp add: final_inv_def chances_def)
qed

text \<open>C28. A report can undo a finalization: a player of the last match confirms the result twice, with two nonces. The
  second request is refused when it comes after the organizer has finalized, but when it has read the bracket
  before, and writes after, both reports and the finalization are answered with success, the payout job is
  queued, and the stored bracket is not finalized any more and has lost the derived winners.\<close>

theorem late_report_erases_winners:
  assumes "report_admissible v n1 q1" "report_admissible v n2 q2"
    and "report_key q1 \<noteq> report_key q2" "\<not> nonce_used (report_key q1) d" "\<not> nonce_used (report_key q2) d"
    and "q_tid q1 = Some tid" "q_tid q2 = Some tid" "getBracket tid d = Some b"
    and "judge_report (the (q_matchId q1)) (the (q_wallet q1)) (the (q_outcome q1)) b = Ok (Confirmed, b1)"
    and "judge_report (the (q_matchId q2)) (the (q_wallet q2)) (the (q_outcome q2)) b = Ok (Confirmed, b2)"
    and "z_tid fq = Some tid" "finalize_route fq (snd (report_route v n2 q2 d)) = (Ok jobId, d1)"
  shows "fst (report_route v n1 q1 d1) = Err 400 ''tournament finalized'' \<and>
    (\<exists>jobId' d'. (server v)\<^sup>*\<^sup>* ([Report n1 q1, Report n2 q2, Final fq], d)
         ([ReportDone q1 (Ok Confirmed), ReportDone q2 (Ok Confirmed), FinalDone (Ok jobId')], d') \<and>
       finalize_jobs tid d' = finalize_jobs tid d + 1 \<and> \<not> is_finalized tid d' \<and>
       map_option b_computedWinners (getBracket tid d') = Some (b_computedWinners b))"
proof
  let ?k1 = "useNonce (toLowerCase (the (q_wallet q1))) tid (the (q_matchId q1)) (the (q_nonce q1))"
  let ?k2 = "useNonce (toLowerCase (the (q_wallet q2))) tid (the (q_matchId q2)) (the (q_nonce q2))"
  have key: "report_key q1 = (toLowerCase (the (q_wallet q1)), tid, the (q_matchId q1), the (q_nonce q1))"
    "report_key q2 = (toLowerCase (the (q_wallet q2)), tid, the (q_matchId q2), the (q_nonce q2))"
    using assms(6,7) by (simp_all add: report_key_def)
  have fresh: "fst (?k1 e)" if "\<not> nonce_used (report_key q1) e" for e using that key by (simp add: useNonce_cases)
  have fresh2: "fst (?k2 e)" if "\<not> nonce_used (report_key q2) e" for e using that key by (simp add: useNonce_cases)
  let ?d2 = "saveBracket tid b2 (snd (?k2 d))"
  have second: "report_route v n2 q2 d = (Ok Confirmed, ?d2)"
    using fresh2 [OF assms(5)] assms(7,8,10)
    by (simp add: report_admitted [OF assms(2)] report_body_def case_prod_unfold Let_def)
  obtain rec ws where fin: "requireOrganizer (z_auth fq) tid ?d2 = Some rec" "b_finalized b2 \<noteq> Some True"
    "derive_winners (length (r_payoutBps rec)) b2 = Ok ws"
    "d1 = snd (enqueueJob (Finalize tid) (saveBracket tid (b2\<lparr>b_computedWinners := Some ws, b_finalized := Some True\<rparr>) ?d2))"
    using assms(11,12) unfolding second by (elim finalize_route_Ok) auto
  have size: "\<not> validateBodySize (z_contentLength fq)" using assms(12) by (auto simp: finalize_route_def split: if_splits)
  have "\<not> nonce_used (report_key q1) d1" unfolding fin(4) using assms(3,4) key by (simp add: useNonce_cases)
  then have "fst (?k1 d1)" by (rule fresh)
  then show "fst (report_route v n1 q1 d1) = Err 400 ''tournament finalized''"
    using assms(6) by (simp add: report_admitted [OF assms(1)] report_body_def case_prod_unfold Let_def fin(4) judge_report_def)
  have "list_all (\<lambda>i. i < length [Report n1 q1, Report n2 q2, Final fq]) [0, 0, 1, 1, 1, 2, 2, 2, 2, 0]" by simp
  from schedule_reaches [OF this, of v d]
  have reach: "(server v)\<^sup>*\<^sup>* ([Report n1 q1, Report n2 q2, Final fq], d)
    (schedule_server v [0, 0, 1, 1, 1, 2, 2, 2, 2, 0] ([Report n1 q1, Report n2 q2, Final fq], d))" .
  let ?e2 = "saveBracket tid b2 (snd (?k2 (snd (?k1 d))))"
  let ?e3 = "saveBracket tid (b2\<lparr>b_computedWinners := Some ws, b_finalized := Some True\<rparr>) ?e2"
  obtain jobId' e4 where e4: "enqueueJob (Finalize tid) ?e3 = (jobId', e4)" by force
  have open2: "fst (?k2 (snd (?k1 d)))" using assms(3,5) key by (intro fresh2) (auto simp: useNonce_cases)
  have auth: "requireOrganizer (z_auth fq) tid ?e2 = Some rec" using fin(1) by (simp add: requireOrganizer_Some)
  have run: "schedule_server v [0, 0, 1, 1, 1, 2, 2, 2, 2, 0] ([Report n1 q1, Report n2 q2, Final fq], d) =
      ([ReportDone q1 (Ok Confirmed), ReportDone q2 (Ok Confirmed), FinalDone (Ok jobId')], saveBracket tid b1 e4)"
    using assms(1,2,6-11) fresh [OF assms(4)] open2 auth fin(2,3) size e4
    by (simp add: report_read_def report_write_def final_start_def final_read_def final_write_def case_prod_unfold Let_def)
  have kept: "b_finalized b1 = b_finalized b" "b_computedWinners b1 = b_computedWinners b" "b_finalized b \<noteq> Some True"
  proof -
    show "b_finalized b \<noteq> Some True" using assms(9) by (rule judge_keeps_finalized)
    from judge_side [OF assms(9)] obtain side where
      "file_report (the (q_matchId q1)) side (the (q_wallet q1)) (the (q_outcome q1)) b = (Confirmed, b1)" by metis
    then show "b_finalized b1 = b_finalized b" "b_computedWinners b1 = b_computedWinners b"
      by (auto simp: file_report_def Let_def split: option.splits if_splits)
  qed
  have "finalize_jobs tid (saveBracket tid b1 e4) = finalize_jobs tid d + 1"
    using arg_cong [OF e4, of "\<lambda>r. finalize_jobs tid (snd r)"] by simp
  moreover have "\<not> is_finalized tid (saveBracket tid b1 e4)"
    "map_option b_computedWinners (getBracket tid (saveBracket tid b1 e4)) = Some (b_computedWinners b)"
    using kept by simp_all
  ultimately show "\<exists>jobId' d'. (server v)\<^sup>*\<^sup>* ([Report n1 q1, Report n2 q2, Final fq], d)
         ([ReportDone q1 (Ok Confirmed), ReportDone q2 (Ok Confirmed), FinalDone (Ok jobId')], d') \<and>
       finalize_jobs tid d' = finalize_jobs tid d + 1 \<and> \<not> is_finalized tid d' \<and>
       map_option b_computedWinners (getBracket tid d') = Some (b_computedWinners b)"
    using reach unfolding run by blast
qed

section \<open>Closed instances\<close>

definition duo_verify :: "string \<Rightarrow> string \<Rightarrow> string option" where
  "duo_verify msg sig = Some sig"

text \<open>Two captures and a webhook of one order next to a registration.\<close>

definition busy_start :: "handler list" where
  "busy_start = [Pay (Capturing [] ''order1'' None demo_config), Init duo_buf 0 duo_init, Pay (Hooking demo_hook),
     Pay (Capturing [] ''order1'' None demo_config)]"

lemma busy_arrives: "(server duo_verify)\<^sup>*\<^sup>* ([], empty_db) (busy_start, empty_db)"
proof -
  have "(server v)\<^sup>*\<^sup>* (gs, d) (gs @ hs, d)" if "list_all arriving hs" for v gs hs d
    using that
  proof (induction hs arbitrary: gs)
    case (Cons h hs)
    then have "server v (gs, d) (gs @ [h], d)" by (intro arrive) simp
    moreover have "(server v)\<^sup>*\<^sup>* (gs @ [h], d) ((gs @ [h]) @ hs, d)" by (rule Cons.IH) (use Cons.prems in simp)
    ultimately show ?case by (simp add: converse_rtranclp_into_rtranclp)
  qed simp
  from this [of busy_start duo_verify "[]" empty_db] show ?thesis by (simp add: busy_start_def)
qed

definition busy_end :: "handler list \<times> db" where
  "busy_end = schedule_server duo_verify [3, 1, 0, 1, 2, 3, 1, 0, 3] (busy_start, empty_db)"

lemma busy_reached: "(server duo_verify)\<^sup>*\<^sup>* ([], empty_db) (fst busy_end, snd busy_end)"
proof -
  have "list_all (\<lambda>i. i < length busy_start) [3, 1, 0, 1, 2, 3, 1, 0, 3]" by (simp add: busy_start_def)
  from rtranclp_trans [OF busy_arrives schedule_reaches [OF this]] show ?thesis unfolding busy_end_def by simp
qed

lemma busy_facts: "fund_jobs ''order1'' (snd busy_end) = 1" "getTournament 7 (snd busy_end) \<noteq> None"
proof -
  have "n_tid duo_init = Some 7" by (simp add: duo_init_def)
  moreover have "init_start duo_buf 0 duo_init d = InitAllowed duo_buf 0 duo_init" if "d_tournaments d = []" for d
    using that by (simp add: init_start_def init_checked_def duo_init_def validateBodySize_def MAX_BODY_def init_body_error_def
        getTournament_def duo_def)
  note facts = calculation this
  have tables: "d_tournaments (snd (claimFundingIntent o1 a empty_db)) = []" for o1 a
    by (simp add: claimFundingIntent_def empty_db_def)
  have free: "\<not> intent_taken ''order1'' empty_db" by (simp add: intent_taken_def empty_db_def)
  have "r_tournamentId (init_record duo_buf 0 7 duo_init) = 7" by (simp add: init_record_def)
  then show "fund_jobs ''order1'' (snd busy_end) = 1" "getTournament 7 (snd busy_end) \<noteq> None"
    using tables free
    by (auto simp: busy_end_def busy_start_def facts demo_hook_facts positive_def Let_def case_prod_unfold
        fund_jobs_enqueue getTournament_save) (simp_all add: empty_db_def fund_jobs_def)
qed

theorem granted_once_interleaved_witness:
  "length (filter (\<lambda>h. \<exists>q status. h = ReportDone q (Ok status) \<and> report_key q = (''0xa0'', 7, 1, ''n'')) (fst busy_end)) \<le> 1 \<and>
   fund_jobs ''order1'' (snd busy_end) \<le> 1 \<and> fund_jobs ''order1'' (snd busy_end) = 1"
  using granted_once_interleaved [OF busy_reached] busy_facts(1) by simp

theorem db_ok_interleaved_witness: "db_ok (snd busy_end) \<and> getTournament 7 (snd busy_end) \<noteq> None"
  using db_ok_interleaved [OF busy_reached db_ok_empty] busy_facts(2) by simp

theorem finalize_queued_twice_witness:
  "\<exists>j1 j2 d'. (server duo_verify)\<^sup>*\<^sup>* ([Final duo_finalize, Final duo_finalize], duo_db1)
     ([FinalDone (Ok j1), FinalDone (Ok j2)], d') \<and> finalize_jobs 7 d' = finalize_jobs 7 duo_db1 + 2"
  using finalize_queued_twice [OF duo_finalized, of 7 duo_verify] by (simp add: duo_finalize_def)

definition duo_report :: "string \<Rightarrow> report_request" where
  "duo_report w = \<lparr>q_contentLength = None, q_tid = Some 7, q_wallet = Some w, q_matchId = Some 1, q_outcome = Some ''A'',
     q_nonce = Some ''n'', q_ts = Some 100, q_sig = Some w\<rparr>"

theorem crossing_reports_lost_witness:
  "fst (report_route duo_verify 100 (duo_report ''0xa1'') (snd (report_route duo_verify 100 (duo_report ''0xa0'') duo_db0))) = Ok Confirmed \<and>
   (\<exists>d' b'. (server duo_verify)\<^sup>*\<^sup>* ([Report 100 (duo_report ''0xa0''), Report 100 (duo_report ''0xa1'')], duo_db0)
       ([ReportDone (duo_report ''0xa0'') (Ok Waiting), ReportDone (duo_report ''0xa1'') (Ok Waiting)], d') \<and>
     getBracket 7 d' = Some b' \<and> b_results b' = [])"
proof -
  have adm: "report_admissible duo_verify 100 (duo_report w)" if "w \<noteq> ''''" for w
    using that by (simp add: report_admissible_def duo_report_def duo_verify_def validateBodySize_def MAX_BODY_def no_string_def no_number_def)
  have "nonce_used k duo_db0 = nonce_used k empty_db" for k by (simp add: duo_db0_eq)
  then have fresh: "\<not> nonce_used k duo_db0" for k by (simp add: nonce_used_def empty_db_def)
  have judge: "judge_report 1 ''0xa0'' ''A'' (init_bracket duo_init) = Ok (file_report 1 RA ''0xa0'' ''A'' (init_bracket duo_init))"
    "judge_report 1 ''0xa1'' ''A'' (init_bracket duo_init) = Ok (file_report 1 RB ''0xa1'' ''A'' (init_bracket duo_init))"
    by code_simp+
  have "report_key (duo_report ''0xa0'') \<noteq> report_key (duo_report ''0xa1'')" by code_simp
  note lost = crossing_reports_lost [OF adm adm this fresh fresh, of 7 1 "''A''" "init_bracket duo_init"]
  have "\<forall>r \<in> set (or_empty (b_reports (init_bracket duo_init))). rp_matchId r \<noteq> 1" by (simp add: init_bracket_def)
  moreover have "b_results (init_bracket duo_init) = []" by (simp add: init_bracket_def)
  ultimately show ?thesis using lost judge duo_stored(2) by (auto simp: duo_report_def)
qed

text \<open>Two finalizations one after the other: the second is refused.\<close>

fun finalizing :: "handler \<Rightarrow> bool" where
  "finalizing (Final q) = True" | "finalizing (FinalAllowed tid rec) = True" | "finalizing (FinalRead tid rec b) = True"
| "finalizing (FinalSaved tid) = True" | "finalizing (FinalDone r) = True" | "finalizing h = False"

lemma finalizing_stays: "finalizing h \<Longrightarrow> finalizing (fst (handler_step v h d))"
  by (cases h) (auto simp: final_start_def final_read_def final_write_def case_prod_unfold Let_def split: option.split reply.split)

lemma exclusive_alone:
  assumes "\<forall>g \<in> set gs. \<not> copies tid g \<and> \<not> replacing tid g" "finalizing h" "alone v n (h, d) = (h', d')"
  shows "(exclusive v tid)\<^sup>*\<^sup>* (gs @ [h], d) (gs @ [h'], d')"
  using assms(2,3)
proof (induction n arbitrary: h d)
  case (Suc n)
  obtain h1 d1 where one: "handler_step v h d = (h1, d1)" by force
  have "server v (gs @ [h], d) ((gs @ [h])[length gs := h1], d1)" by (rule run_one) (simp_all add: one)
  moreover have "finalizing h1" using finalizing_stays [OF Suc.prems(1), of v d] one by simp
  then have "\<not> replacing tid h1" by (cases h1) simp_all
  moreover have "filter (copies tid) gs = []" using assms(1) by (simp add: filter_empty_conv)
  ultimately have "exclusive v tid (gs @ [h], d) (gs @ [h1], d1)"
    using assms(1) by (simp add: exclusive_def list_all_iff)
  moreover have "(exclusive v tid)\<^sup>*\<^sup>* (gs @ [h1], d1) (gs @ [h'], d')"
    using Suc.IH [OF \<open>finalizing h1\<close>] Suc.prems(2) one by (simp add: alone_simps)
  ultimately show ?case by (rule converse_rtranclp_into_rtranclp)
qed (simp add: alone_simps)

lemma exclusive_final:
  assumes "\<forall>g \<in> set gs. \<not> copies tid g \<and> \<not> replacing tid g"
  shows "(exclusive v tid)\<^sup>*\<^sup>* (gs, d) (gs @ [FinalDone (fst (finalize_route q d))], snd (finalize_route q d))"
proof -
  have "filter (copies tid) gs = []" using assms by (simp add: filter_empty_conv)
  then have "exclusive v tid (gs, d) (gs @ [Final q], d)"
    using assms by (auto simp: exclusive_def list_all_iff intro: arrive)
  moreover have "(exclusive v tid)\<^sup>*\<^sup>* (gs @ [Final q], d) (gs @ [FinalDone (fst (finalize_route q d))], snd (finalize_route q d))"
    by (rule exclusive_alone [OF assms, where n = 4]) (simp_all add: final_alone Let_def)
  ultimately show ?thesis by (rule converse_rtranclp_into_rtranclp)
qed

theorem finalized_once_exclusive_witness:
  "\<exists>d. (exclusive duo_verify 7)\<^sup>*\<^sup>* ([], duo_db1) ([FinalDone (Ok 1), FinalDone (fst (finalize_route duo_finalize duo_db2))], d) \<and>
    finalize_jobs 7 d \<le> finalize_jobs 7 duo_db1 + 1"
proof -
  have "(exclusive duo_verify 7)\<^sup>*\<^sup>* ([], duo_db1) ([FinalDone (Ok 1)], duo_db2)"
    using exclusive_final [of "[]" 7 duo_verify duo_db1 duo_finalize] by (simp add: duo_finalized)
  moreover have "(exclusive duo_verify 7)\<^sup>*\<^sup>* ([FinalDone (Ok 1)], duo_db2)
      ([FinalDone (Ok 1)] @ [FinalDone (fst (finalize_route duo_finalize duo_db2))], snd (finalize_route duo_finalize duo_db2))"
    by (rule exclusive_final) simp
  ultimately have run: "(exclusive duo_verify 7)\<^sup>*\<^sup>* ([], duo_db1)
      ([FinalDone (Ok 1), FinalDone (fst (finalize_route duo_finalize duo_db2))], snd (finalize_route duo_finalize duo_db2))"
    by simp
  have "\<not> is_finalized 7 duo_db1" using duo_db1(2) by (simp add: is_finalized_def put_bracket_def duo_put_def)
  with finalized_once_exclusive [OF run] run show ?thesis by auto
qed

text \<open>The first player has reported; the second one reports twice.\<close>

definition late_bracket :: bracket_state where
  "late_bracket = (init_bracket duo_init)\<lparr>b_reports :=
     Some [\<lparr>rp_matchId = 1, rp_side = RA, rp_wallet = ''0xa0'', rp_outcome = ''A''\<rparr>]\<rparr>"

definition late_done :: bracket_state where
  "late_done = snd (file_report 1 RB ''0xa1'' ''A'' late_bracket)"

definition late_db :: db where
  "late_db = saveBracket 7 late_bracket duo_db0"

theorem late_report_erases_winners_witness:
  "\<exists>jobId d'. (server duo_verify)\<^sup>*\<^sup>* ([Report 100 (duo_report ''0xa1''), Report 100 ((duo_report ''0xa1'')\<lparr>q_nonce := Some ''m''\<rparr>),
         Final duo_finalize], late_db)
       ([ReportDone (duo_report ''0xa1'') (Ok Confirmed), ReportDone ((duo_report ''0xa1'')\<lparr>q_nonce := Some ''m''\<rparr>) (Ok Confirmed),
         FinalDone (Ok jobId)], d') \<and>
     finalize_jobs 7 d' = finalize_jobs 7 late_db + 1 \<and> \<not> is_finalized 7 d'"
proof -
  let ?q1 = "duo_report ''0xa1''" and ?q2 = "(duo_report ''0xa1'')\<lparr>q_nonce := Some ''m''\<rparr>"
  have adm: "report_admissible duo_verify 100 ?q1" "report_admissible duo_verify 100 ?q2"
    by (simp_all add: report_admissible_def duo_report_def duo_verify_def validateBodySize_def MAX_BODY_def no_string_def no_number_def)
  have keys: "report_key ?q1 \<noteq> report_key ?q2" by code_simp
  have "nonce_used k late_db = nonce_used k empty_db" for k by (simp add: late_db_def duo_db0_eq)
  then have fresh: "\<not> nonce_used k late_db" for k by (simp add: nonce_used_def empty_db_def)
  have fields: "q_tid ?q1 = Some 7" "q_tid ?q2 = Some 7" "getBracket 7 late_db = Some late_bracket"
    by (simp_all add: duo_report_def late_db_def)
  have "judge_report 1 ''0xa1'' ''A'' late_bracket = Ok (Confirmed, late_done)" unfolding late_done_def by code_simp
  then have judge: "judge_report (the (q_matchId ?q1)) (the (q_wallet ?q1)) (the (q_outcome ?q1)) late_bracket = Ok (Confirmed, late_done)"
    "judge_report (the (q_matchId ?q2)) (the (q_wallet ?q2)) (the (q_outcome ?q2)) late_bracket = Ok (Confirmed, late_done)"
    by (simp_all add: duo_report_def)
  let ?d2 = "snd (report_route duo_verify 100 ?q2 late_db)"
  have "?d2 = saveBracket 7 late_done (snd (useNonce (toLowerCase ''0xa1'') 7 1 ''m'' late_db))"
    using fresh judge(2) fields(2,3)
    by (simp add: report_admitted [OF adm(2)] report_body_def case_prod_unfold Let_def useNonce_cases) (simp add: duo_report_def)
  then have stored: "getTournament 7 ?d2 = Some duo_rec" "getBracket 7 ?d2 = Some late_done"
    using duo_stored(1) by (simp_all add: late_db_def duo_rec_def)
  have "derive_winners 1 late_done = Ok [''0xa0'']" "b_finalized late_done \<noteq> Some True" by code_simp+
  then have "\<exists>j. fst (finalize_route duo_finalize ?d2) = Ok j"
    using duo_authorized [OF stored(1)] stored(2)
    by (simp add: finalize_route_def case_prod_unfold Let_def)
      (simp add: duo_finalize_def validateBodySize_def MAX_BODY_def split: prod.split)
  then obtain j where "finalize_route duo_finalize ?d2 = (Ok j, snd (finalize_route duo_finalize ?d2))" by (metis prod.collapse)
  moreover have "z_tid duo_finalize = Some 7" by (simp add: duo_finalize_def)
  ultimately show ?thesis
    using late_report_erases_winners [OF adm keys fresh fresh fields judge] by blast
qed

end
