(* ===== verification/Rows.thy ===== *)
theory Rows
  imports Store
begin

text \<open>
  The rows behind the tournaments of \<open>lib/store.ts\<close>: the columns that \<open>saveTournament\<close> writes, the
  \<open>ON CONFLICT\<close> clause of its statement on columns, \<open>rowToRecord\<close>, and the connection pool. The other
  theories work on records; here it is shown that the statements on rows implement that view.
\<close>

section \<open>Rows\<close>

text \<open>
  A JSON column arrives parsed or as text. The schema declares the two lists as JSONB: the text that is
  written is stored as the value it denotes.
\<close>

datatype 'a json_column = JArray "'a list" | JText string

record tournament_row =
  tr_tournament_id :: int
  tr_sponsor :: string
  tr_prize_pool_wei :: string
  tr_token :: string
  tr_payout_bps :: "int json_column"
  tr_winner_wallets :: "string json_column"
  tr_state :: tournament_state
  tr_mode :: "cup_mode option"
  tr_manage_token :: "string option"
  tr_organizer_wallet :: "string option"
  tr_paypal_order_id :: "string option"
  tr_tx_hash :: "string option"
  tr_created_at :: rat

text \<open>The parameters of the statement; \<open>created_at\<close> is a time in seconds.\<close>

definition insert_row :: "tournament_record \<Rightarrow> tournament_row" where
  "insert_row rec =
     \<lparr>tr_tournament_id = r_tournamentId rec, tr_sponsor = r_sponsor rec, tr_prize_pool_wei = r_prizePoolWei rec,
      tr_token = r_token rec, tr_payout_bps = JArray (r_payoutBps rec), tr_winner_wallets = JArray (r_winnerWallets rec),
      tr_state = r_state rec, tr_mode = r_mode rec, tr_manage_token = r_manageToken rec,
      tr_organizer_wallet = r_organizerWallet rec, tr_paypal_order_id = r_paypalOrderId rec,
      tr_tx_hash = r_txHash rec, tr_created_at = of_int (r_createdAt rec) / 1000\<rparr>"

definition conflict_row :: "tournament_row \<Rightarrow> tournament_row \<Rightarrow> tournament_row" where
  "conflict_row excluded row = row\<lparr>
     tr_winner_wallets := tr_winner_wallets excluded, tr_state := tr_state excluded, tr_mode := tr_mode excluded,
     tr_manage_token := coalesce (tr_manage_token excluded) (tr_manage_token row),
     tr_organizer_wallet := coalesce (tr_organizer_wallet excluded) (tr_organizer_wallet row),
     tr_tx_hash := tr_tx_hash excluded\<rparr>"

type_synonym tournament_table = "(int \<times> tournament_row) list"

definition save_row :: "tournament_record \<Rightarrow> tournament_table \<Rightarrow> tournament_table" where
  "save_row rec table =
     (let new = insert_row rec; i = tr_tournament_id new
      in AList.update i (case map_of table i of None \<Rightarrow> new | Some old \<Rightarrow> conflict_row new old) table)"

text \<open>\<open>JSON.parse\<close> of a column that arrives as text is an argument.\<close>

record json_parsers =
  parse_ints :: "string \<Rightarrow> int list"
  parse_strings :: "string \<Rightarrow> string list"

definition json_list :: "(string \<Rightarrow> 'a list) \<Rightarrow> 'a json_column \<Rightarrow> 'a list" where
  "json_list parse c = (case c of JArray xs \<Rightarrow> xs | JText s \<Rightarrow> parse s)"

definition rowToRecord :: "json_parsers \<Rightarrow> tournament_row \<Rightarrow> tournament_record" where
  "rowToRecord p r =
     \<lparr>r_tournamentId = tr_tournament_id r, r_sponsor = tr_sponsor r, r_prizePoolWei = tr_prize_pool_wei r,
      r_token = tr_token r, r_payoutBps = json_list (parse_ints p) (tr_payout_bps r),
      r_winnerWallets = json_list (parse_strings p) (tr_winner_wallets r), r_state = tr_state r,
      r_mode = tr_mode r, r_manageToken = tr_manage_token r, r_organizerWallet = tr_organizer_wallet r,
      r_paypalOrderId = tr_paypal_order_id r, r_txHash = tr_tx_hash r,
      r_createdAt = \<lfloor>1000 * tr_created_at r\<rfloor>\<rparr>"

definition select_row :: "json_parsers \<Rightarrow> int \<Rightarrow> tournament_table \<Rightarrow> tournament_record option" where
  "select_row p i table = map_option (rowToRecord p) (map_of table i)"

definition select_rows :: "json_parsers \<Rightarrow> nat \<Rightarrow> tournament_table \<Rightarrow> tournament_record list" where
  "select_rows p limit table = map (rowToRecord p) (take limit (map snd (sort_key (\<lambda>(i, r). - i) table)))"

section \<open>The pool\<close>

record pg_pool =
  pp_connectionString :: string
  pp_max :: nat

text \<open>\<open>pool\<close>: the environment is asked on every call, the pool is made by the first one.\<close>

definition store_pool :: "string option \<Rightarrow> pg_pool option \<Rightarrow> (string, pg_pool) result \<times> pg_pool option" where
  "store_pool url cached =
     (if url = None \<or> url = Some '''' then (Inl ''DATABASE_URL not set - Postgres is required.'', cached)
      else (let p = (case cached of None \<Rightarrow> \<lparr>pp_connectionString = the url, pp_max = 3\<rparr> | Some p \<Rightarrow> p) in (Inr p, Some p)))"

definition getStore :: "'store \<Rightarrow> 'store option \<Rightarrow> 'store \<times> 'store option" where
  "getStore new cached = (let s = (case cached of None \<Rightarrow> new | Some s \<Rightarrow> s) in (s, Some s))"

text \<open>However often it is asked, one pool is made.\<close>

lemma store_pool_once:
  "store_pool url cached = (Inr p, c) \<Longrightarrow> url' \<noteq> None \<Longrightarrow> url' \<noteq> Some '''' \<Longrightarrow> store_pool url' c = (Inr p, c)"
  by (auto simp: store_pool_def Let_def split: if_splits option.splits)

section \<open>The records implement the rows\<close>

lemma rowToRecord_insert: "rowToRecord p (insert_row rec) = rec"
  by (simp add: rowToRecord_def insert_row_def json_list_def)

lemma rowToRecord_conflict: "rowToRecord p (conflict_row a b) = upsert_tournament (rowToRecord p a) (rowToRecord p b)"
  by (simp add: rowToRecord_def conflict_row_def upsert_tournament_def json_list_def)

definition abs_rows :: "json_parsers \<Rightarrow> tournament_table \<Rightarrow> (int \<times> tournament_record) list" where
  "abs_rows p table = map (map_prod id (rowToRecord p)) table"

lemma map_of_abs_rows: "map_of (abs_rows p table) i = map_option (rowToRecord p) (map_of table i)"
  by (induction table) (auto simp: abs_rows_def)

lemma update_abs_rows: "abs_rows p (AList.update i r table) = AList.update i (rowToRecord p r) (abs_rows p table)"
  by (induction table) (auto simp: abs_rows_def)

lemma sort_abs_rows: "sort_key (\<lambda>(i, r). - i) (abs_rows p table) = abs_rows p (sort_key (\<lambda>(i, r). - i) table)"
proof -
  have ins: "insort_key (\<lambda>(i, r). - i) (map_prod id f x) (map (map_prod id f) xs) = map (map_prod id f) (insort_key (\<lambda>(i, r). - i) x xs)"
    for f :: "tournament_row \<Rightarrow> tournament_record" and x :: "int \<times> tournament_row" and xs
    by (induction xs) (auto simp: case_prod_unfold)
  show ?thesis by (induction table) (simp_all add: abs_rows_def ins)
qed

text \<open>C11. The statements of the store on rows implement the store of records: reading after the insert or update of a
  tournament is the update of its record, whether the row existed or not, and the selects read exactly the
  records, newest id first.\<close>

theorem rows_refine:
  "abs_rows p (save_row rec table) = d_tournaments (saveTournament rec (d\<lparr>d_tournaments := abs_rows p table\<rparr>)) \<and>
   select_row p i table = getTournament i (d\<lparr>d_tournaments := abs_rows p table\<rparr>) \<and>
   select_rows p limit table = listTournaments limit (d\<lparr>d_tournaments := abs_rows p table\<rparr>)"
proof (intro conjI)
  have id: "tr_tournament_id (insert_row rec) = r_tournamentId rec" by (simp add: insert_row_def)
  show "abs_rows p (save_row rec table) = d_tournaments (saveTournament rec (d\<lparr>d_tournaments := abs_rows p table\<rparr>))"
    by (auto simp: save_row_def saveTournament_def getTournament_def map_of_abs_rows update_abs_rows id rowToRecord_insert
        rowToRecord_conflict Let_def split: option.split)
  show "select_row p i table = getTournament i (d\<lparr>d_tournaments := abs_rows p table\<rparr>)"
    by (simp add: select_row_def getTournament_def map_of_abs_rows)
  show "select_rows p limit table = listTournaments limit (d\<lparr>d_tournaments := abs_rows p table\<rparr>)"
    by (simp add: select_rows_def listTournaments_def sort_abs_rows) (simp add: abs_rows_def take_map comp_def)
qed

end
