(* ===== verification/Proxy.thy ===== *)
theory Proxy
  imports Api
begin

text \<open>
  The rate limiter in front of the routes, \<open>web/src/proxy.ts\<close>. The limiter service is an
  argument: \<open>limit tier ip\<close> answers whether the request may pass and how many are left.
\<close>

section \<open>The functions of the source\<close>

datatype tier = Strict | ReportTier | Default

definition tier_limit :: "tier \<Rightarrow> nat" where
  "tier_limit t = (case t of Strict \<Rightarrow> 5 | ReportTier \<Rightarrow> 30 | Default \<Rightarrow> 60)"

text \<open>\<open>init\<close>: the limiters exist only when both variables are set.\<close>

definition limiter_configured :: "string option \<Rightarrow> string option \<Rightarrow> bool" where
  "limiter_configured url token \<longleftrightarrow> \<not> no_string url \<and> \<not> no_string token"

fun str_includes :: "string \<Rightarrow> string \<Rightarrow> bool" where
  "str_includes [] p \<longleftrightarrow> p = []"
| "str_includes (c # s) p \<longleftrightarrow> startsWith (c # s) p \<or> str_includes s p"

definition clientIp :: "string option \<Rightarrow> string" where
  "clientIp forwarded =
     (case forwarded of None \<Rightarrow> ''unknown'' | Some h \<Rightarrow> trim (takeWhile (\<lambda>c. c \<noteq> CHR '','') h))"

definition tier_of :: "string \<Rightarrow> tier" where
  "tier_of path =
     (if str_includes path ''/paypal/'' \<or> endsWith path ''/finalize'' \<or> endsWith path ''/init'' then Strict
      else if endsWith path ''/report'' then ReportTier
      else Default)"

datatype proxy_reply = Pass | PassWith nat | TooMany

definition proxy ::
  "bool \<Rightarrow> (tier \<Rightarrow> string \<Rightarrow> bool \<times> nat) \<Rightarrow> string \<Rightarrow> string option \<Rightarrow> proxy_reply" where
  "proxy configured limit path forwarded =
     (if \<not> startsWith path ''/api/'' then Pass
      else if \<not> configured then Pass
      else (let (success, remaining) = limit (tier_of path) (clientIp forwarded)
            in if \<not> success then TooMany else PassWith remaining))"

section \<open>Which routes are strict\<close>

lemma str_includes_iff: "str_includes s p \<longleftrightarrow> (\<exists>u v. s = u @ p @ v)"
proof (induction s)
  case (Cons c s)
  have "startsWith (c # s) p \<longleftrightarrow> (\<exists>v. c # s = p @ v)"
    by (metis append_eq_conv_conj append_take_drop_id startsWith_def)
  moreover have "(\<exists>u v. c # s = u @ p @ v) \<longleftrightarrow> (\<exists>v. c # s = p @ v) \<or> (\<exists>u v. s = u @ p @ v)"
    by (metis (no_types, opaque_lifting) append_Cons append_Nil list.exhaust list.inject)
  ultimately show ?case using Cons by simp
qed simp

lemma endsWith_iff: "endsWith s p \<longleftrightarrow> (\<exists>u. s = u @ p)"
  unfolding endsWith_def by (metis append_eq_conv_conj append_take_drop_id le_add2 length_append diff_add_inverse2)

lemma strict_iff:
  "tier_of path = Strict \<longleftrightarrow>
     (\<exists>u v. path = u @ ''/paypal/'' @ v) \<or> (\<exists>u. path = u @ ''/finalize'') \<or> (\<exists>u. path = u @ ''/init'')"
  by (auto simp: tier_of_def str_includes_iff endsWith_iff)

text \<open>The routes that move money or change the owner are in the strict tier, whatever the tournament id:
  a request to one of them passes only when the strict limiter of the caller's address lets it. The
  address is the first entry of a header the caller may write.\<close>

theorem money_routes_strict:
  assumes "path \<in> {''/api/paypal/create-order'', ''/api/paypal/capture'',
      ''/api/tournament/'' @ i @ ''/finalize'', ''/api/tournament/'' @ i @ ''/init''}"
  shows "proxy True limit path forwarded =
    (if fst (limit Strict (clientIp forwarded)) then PassWith (snd (limit Strict (clientIp forwarded))) else TooMany) \<and>
    tier_limit (tier_of path) = 5"
proof -
  have "''/api/paypal/create-order'' = ''/api'' @ ''/paypal/'' @ ''create-order''"
    "''/api/paypal/capture'' = ''/api'' @ ''/paypal/'' @ ''capture''"
    "''/api/tournament/'' @ i @ ''/finalize'' = (''/api/tournament/'' @ i) @ ''/finalize''"
    "''/api/tournament/'' @ i @ ''/init'' = (''/api/tournament/'' @ i) @ ''/init''" by simp_all
  then have "tier_of path = Strict" using assms unfolding strict_iff by blast
  moreover have "startsWith path ''/api/''" using assms by (auto simp: startsWith_def)
  ultimately show ?thesis by (simp add: proxy_def case_prod_unfold tier_limit_def)
qed

theorem money_routes_strict_witness: "tier_limit (tier_of (''/api/tournament/'' @ ''7'' @ ''/init'')) = 5"
  using money_routes_strict [of "''/api/tournament/'' @ ''7'' @ ''/init''" "''7''" "\<lambda>t ip. (True, 4)" None] by simp

end
