(* ===== verification/Json.thy ===== *)
theory Json
  imports Auth
begin

text \<open>
  The text of the request bodies, \<open>JSON.stringify\<close> as the pages call it, and its length in bytes: the
  \<open>Content-Length\<close> a browser sends with it, which \<open>validateBodySize\<close> of \<open>web/src/lib/store.ts\<close> reads.
\<close>

section \<open>Values and their text\<close>

text \<open>A number carries its decimal text. A field that is \<open>undefined\<close> is left out of its object.\<close>

datatype json =
  JNull | JBool bool | JNum string | JStr string | JList "json list" | JObject "(string \<times> json) list"

definition JInt :: "int \<Rightarrow> json" where
  "JInt i = JNum (show_int i)"

text \<open>Inside quotes: the quote, the backslash and the control characters are escaped.\<close>

definition json_char :: "char \<Rightarrow> string" where
  "json_char c =
     (if c = CHR 0x22 \<or> c = CHR 0x5C then [CHR 0x5C, c]
      else if c = CHR 0x08 then [CHR 0x5C, CHR ''b'']
      else if c = CHR 0x0C then [CHR 0x5C, CHR ''f'']
      else if c = CHR 0x0A then [CHR 0x5C, CHR ''n'']
      else if c = CHR 0x0D then [CHR 0x5C, CHR ''r'']
      else if c = CHR 0x09 then [CHR 0x5C, CHR ''t'']
      else if (of_char c :: nat) < 32
      then CHR 0x5C # ''u00'' @ [hex_digit (of_char c div 16), hex_digit (of_char c mod 16)]
      else [c])"

definition quoted :: "string \<Rightarrow> string" where
  "quoted s = [CHR 0x22] @ concat (map json_char s) @ [CHR 0x22]"

fun commas :: "string list \<Rightarrow> string" where
  "commas [] = ''''"
| "commas [s] = s"
| "commas (s # t # ss) = s @ '','' @ commas (t # ss)"

lemma field_size [termination_simp]: "f \<in> set fs \<Longrightarrow> size (snd f) < Suc (size_list (size_prod (\<lambda>_. 0) size) fs)"
proof (induction fs)
  case (Cons g fs)
  then show ?case by (cases g) auto
qed simp

fun stringify :: "json \<Rightarrow> string" where
  "stringify JNull = ''null''"
| "stringify (JBool b) = (if b then ''true'' else ''false'')"
| "stringify (JNum n) = n"
| "stringify (JStr s) = quoted s"
| "stringify (JList js) = ''['' @ commas (map stringify js) @ '']''"
| "stringify (JObject fs) = ''{'' @ commas (map (\<lambda>f. quoted (fst f) @ '':'' @ stringify (snd f)) fs) @ ''}''"

section \<open>Length in bytes\<close>

text \<open>\<open>TextEncoder\<close>: a character is a code point below 256, one or two bytes.\<close>

definition utf8_char :: "char \<Rightarrow> 8 word list" where
  "utf8_char c =
     (let n = of_char c :: nat
      in if n < 128 then [of_nat n] else [of_nat (192 + n div 64), of_nat (128 + n mod 64)])"

definition bytes :: "string \<Rightarrow> nat" where
  "bytes s = length (concat (map utf8_char s))"

definition body_length :: "json \<Rightarrow> int" where
  "body_length j = int (bytes (stringify j))"

lemma bytes_simps [simp]:
  "bytes [] = 0"
  "bytes (c # s) = (if (of_char c :: nat) < 128 then 1 else 2) + bytes s"
  "bytes (s @ t) = bytes s + bytes t"
  by (simp_all add: bytes_def utf8_char_def Let_def)

lemma bytes_commas: "bytes (commas ss) = sum_list (map bytes ss) + (length ss - 1)"
  by (induction ss rule: commas.induct) simp_all

lemma bytes_commas_add:
  "bytes (commas (ss @ [s])) = bytes (commas ss) + bytes s + (if ss = [] then 0 else 1)"
  by (cases ss) (simp_all add: bytes_commas)

definition field_bytes :: "string \<times> json \<Rightarrow> nat" where
  "field_bytes f = bytes (quoted (fst f)) + 1 + bytes (stringify (snd f))"

lemma bytes_object: "bytes (stringify (JObject fs)) = sum_list (map field_bytes fs) + (length fs - 1) + 2"
proof -
  have "bytes (quoted (fst f) @ '':'' @ stringify (snd f)) = field_bytes f" for f by (simp add: field_bytes_def)
  then show ?thesis by (simp add: bytes_commas comp_def del: bytes_simps(3))
     (simp add: bytes_commas comp_def)
qed

lemma bytes_list: "bytes (stringify (JList js)) = sum_list (map (\<lambda>j. bytes (stringify j)) js) + (length js - 1) + 2"
  by (simp add: bytes_commas comp_def)

lemma bytes_list_add:
  "bytes (stringify (JList (js @ [j]))) = bytes (stringify (JList js)) + bytes (stringify j) + (if js = [] then 0 else 1)"
  by (simp only: bytes_list) (cases js; simp)

section \<open>Numbers\<close>

lemma digit_bytes: "d < 10 \<Longrightarrow> bytes [char_of (48 + d :: nat)] = 1"
  by simp

lemma show_nat_bytes: "bytes (show_nat n) = length (show_nat n)"
proof (induction n rule: show_nat.induct)
  case (1 n)
  have "bytes [char_of (48 + n mod 10)] = 1" "n < 10 \<Longrightarrow> bytes [char_of (48 + n)] = 1" by simp_all
  with 1 show ?case by (subst (1 2) show_nat.simps) simp
qed

lemma show_nat_length: "n < 10 ^ Suc k \<Longrightarrow> length (show_nat n) \<le> Suc k"
proof (induction k arbitrary: n)
  case 0
  then show ?case by (subst show_nat.simps) simp
next
  case (Suc k)
  have "n div 10 < 10 ^ Suc k" using Suc.prems by (simp add: less_mult_imp_div_less mult.commute)
  from Suc.IH [OF this] show ?case by (subst show_nat.simps) simp
qed

lemma show_nat_some: "1 \<le> length (show_nat n)"
  by (subst show_nat.simps) simp

lemma JInt_bytes:
  "1 \<le> bytes (stringify (JInt i))"
  "0 \<le> i \<Longrightarrow> i < 10000 \<Longrightarrow> bytes (stringify (JInt i)) \<le> 4"
proof -
  show "1 \<le> bytes (stringify (JInt i))"
    using show_nat_some by (simp add: JInt_def show_int_def show_nat_bytes)
  show "bytes (stringify (JInt i)) \<le> 4" if "0 \<le> i" "i < 10000"
  proof -
    have "nat i < 10 ^ Suc 3" using that by simp
    from show_nat_length [OF this] show ?thesis using that(1) by (simp add: JInt_def show_int_def show_nat_bytes)
  qed
qed

section \<open>The bracket of a request\<close>

definition format_name :: "bracket_format \<Rightarrow> string" where
  "format_name f =
     (case f of F_single_elimination \<Rightarrow> ''single_elimination'' | F_round_robin \<Rightarrow> ''round_robin'' | F_swiss \<Rightarrow> ''swiss'')"

definition field_if :: "string \<Rightarrow> ('a \<Rightarrow> json) \<Rightarrow> 'a option \<Rightarrow> (string \<times> json) list" where
  "field_if key f v = (case v of None \<Rightarrow> [] | Some x \<Rightarrow> [(key, f x)])"

definition player_json :: "player \<Rightarrow> json" where
  "player_json p =
     JObject [(''id'', JInt (p_id p)), (''name'', JStr (p_name p)), (''wallet'', JStr (p_wallet p)),
       (''seed'', JInt (p_seed p))]"

definition result_json :: "match_result \<Rightarrow> json" where
  "result_json r = JObject [(''matchId'', JInt (mr_matchId r)), (''outcome'', JStr (mr_outcome r))]"

definition report_json :: "match_report \<Rightarrow> json" where
  "report_json r =
     JObject [(''matchId'', JInt (rp_matchId r)), (''side'', JStr (case rp_side r of RA \<Rightarrow> ''A'' | RB \<Rightarrow> ''B'')),
       (''wallet'', JStr (rp_wallet r)), (''outcome'', JStr (rp_outcome r))]"

definition players_json :: "player list \<Rightarrow> json" where
  "players_json ps = JList (map player_json ps)"

definition bracket_json :: "bracket_state \<Rightarrow> json" where
  "bracket_json b =
     JObject ([(''format'', JStr (format_name (b_format b)))] @ field_if ''swissRounds'' JInt (b_swissRounds b) @
       [(''players'', players_json (b_players b)), (''results'', JList (map result_json (b_results b)))] @
       field_if ''finalized'' JBool (b_finalized b) @
       field_if ''computedWinners'' (\<lambda>ws. JList (map JStr ws)) (b_computedWinners b) @
       field_if ''reports'' (\<lambda>rs. JList (map report_json rs)) (b_reports b) @
       field_if ''disputes'' (\<lambda>ds. JList (map JInt ds)) (b_disputes b))"

lemmas json_text = body_length_def bracket_json_def players_json_def player_json_def result_json_def report_json_def
  format_name_def field_if_def quoted_def json_char_def JInt_def show_int_def show_nat.simps

lemma bytes_quoted: "2 \<le> bytes (quoted s)"
  by (simp add: quoted_def)

lemma bytes_outcome: "s = ''A'' \<or> s = ''B'' \<Longrightarrow> bytes (quoted s) = 3"
  by (auto simp: quoted_def json_char_def)

text \<open>The bytes of a recorded result.\<close>

lemma result_bytes:
  "bytes (stringify (result_json r)) = 23 + bytes (stringify (JInt (mr_matchId r))) + bytes (quoted (mr_outcome r))"
proof -
  have "bytes (quoted ''matchId'') = 9" "bytes (quoted ''outcome'') = 9" by (simp_all add: quoted_def json_char_def)
  then show ?thesis by (simp add: result_json_def bytes_object field_bytes_def del: stringify.simps(6))
qed

lemma result_bytes_least: "26 \<le> bytes (stringify (result_json r))"
  using bytes_quoted [of "mr_outcome r"] JInt_bytes(1) [of "mr_matchId r"] by (simp add: result_bytes)

lemma result_bytes_most:
  assumes "0 \<le> mr_matchId r" "mr_matchId r < 10000" "mr_outcome r = ''A'' \<or> mr_outcome r = ''B''"
  shows "bytes (stringify (result_json r)) \<le> 30"
  using bytes_outcome [OF assms(3)] JInt_bytes(2) [OF assms(1,2)] by (simp add: result_bytes)

text \<open>The text of a list of results.\<close>

lemma results_bytes_least: "27 * length rs + 1 \<le> bytes (stringify (JList (map result_json rs)))"
proof -
  have "26 * length rs \<le> sum_list (map (\<lambda>r. bytes (stringify (result_json r))) rs)"
  proof (induction rs)
    case (Cons r rs)
    with result_bytes_least [of r] show ?case by simp
  qed simp
  then show ?thesis by (simp only: bytes_list map_map comp_def length_map)
qed

text \<open>The body of a bracket: its results and its players are parts of it, and a further result makes it longer by the
  text of the result and a comma.\<close>

definition frame_bytes :: "bracket_state \<Rightarrow> nat" where
  "frame_bytes b = bytes (stringify (bracket_json (b\<lparr>b_players := [], b_results := []\<rparr>)))"

lemma bracket_bytes:
  "bytes (stringify (bracket_json b)) + 4 = frame_bytes b + bytes (stringify (players_json (b_players b))) +
     bytes (stringify (JList (map result_json (b_results b))))"
  unfolding bracket_json_def frame_bytes_def
  by (simp add: bytes_object field_bytes_def players_json_def del: stringify.simps(5,6))
     (simp add: bytes_list)

lemma frame_bytes_least: "57 \<le> frame_bytes b" if "b_format b = F_single_elimination"
proof -
  have "bytes (stringify (JStr (format_name (b_format b)))) = 20" unfolding that by code_simp
  moreover have "bytes (quoted ''format'') = 8" "bytes (quoted ''players'') = 9" "bytes (quoted ''results'') = 9"
    by (simp_all add: quoted_def json_char_def)
  ultimately show ?thesis
    by (simp add: frame_bytes_def bracket_json_def bytes_object field_bytes_def players_json_def del: stringify.simps(4,5,6))
       (simp add: bytes_list del: stringify.simps)
qed

lemma bracket_bytes_add:
  "bytes (stringify (bracket_json (b\<lparr>b_results := b_results b @ [r]\<rparr>))) =
     bytes (stringify (bracket_json b)) + bytes (stringify (result_json r)) + (if b_results b = [] then 0 else 1)"
proof -
  have "frame_bytes (b\<lparr>b_results := b_results b @ [r]\<rparr>) = frame_bytes b" by (simp add: frame_bytes_def bracket_json_def)
  moreover have "bytes (stringify (JList (map result_json (b_results b @ [r])))) =
      bytes (stringify (JList (map result_json (b_results b)))) + bytes (stringify (result_json r)) + (if b_results b = [] then 0 else 1)"
    by (simp only: list.map map_append bytes_list_add map_is_Nil_conv)
  ultimately show ?thesis
    using bracket_bytes [of b] bracket_bytes [of "b\<lparr>b_results := b_results b @ [r]\<rparr>"]
    by (simp del: stringify.simps map_append)
qed

end
