(* ===== verification/Client.thy ===== *)
theory Client
  imports Proxy Json
begin

text \<open>
  The client of the matchmaking server, \<open>web/src/lib/amp.ts\<close>, and the wallet connection of
  \<open>web/src/lib/ampCup.ts\<close>. The browser's storage is state; the server and the wallet are arguments.
\<close>

section \<open>The session in the browser\<close>

record browser =
  br_hostname :: "string option"
  br_local :: "string \<Rightarrow> string option"
  br_session :: "string \<Rightarrow> string option"

record session =
  ss_token :: string
  ss_wallet :: string
  ss_expiresAt :: string

definition TOKEN_KEY :: string where "TOKEN_KEY = ''amp_session_token''"
definition WALLET_KEY :: string where "WALLET_KEY = ''amp_session_wallet''"

definition SERVER_URL :: "string option \<Rightarrow> string" where
  "SERVER_URL env = or_string env ''http://localhost:8080''"

text \<open>No host name means that there is no \<open>window\<close>.\<close>

definition matchmakerMisconfigured :: "string \<Rightarrow> browser \<Rightarrow> bool" where
  "matchmakerMisconfigured url br =
     (case br_hostname br of
        None \<Rightarrow> False
      | Some site \<Rightarrow>
          (let localSite = site = ''localhost'' \<or> site = ''127.0.0.1'' \<or> endsWith site ''.local'';
               localServer = str_includes url ''://localhost'' \<or> str_includes url ''://127.0.0.1''
           in \<not> localSite \<and> localServer))"

definition storedSession :: "browser \<Rightarrow> session option" where
  "storedSession br =
     (if br_hostname br = None then None
      else if no_string (br_local br TOKEN_KEY) \<or> no_string (br_local br WALLET_KEY) then None
      else Some \<lparr>ss_token = the (br_local br TOKEN_KEY), ss_wallet = the (br_local br WALLET_KEY), ss_expiresAt = ''''\<rparr>)"

definition clearSession :: "browser \<Rightarrow> browser" where
  "clearSession br = br\<lparr>br_local := (br_local br)(TOKEN_KEY := None, WALLET_KEY := None)\<rparr>"

section \<open>Requests\<close>

record 'b http_request =
  hq_url :: string
  hq_method :: string
  hq_authorization :: "string option"
  hq_body :: "'b option"

text \<open>A reply of the server; \<open>hr_error\<close> and \<open>hr_message\<close> are fields of its JSON body.\<close>

record 'a http_reply =
  hr_status :: nat
  hr_statusText :: string
  hr_error :: "string option"
  hr_message :: "string option"
  hr_json :: 'a

record api_error =
  ae_code :: string
  ae_message :: string
  ae_status :: nat

definition api ::
  "string \<Rightarrow> browser \<Rightarrow> ('b http_request \<Rightarrow> 'a http_reply option) \<Rightarrow>
     string \<Rightarrow> string option \<Rightarrow> 'b option \<Rightarrow> bool \<Rightarrow> (api_error, 'a) result" where
  "api url br server path method body auth =
     (let authorization = (if auth then map_option (\<lambda>s. ''Bearer '' @ ss_token s) (storedSession br) else None)
      in case server \<lparr>hq_url = url @ path, hq_method = or_string method ''GET'', hq_authorization = authorization,
              hq_body = body\<rparr> of
           None \<Rightarrow> Inl \<lparr>ae_code = ''network'',
               ae_message = ''Matchmaking is temporarily unavailable. Please try again shortly.'', ae_status = 0\<rparr>
         | Some res \<Rightarrow>
             if 200 \<le> hr_status res \<and> hr_status res < 300 then Inr (hr_json res)
             else Inl \<lparr>ae_code = or_string (hr_error res) ''unknown'',
                ae_message = or_string (hr_message res) (hr_statusText res), ae_status = hr_status res\<rparr>)"

text \<open>\<open>TextEncoder\<close>, then two hex digits per byte.\<close>

definition toUtf8Hex :: "string \<Rightarrow> string" where
  "toUtf8Hex s = ''0x'' @ concat (map (\<lambda>b. padStart 2 (CHR ''0'') (toString16 b)) (concat (map utf8_char s)))"

text \<open>
  The wallet: the accounts (the first one and the rest), a signature for a message and an account, or
  the message of the exception it throws.
\<close>

record injected_wallet =
  iw_accounts :: "(string, string \<times> string list) result"
  iw_sign :: "string \<Rightarrow> string \<Rightarrow> (string, string) result"

record login_body =
  lb_wallet :: string
  lb_signature :: "string option"
  lb_challenge :: "string option"

record verified_login =
  vl_token :: string
  vl_expiresAt :: string

definition loginWithWallet ::
  "string \<Rightarrow> injected_wallet option \<Rightarrow> (login_body http_request \<Rightarrow> string http_reply option) \<Rightarrow>
     (login_body http_request \<Rightarrow> verified_login http_reply option) \<Rightarrow> browser \<Rightarrow>
     (string, session) result \<times> browser" where
  "loginWithWallet url wallet challenge_srv verify_srv br =
     (case wallet of
        None \<Rightarrow> (Inl ''No wallet found - install MetaMask or use a wallet browser'', br)
      | Some w \<Rightarrow>
          if br_hostname br = None then (Inl ''No wallet found - install MetaMask or use a wallet browser'', br)
          else (case iw_accounts w of
             Inl e \<Rightarrow> (Inl e, br)
           | Inr (account, _) \<Rightarrow>
               (case api url br challenge_srv ''/v1/auth/challenge'' (Some ''POST'')
                       (Some \<lparr>lb_wallet = account, lb_signature = None, lb_challenge = None\<rparr>) False of
                  Inl e \<Rightarrow> (Inl (ae_message e), br)
                | Inr challenge \<Rightarrow>
                    (case iw_sign w (toUtf8Hex challenge) account of
                       Inl e \<Rightarrow> (Inl e, br)
                     | Inr signature \<Rightarrow>
                         (case api url br verify_srv ''/v1/auth/verify'' (Some ''POST'')
                                 (Some \<lparr>lb_wallet = account, lb_signature = Some signature, lb_challenge = Some challenge\<rparr>) False of
                            Inl e \<Rightarrow> (Inl (ae_message e), br)
                          | Inr v \<Rightarrow>
                              (Inr \<lparr>ss_token = vl_token v, ss_wallet = account, ss_expiresAt = vl_expiresAt v\<rparr>,
                               br\<lparr>br_local := (br_local br)(TOKEN_KEY := Some (vl_token v),
                                    WALLET_KEY := Some (toLowerCase account))\<rparr>))))))"

datatype game_result = Win | Loss | DrawResult

definition result_text :: "game_result \<Rightarrow> string" where
  "result_text r = (case r of Win \<Rightarrow> ''win'' | Loss \<Rightarrow> ''loss'' | DrawResult \<Rightarrow> ''draw'')"

record outcome_body =
  oc_result :: string
  oc_transcriptHash :: "string option"
  oc_signature :: "string option"

definition outcome_message :: "string \<Rightarrow> game_result \<Rightarrow> string" where
  "outcome_message matchId r = ''AMP_REPORT:v1:'' @ matchId @ '':'' @ result_text r"

text \<open>A declined signature sends the report unsigned.\<close>

definition outcome_signature ::
  "injected_wallet option \<Rightarrow> browser \<Rightarrow> string \<Rightarrow> game_result \<Rightarrow> string option" where
  "outcome_signature wallet br matchId r =
     (case (wallet, storedSession br) of
        (Some w, Some s) \<Rightarrow>
          (case iw_sign w (toUtf8Hex (outcome_message matchId r)) (ss_wallet s) of Inl _ \<Rightarrow> None | Inr sig \<Rightarrow> Some sig)
      | _ \<Rightarrow> None)"

definition reportOutcome ::
  "string \<Rightarrow> injected_wallet option \<Rightarrow> (outcome_body http_request \<Rightarrow> 'a http_reply option) \<Rightarrow> browser \<Rightarrow>
     string \<Rightarrow> game_result \<Rightarrow> string option \<Rightarrow> (api_error, 'a) result" where
  "reportOutcome url wallet server br matchId r transcriptHash =
     api url br server (''/v1/matches/'' @ matchId @ ''/report'') (Some ''POST'')
       (Some \<lparr>oc_result = result_text r,
          oc_transcriptHash = (if no_string transcriptHash then None else transcriptHash),
          oc_signature = outcome_signature wallet br matchId r\<rparr>) True"

text \<open>The other requests: the public list of games, and those that carry the session.\<close>

definition fetchGames :: "string \<Rightarrow> browser \<Rightarrow> ('b http_request \<Rightarrow> 'a http_reply option) \<Rightarrow> (api_error, 'a) result" where
  "fetchGames url br server = api url br server ''/v1/games'' None None False"

definition fetchMe :: "string \<Rightarrow> browser \<Rightarrow> ('b http_request \<Rightarrow> 'a http_reply option) \<Rightarrow> (api_error, 'a) result" where
  "fetchMe url br server = api url br server ''/v1/me'' None None True"

definition joinQueue ::
  "string \<Rightarrow> browser \<Rightarrow> ((string \<times> string) http_request \<Rightarrow> 'a http_reply option) \<Rightarrow> string \<Rightarrow> string \<Rightarrow> (api_error, 'a) result" where
  "joinQueue url br server gameId rulesetId = api url br server ''/v1/queue/join'' (Some ''POST'') (Some (gameId, rulesetId)) True"

definition leaveQueue :: "string \<Rightarrow> browser \<Rightarrow> ('b http_request \<Rightarrow> 'a http_reply option) \<Rightarrow> (api_error, 'a) result" where
  "leaveQueue url br server = api url br server ''/v1/queue/leave'' (Some ''POST'') None True"

definition fetchMatch ::
  "string \<Rightarrow> browser \<Rightarrow> ('b http_request \<Rightarrow> 'a http_reply option) \<Rightarrow> string \<Rightarrow> (api_error, 'a) result" where
  "fetchMatch url br server matchId = api url br server (''/v1/matches/'' @ matchId) None None True"

definition fetchHistory ::
  "string \<Rightarrow> browser \<Rightarrow> ('b http_request \<Rightarrow> 'a http_reply option) \<Rightarrow> nat \<Rightarrow> (api_error, 'a) result" where
  "fetchHistory url br server limit = api url br server (''/v1/matches/history?limit='' @ show_nat limit) None None True"

section \<open>The event socket\<close>

text \<open>
  The variables of \<open>connectWs\<close>: \<open>closed\<close>, \<open>attempt\<close>, whether there is a socket that has not closed
  yet, and the delays of the pending timers.
\<close>

record ws_state =
  ws_closed :: bool
  ws_attempt :: nat
  ws_sockets :: nat
  ws_timers :: "int list"

definition backoff :: "nat \<Rightarrow> int" where
  "backoff attempt = min (1000 * 2 ^ attempt) 15000"

definition ws_open :: "browser \<Rightarrow> ws_state \<Rightarrow> ws_state" where
  "ws_open br s = (if storedSession br = None \<or> ws_closed s then s else s\<lparr>ws_sockets := ws_sockets s + 1\<rparr>)"

definition ws_start :: "browser \<Rightarrow> ws_state" where
  "ws_start br = ws_open br \<lparr>ws_closed = False, ws_attempt = 0, ws_sockets = 0, ws_timers = []\<rparr>"

definition ws_onopen :: "ws_state \<Rightarrow> ws_state" where
  "ws_onopen s = s\<lparr>ws_attempt := 0\<rparr>"

definition ws_onclose :: "ws_state \<Rightarrow> ws_state" where
  "ws_onclose s =
     (let s1 = s\<lparr>ws_sockets := ws_sockets s - 1\<rparr>
      in if ws_closed s then s1
         else s1\<lparr>ws_attempt := ws_attempt s + 1, ws_timers := ws_timers s @ [backoff (ws_attempt s + 1)]\<rparr>)"

definition ws_disconnect :: "ws_state \<Rightarrow> ws_state" where
  "ws_disconnect s = s\<lparr>ws_closed := True\<rparr>"

text \<open>A socket opens or closes, a timer fires, or the caller disconnects; the storage may change at any time.\<close>

inductive ws_step :: "ws_state \<Rightarrow> ws_state \<Rightarrow> bool" where
  opened: "ws_sockets s > 0 \<Longrightarrow> ws_step s (ws_onopen s)"
| closed: "ws_sockets s > 0 \<Longrightarrow> ws_step s (ws_onclose s)"
| fired: "ws_timers s = ts1 @ t # ts2 \<Longrightarrow> ws_step s (ws_open br (s\<lparr>ws_timers := ts1 @ ts2\<rparr>))"
| disconnected: "ws_step s (ws_disconnect s)"

inductive_cases ws_stepE: "ws_step s s'"

section \<open>Properties\<close>

lemma backoff_bounds: "1 \<le> n \<Longrightarrow> 2000 \<le> backoff n \<and> backoff n \<le> 15000"
proof -
  assume "1 \<le> n"
  then have "(2::int) ^ 1 \<le> 2 ^ n" by (intro power_increasing) auto
  then show ?thesis by (simp add: backoff_def)
qed

definition ws_inv :: "ws_state \<Rightarrow> bool" where
  "ws_inv s \<longleftrightarrow> ws_sockets s + length (ws_timers s) \<le> 1 \<and> (\<forall>t \<in> set (ws_timers s). 2000 \<le> t \<and> t \<le> 15000)"

lemma ws_inv_step: "ws_step s s' \<Longrightarrow> ws_inv s \<Longrightarrow> ws_inv s'"
proof -
  assume inv: "ws_inv s"
  then have "ws_sockets s > 0 \<Longrightarrow> ws_sockets s = 1 \<and> ws_timers s = []"
    by (cases "ws_timers s") (simp_all add: ws_inv_def)
  with inv show "ws_step s s' \<Longrightarrow> ws_inv s'"
    by (elim ws_stepE) (auto simp: ws_inv_def ws_onopen_def ws_onclose_def ws_open_def ws_disconnect_def Let_def backoff_bounds)
qed

text \<open>C40. The event socket never has two connections: in every reachable state there is at most one socket
  or one pending retry, and retries wait between 2 and 15 seconds.\<close>

theorem ws_single_connection:
  assumes "ws_step\<^sup>*\<^sup>* (ws_start br) s"
  shows "ws_sockets s + length (ws_timers s) \<le> 1 \<and> (\<forall>t \<in> set (ws_timers s). 2000 \<le> t \<and> t \<le> 15000)"
proof -
  have "ws_inv (ws_start br)" by (simp add: ws_start_def ws_open_def ws_inv_def)
  with assms have "ws_inv s" by (induction rule: rtranclp_induct) (auto intro: ws_inv_step)
  then show ?thesis by (simp add: ws_inv_def)
qed

lemma disconnected_stays: "ws_step s s' \<Longrightarrow> ws_closed s \<Longrightarrow> ws_closed s' \<and> ws_sockets s' \<le> ws_sockets s"
  by (erule ws_stepE) (auto simp: ws_onopen_def ws_onclose_def ws_open_def ws_disconnect_def Let_def)

text \<open>After a disconnect no new socket is opened, even by a retry that was already scheduled.\<close>

theorem ws_no_reconnect:
  assumes "ws_closed s" "ws_step\<^sup>*\<^sup>* s s'"
  shows "ws_closed s' \<and> ws_sockets s' \<le> ws_sockets s"
  using assms(2,1)
  by (induction rule: rtranclp_induct) (use disconnected_stays in fastforce)+

text \<open>A login that succeeds leaves a session the next requests use: the stored token is the issued one
  and the stored wallet the account in lower case, until it is cleared.\<close>

theorem login_session_roundtrip:
  assumes "loginWithWallet url w c_srv v_srv br = (Inr s, br')" "ss_token s \<noteq> ''''" "ss_wallet s \<noteq> ''''"
  shows "storedSession br' = Some (s\<lparr>ss_wallet := toLowerCase (ss_wallet s), ss_expiresAt := ''''\<rparr>) \<and>
    storedSession (clearSession br') = None"
proof -
  from assms(1) obtain account and v :: verified_login where 1: "s = \<lparr>ss_token = vl_token v, ss_wallet = account, ss_expiresAt = vl_expiresAt v\<rparr>"
    "br' = br\<lparr>br_local := (br_local br)(TOKEN_KEY := Some (vl_token v), WALLET_KEY := Some (toLowerCase account))\<rparr>"
    "br_hostname br \<noteq> None"
    by (auto simp: loginWithWallet_def split: option.splits if_splits sum.splits)
  have "TOKEN_KEY \<noteq> WALLET_KEY" by (simp add: TOKEN_KEY_def WALLET_KEY_def)
  then show ?thesis
    using assms(2,3) 1 by (auto simp: storedSession_def clearSession_def no_string_def toLowerCase_def)
qed

text \<open>What is signed determines the text.\<close>

lemma utf8_char_inject: "utf8_char c @ u = utf8_char d @ v \<Longrightarrow> c = d \<and> u = v"
proof -
  have lt: "(of_char e :: nat) < 256" for e by (rule nat_of_char_less_256)
  have un: "unat (of_nat n :: 8 word) = n" if "n < 256" for n
    by (rule of_nat_inverse [OF refl]) (use that in simp)
  define m n where "m = (of_char c :: nat)" and "n = (of_char d :: nat)"
  have mn: "m < 256" "n < 256" using lt by (simp_all add: m_def n_def)
  then have dv: "m div 64 < 4" "n div 64 < 4" by (simp_all add: less_mult_imp_div_less)
  have w: "(of_nat a :: 8 word) = of_nat b \<Longrightarrow> a < 256 \<Longrightarrow> b < 256 \<Longrightarrow> a = b" for a b
    using un [of a] un [of b] by metis
  assume eq: "utf8_char c @ u = utf8_char d @ v"
  have "m = n \<and> u = v"
  proof (cases "m < 128"; cases "n < 128")
    assume "m < 128" "n < 128"
    with eq w [of m n] show ?thesis by (simp add: utf8_char_def Let_def m_def [symmetric] n_def [symmetric])
  next
    assume "m < 128" "\<not> n < 128"
    with eq have "(of_nat m :: 8 word) = of_nat (192 + n div 64)"
      by (simp add: utf8_char_def Let_def m_def [symmetric] n_def [symmetric])
    from w [OF this] \<open>m < 128\<close> mn dv show ?thesis by simp
  next
    assume "\<not> m < 128" "n < 128"
    with eq have "(of_nat (192 + m div 64) :: 8 word) = of_nat n"
      by (simp add: utf8_char_def Let_def m_def [symmetric] n_def [symmetric])
    from w [OF this] \<open>n < 128\<close> mn dv show ?thesis by simp
  next
    assume hi: "\<not> m < 128" "\<not> n < 128"
    with eq have "(of_nat (192 + m div 64) :: 8 word) = of_nat (192 + n div 64)"
      "(of_nat (128 + m mod 64) :: 8 word) = of_nat (128 + n mod 64)" "u = v"
      by (simp_all add: utf8_char_def Let_def m_def [symmetric] n_def [symmetric])
    with w [of "192 + m div 64" "192 + n div 64"] w [of "128 + m mod 64" "128 + n mod 64"] mn
    have "m div 64 = n div 64" "m mod 64 = n mod 64" "u = v" by auto
    then show ?thesis by (metis div_mult_mod_eq)
  qed
  then show ?thesis by (simp add: m_def n_def)
qed

lemma utf8_inject: "concat (map utf8_char s) = concat (map utf8_char t) \<Longrightarrow> s = t"
proof (induction s arbitrary: t)
  case Nil
  then show ?case by (cases t) (auto simp: utf8_char_def Let_def split: if_splits)
next
  case (Cons c s)
  then obtain d t' where t: "t = d # t'" by (cases t) (auto simp: utf8_char_def Let_def split: if_splits)
  with Cons.prems have "utf8_char c @ concat (map utf8_char s) = utf8_char d @ concat (map utf8_char t')" by simp
  from utf8_char_inject [OF this] Cons.IH [of t'] t show ?case by simp
qed

lemma hex_inject:
  "concat (map (\<lambda>b. padStart 2 (CHR ''0'') (toString16 b)) xs) = concat (map (\<lambda>b. padStart 2 (CHR ''0'') (toString16 b)) ys) \<Longrightarrow>
     xs = ys"
proof -
  assume eq: "concat (map (\<lambda>b. padStart 2 (CHR ''0'') (toString16 b)) xs) = concat (map (\<lambda>b. padStart 2 (CHR ''0'') (toString16 b)) ys)"
  then have "generateManageToken xs = generateManageToken ys" by (simp add: generateManageToken_def)
  moreover from this have "length xs = length ys" using length_token [of xs] length_token [of ys] by simp
  ultimately show ?thesis using token_inject by simp
qed

text \<open>The hex text handed to the wallet determines the message: two challenges or reports with the same
  bytes are the same.\<close>

theorem utf8_hex_injective: "toUtf8Hex s = toUtf8Hex t \<longleftrightarrow> s = t"
  by (auto simp: toUtf8Hex_def dest: hex_inject utf8_inject)

section \<open>The wallet connection\<close>

text \<open>
  \<open>connectWallet\<close> on the wallet's answers: whether there is one, the chain it is on, the code of the
  exception when it is asked to switch (\<open>None\<close> when it switches), whether adding the chain
  succeeds, and the chain it reports afterwards.
\<close>

record chain_wallet =
  cw_accounts :: "(string, unit) result"
  cw_chain :: int
  cw_switch :: "(int option \<times> string, unit) result"
  cw_add :: "(string, unit) result"
  cw_after :: int

definition FUJI_CHAIN_ID :: "int option \<Rightarrow> int" where
  "FUJI_CHAIN_ID env = or_else env 43113"

definition connectWallet :: "int \<Rightarrow> chain_wallet option \<Rightarrow> (string, unit) result" where
  "connectWallet chain wallet =
     (case wallet of
        None \<Rightarrow> Inl ''No wallet found. Install the Core or MetaMask wallet.''
      | Some w \<Rightarrow>
          bind_result (cw_accounts w) (\<lambda>_.
            if cw_chain w = chain then Inr ()
            else bind_result
              (case cw_switch w of
                 Inr _ \<Rightarrow> Inr ()
               | Inl (code, msg) \<Rightarrow>
                   if code = Some 4902 \<or> code = Some (- 32603) then cw_add w
                   else Inl (''Could not switch to Fuji testnet: '' @ msg))
              (\<lambda>_. if cw_after w \<noteq> chain
                   then Inl ''Please switch your wallet to the Avalanche Fuji testnet and try again.''
                   else Inr ())))"

text \<open>A connected wallet is on the chain: at once, or after the switch.\<close>

lemma connectWallet_chain:
  "connectWallet chain (Some w) = Inr () \<Longrightarrow> cw_chain w = chain \<or> cw_after w = chain"
  by (auto simp: connectWallet_def bind_result_eq_Inr split: if_splits)

section \<open>Closed instances\<close>

definition demo_browser :: browser where
  "demo_browser = \<lparr>br_hostname = Some ''localhost'', br_local = (\<lambda>_. None), br_session = (\<lambda>_. None)\<rparr>"

definition demo_wallet :: injected_wallet where
  "demo_wallet = \<lparr>iw_accounts = Inr (''0xA1'', []), iw_sign = (\<lambda>msg acc. Inr ''sig'')\<rparr>"

definition ok_reply :: "'a \<Rightarrow> 'a http_reply" where
  "ok_reply x = \<lparr>hr_status = 200, hr_statusText = ''OK'', hr_error = None, hr_message = None, hr_json = x\<rparr>"

definition demo_login :: "(string, session) result \<times> browser" where
  "demo_login = loginWithWallet (SERVER_URL None) (Some demo_wallet) (\<lambda>q. Some (ok_reply ''challenge''))
     (\<lambda>q. Some (ok_reply \<lparr>vl_token = ''t1'', vl_expiresAt = ''x''\<rparr>)) demo_browser"

theorem login_session_roundtrip_witness: "storedSession (snd demo_login) \<noteq> None"
proof -
  have "fst demo_login = Inr \<lparr>ss_token = ''t1'', ss_wallet = ''0xA1'', ss_expiresAt = ''x''\<rparr>"
    by (simp add: demo_login_def loginWithWallet_def demo_wallet_def demo_browser_def api_def ok_reply_def Let_def)
  then have "loginWithWallet (SERVER_URL None) (Some demo_wallet) (\<lambda>q. Some (ok_reply ''challenge''))
     (\<lambda>q. Some (ok_reply \<lparr>vl_token = ''t1'', vl_expiresAt = ''x''\<rparr>)) demo_browser =
     (Inr \<lparr>ss_token = ''t1'', ss_wallet = ''0xA1'', ss_expiresAt = ''x''\<rparr>, snd demo_login)"
    unfolding demo_login_def by (metis prod.collapse)
  from login_session_roundtrip [OF this] show ?thesis by simp
qed

text \<open>A socket opens, breaks, and a retry waits.\<close>

definition online_browser :: browser where
  "online_browser = \<lparr>br_hostname = Some ''amp.example'', br_local = (\<lambda>k. Some ''t''), br_session = (\<lambda>k. None)\<rparr>"

theorem ws_single_connection_witness:
  "ws_sockets (ws_start online_browser) = 1 \<and> ws_timers (ws_onclose (ws_start online_browser)) = [2000] \<and>
    ws_sockets (ws_onclose (ws_start online_browser)) + length (ws_timers (ws_onclose (ws_start online_browser))) \<le> 1"
proof -
  have one: "ws_start online_browser = \<lparr>ws_closed = False, ws_attempt = 0, ws_sockets = 1, ws_timers = []\<rparr>"
    by (simp add: ws_start_def ws_open_def storedSession_def online_browser_def no_string_def)
  then have "ws_step (ws_start online_browser) (ws_onclose (ws_start online_browser))" by (intro closed) simp
  from ws_single_connection [OF r_into_rtranclp [of ws_step, OF this]] show ?thesis
    by (simp add: one ws_onclose_def backoff_def)
qed

theorem ws_no_reconnect_witness:
  "ws_closed (ws_onclose (ws_disconnect (ws_start demo_browser))) \<or> ws_sockets (ws_start demo_browser) = 0"
proof (cases "ws_sockets (ws_start demo_browser) = 0")
  case False
  then have "ws_sockets (ws_disconnect (ws_start demo_browser)) > 0" by (simp add: ws_disconnect_def)
  from r_into_rtranclp [of ws_step, OF closed [OF this]]
  have "ws_step\<^sup>*\<^sup>* (ws_disconnect (ws_start demo_browser)) (ws_onclose (ws_disconnect (ws_start demo_browser)))" .
  moreover have "ws_closed (ws_disconnect (ws_start demo_browser))" by (simp add: ws_disconnect_def)
  ultimately show ?thesis using ws_no_reconnect [of "ws_disconnect (ws_start demo_browser)"] by blast
qed simp

end
