(* ===== verification/Arena.thy ===== *)
theory Arena
  imports Client
begin

text \<open>
  The ranked-play page, \<open>web/src/app/arena/page.tsx\<close>, as a state machine: the state variables of the
  component are a record, every handler is a function on it and on the browser, and the outcome of
  each request to the matchmaker is an argument. Ratings are \<open>js_number\<close>s.
\<close>

section \<open>State\<close>

datatype phase = Loading | LoggedOut | Idle | InQueue | MatchFound | Reported | ShowResult | InDispute

record opponent_view =
  ov_wallet :: string
  ov_rating :: js_number
  ov_region :: string

record match_view =
  mv_matchId :: string
  mv_opponent :: opponent_view
  mv_yourRating :: js_number
  mv_bot :: bool

record result_view =
  rv_matchId :: string
  rv_outcome :: string
  rv_won :: bool
  rv_ratingBefore :: js_number
  rv_ratingAfter :: js_number
  rv_attested :: bool

record player_rating =
  pr_gameId :: string
  pr_rulesetId :: string
  pr_rating :: js_number
  pr_deviation :: js_number
  pr_wins :: int
  pr_losses :: int
  pr_draws :: int

record game_info =
  gi_id :: string
  gi_name :: string
  gi_rulesets :: "(string \<times> string \<times> int) list"
  gi_nextWindow :: "string option"

record history_entry =
  he_matchId :: string
  he_state :: string
  he_outcome :: "string option"
  he_winner :: "string option"
  he_you :: "string option"

record queue_stats =
  qs_depth :: int
  qs_waitedMs :: int
  qs_skillWindow :: int

record arena =
  ar_phase :: phase
  ar_wallet :: "string option"
  ar_ratings :: "player_rating list"
  ar_games :: "game_info list"
  ar_selected :: "(string \<times> string) option"
  ar_queueStats :: queue_stats
  ar_matchView :: "match_view option"
  ar_resultView :: "result_view option"
  ar_error :: "string option"
  ar_offline :: bool
  ar_busy :: bool
  ar_history :: "history_entry list"

definition queue_default :: queue_stats where
  "queue_default = \<lparr>qs_depth = 0, qs_waitedMs = 0, qs_skillWindow = 350\<rparr>"

definition arena_start :: arena where
  "arena_start = \<lparr>ar_phase = Loading, ar_wallet = None, ar_ratings = [], ar_games = [], ar_selected = None,
     ar_queueStats = queue_default, ar_matchView = None, ar_resultView = None, ar_error = None,
     ar_offline = False, ar_busy = False, ar_history = []\<rparr>"

section \<open>Loading\<close>

record me_json =
  me_wallet :: string
  me_ratings :: "player_rating list"
  me_liveMatchId :: "string option"
  me_queueTicket :: "string option"

text \<open>\<open>refreshGames\<close> catches every failure itself: it always returns.\<close>

definition refreshGames :: "(api_error, game_info list) result \<Rightarrow> arena \<Rightarrow> (api_error, unit) result \<times> arena" where
  "refreshGames res a =
     (case res of
        Inl e \<Rightarrow> (Inr (), a)
      | Inr gs \<Rightarrow>
          (let a1 = a\<lparr>ar_games := gs\<rparr>
           in (Inr (),
               case (ar_selected a, gs) of
                 (None, g # _) \<Rightarrow>
                   (case gi_rulesets g of
                      (r, _) # _ \<Rightarrow> a1\<lparr>ar_selected := Some (gi_id g, r)\<rparr>
                    | [] \<Rightarrow> a1)
               | _ \<Rightarrow> a1)))"

definition me_loaded :: "me_json \<Rightarrow> arena \<Rightarrow> arena" where
  "me_loaded me a =
     (let a1 = a\<lparr>ar_wallet := Some (me_wallet me), ar_ratings := me_ratings me\<rparr>
      in if me_queueTicket me \<noteq> None then a1\<lparr>ar_phase := InQueue\<rparr>
         else if \<not> no_string (me_liveMatchId me) then a1\<lparr>ar_phase := MatchFound\<rparr>
         else a1\<lparr>ar_phase := Idle\<rparr>)"

definition refresh_failed :: "arena \<times> browser \<Rightarrow> arena \<times> browser" where
  "refresh_failed s = ((fst s)\<lparr>ar_wallet := None, ar_phase := LoggedOut\<rparr>, clearSession (snd s))"

definition refreshMe ::
  "(api_error, me_json) result \<Rightarrow> (api_error, history_entry list) result \<Rightarrow> arena \<times> browser \<Rightarrow> arena \<times> browser" where
  "refreshMe me hist s =
     (case me of
        Inl e \<Rightarrow> refresh_failed s
      | Inr m \<Rightarrow>
          (case hist of
             Inl e \<Rightarrow> refresh_failed (me_loaded m (fst s), snd s)
           | Inr h \<Rightarrow> ((me_loaded m (fst s))\<lparr>ar_history := h\<rparr>, snd s)))"

definition boot ::
  "(api_error, game_info list) result \<Rightarrow> (api_error, me_json) result \<Rightarrow> (api_error, history_entry list) result \<Rightarrow>
     arena \<times> browser \<Rightarrow> arena \<times> browser" where
  "boot games me hist s =
     (case refreshGames games (fst s) of
        (Inl e, a) \<Rightarrow> (a\<lparr>ar_offline := True\<rparr>, snd s)
      | (Inr _, a) \<Rightarrow>
          if storedSession (snd s) \<noteq> None then refreshMe me hist (a, snd s)
          else (a\<lparr>ar_phase := LoggedOut\<rparr>, snd s))"

section \<open>Events of the server\<close>

datatype ws_message =
  QueueStatus "int option" "int option" "int option"
| MatchFoundMsg match_view
| MatchResultMsg result_view
| MatchUpdate string
| OtherMsg

text \<open>A \<open>match_result\<close> also starts \<open>refreshMe\<close>; its outcome is a later event.\<close>

definition on_message :: "ws_message \<Rightarrow> arena \<Rightarrow> arena" where
  "on_message m a =
     (case m of
        QueueStatus depth waited skill \<Rightarrow>
          a\<lparr>ar_queueStats := \<lparr>qs_depth = or_else depth 0, qs_waitedMs = or_else waited 0,
              qs_skillWindow = or_else skill 350\<rparr>\<rparr>
      | MatchFoundMsg v \<Rightarrow> a\<lparr>ar_matchView := Some v, ar_phase := MatchFound\<rparr>
      | MatchResultMsg r \<Rightarrow> a\<lparr>ar_resultView := Some r, ar_phase := ShowResult\<rparr>
      | MatchUpdate state \<Rightarrow>
          if state = ''disputed'' then a\<lparr>ar_phase := InDispute\<rparr>
          else if state = ''cancelled''
          then a\<lparr>ar_phase := Idle, ar_error := Some ''Match cancelled (expired or opponent never showed).''\<rparr>
          else a
      | OtherMsg \<Rightarrow> a)"

section \<open>Actions\<close>

definition connect ::
  "(string, session) result \<times> browser \<Rightarrow> (api_error, me_json) result \<Rightarrow> (api_error, history_entry list) result \<Rightarrow>
     arena \<Rightarrow> arena \<times> browser" where
  "connect login me hist a =
     (let a1 = a\<lparr>ar_busy := True, ar_error := None\<rparr>
      in case login of
           (Inl e, br) \<Rightarrow> (a1\<lparr>ar_error := Some e, ar_busy := False\<rparr>, br)
         | (Inr s, br) \<Rightarrow>
             (let (a2, br2) = refreshMe me hist (a1\<lparr>ar_wallet := Some (ss_wallet s)\<rparr>, br)
              in (a2\<lparr>ar_busy := False\<rparr>, br2)))"

definition logout :: "arena \<times> browser \<Rightarrow> arena \<times> browser" where
  "logout s = refresh_failed s"

definition request_begins :: "arena \<Rightarrow> arena" where
  "request_begins a = a\<lparr>ar_busy := True, ar_error := None\<rparr>"

definition queue_ends :: "(api_error, unit) result \<Rightarrow> arena \<Rightarrow> arena" where
  "queue_ends res a =
     (case res of
        Inl e \<Rightarrow> a\<lparr>ar_error := Some (ae_message e), ar_busy := False\<rparr>
      | Inr _ \<Rightarrow> a\<lparr>ar_queueStats := queue_default, ar_phase := InQueue, ar_busy := False\<rparr>)"

definition queue :: "(api_error, unit) result \<Rightarrow> arena \<Rightarrow> arena" where
  "queue res a = (if ar_selected a = None then a else queue_ends res (request_begins a))"

definition leave :: "(api_error, unit) result \<Rightarrow> arena \<Rightarrow> arena" where
  "leave res a = (case res of Inl e \<Rightarrow> a\<lparr>ar_busy := False\<rparr> | Inr _ \<Rightarrow> a\<lparr>ar_phase := Idle, ar_busy := False\<rparr>)"

definition outcome_ends :: "(api_error, unit) result \<Rightarrow> arena \<Rightarrow> arena" where
  "outcome_ends res a =
     (case res of
        Inl e \<Rightarrow> a\<lparr>ar_error := Some (ae_message e), ar_busy := False\<rparr>
      | Inr _ \<Rightarrow> a\<lparr>ar_phase := Reported, ar_busy := False\<rparr>)"

definition report :: "(api_error, unit) result \<Rightarrow> arena \<Rightarrow> arena" where
  "report res a = (if ar_matchView a = None then a else outcome_ends res (request_begins a))"

definition playedAgain ::
  "(api_error, me_json) result \<Rightarrow> (api_error, history_entry list) result \<Rightarrow> arena \<times> browser \<Rightarrow> arena \<times> browser" where
  "playedAgain me hist s = refreshMe me hist ((fst s)\<lparr>ar_resultView := None, ar_matchView := None\<rparr>, snd s)"

text \<open>The local wait ticker while queued, started with \<open>waited\<close> on the clock.\<close>

definition tick :: "int \<Rightarrow> int \<Rightarrow> int \<Rightarrow> arena \<Rightarrow> arena" where
  "tick started_at waited now a =
     (if ar_phase a \<noteq> InQueue then a
      else a\<lparr>ar_queueStats := (ar_queueStats a)\<lparr>qs_waitedMs := now - (started_at - waited)\<rparr>\<rparr>)"

definition fmtWait :: "int \<Rightarrow> string" where
  "fmtWait ms =
     (let s = ms div 1000
      in if s < 60 then show_int s @ ''s'' else show_int (s div 60) @ ''m '' @ show_int (s mod 60) @ ''s'')"

definition my_rating :: "arena \<Rightarrow> player_rating option" where
  "my_rating a =
     (case ar_selected a of None \<Rightarrow> None
      | Some (g, r) \<Rightarrow> List.find (\<lambda>x. pr_gameId x = g \<and> pr_rulesetId x = r) (ar_ratings a))"

section \<open>What is shown\<close>

datatype panel = LoadingPanel | OfflinePanel | LoginPanel | ResultPanel result_view | PickerPanel
  | QueuePanel | MatchPanel match_view | ReportedPanel | DisputePanel

definition panels :: "arena \<Rightarrow> panel list" where
  "panels a =
     (if ar_phase a = Loading then [if ar_offline a then OfflinePanel else LoadingPanel] else []) @
     (if ar_phase a = LoggedOut then [LoginPanel] else []) @
     (if (ar_phase a = Idle \<or> ar_phase a = ShowResult) \<and> ar_games a \<noteq> []
      then (case ar_resultView a of Some r \<Rightarrow> if ar_phase a = ShowResult then [ResultPanel r] else [] | None \<Rightarrow> []) @
           [PickerPanel] else []) @
     (if ar_phase a = InQueue then [QueuePanel] else []) @
     (case ar_matchView a of Some v \<Rightarrow> if ar_phase a = MatchFound then [MatchPanel v] else [] | None \<Rightarrow> []) @
     (if ar_phase a = Reported then [ReportedPanel] else []) @
     (if ar_phase a = InDispute then [DisputePanel] else [])"

definition result_title :: "result_view \<Rightarrow> string" where
  "result_title r = (if rv_outcome r = ''draw'' then ''Draw'' else if rv_won r then ''Victory'' else ''Defeat'')"

text \<open>A line of the match history; \<open>outcome\<close> is null or a non-empty text.\<close>

definition history_label :: "history_entry \<Rightarrow> string" where
  "history_label h =
     (let won = \<not> no_string (he_outcome h) \<and> he_winner h = he_you h
      in if he_outcome h = Some ''draw'' then ''draw''
         else if won then ''won'' else if \<not> no_string (he_outcome h) then ''lost'' else ''-'')"

text \<open>The rulesets of the picker, with the selected one marked.\<close>

definition picker :: "arena \<Rightarrow> (string \<times> string \<times> int \<times> bool) list" where
  "picker a = concat (map (\<lambda>g. map (\<lambda>(r, n, depth). (gi_name g, n, depth, ar_selected a = Some (gi_id g, r))) (gi_rulesets g))
     (ar_games a))"

section \<open>Runs\<close>

datatype arena_event =
  Boot "(api_error, game_info list) result" "(api_error, me_json) result" "(api_error, history_entry list) result"
| Refreshed "(api_error, me_json) result" "(api_error, history_entry list) result"
| Message ws_message
| Connected "(string, session) result" "string \<Rightarrow> string option" "(api_error, me_json) result" "(api_error, history_entry list) result"
| LoggedOff
| Selected string string
| QueueSent "(api_error, unit) result"
| Left "(api_error, unit) result"
| ReportSent "(api_error, unit) result"
| Again "(api_error, me_json) result" "(api_error, history_entry list) result"
| Ticked int int int
| Retry "(api_error, game_info list) result" "(api_error, me_json) result" "(api_error, history_entry list) result"

fun arena_step :: "arena_event \<Rightarrow> arena \<times> browser \<Rightarrow> arena \<times> browser" where
  "arena_step (Boot g m h) s = boot g m h s"
| "arena_step (Refreshed m h) s = refreshMe m h s"
| "arena_step (Message m) (a, br) = (on_message m a, br)"
| "arena_step (Connected l store m h) (a, br) = connect (l, br\<lparr>br_local := store\<rparr>) m h a"
| "arena_step LoggedOff s = logout s"
| "arena_step (Selected g r) (a, br) = (a\<lparr>ar_selected := Some (g, r)\<rparr>, br)"
| "arena_step (QueueSent res) (a, br) = (queue res a, br)"
| "arena_step (Left res) (a, br) = (leave res a, br)"
| "arena_step (ReportSent res) (a, br) = (report res a, br)"
| "arena_step (Again m h) s = playedAgain m h s"
| "arena_step (Ticked st w now) (a, br) = (tick st w now a, br)"
| "arena_step (Retry g m h) (a, br) = boot g m h (a\<lparr>ar_offline := False\<rparr>, br)"

definition arena_run :: "arena_event list \<Rightarrow> arena \<times> browser \<Rightarrow> arena \<times> browser" where
  "arena_run es s = foldl (\<lambda>s e. arena_step e s) s es"

section \<open>Properties\<close>

lemma refreshMe_offline [simp]: "ar_offline (fst (refreshMe m h s)) = ar_offline (fst s)"
  by (simp add: refreshMe_def refresh_failed_def me_loaded_def Let_def split: sum.split)

lemma refreshGames_returns: "fst (refreshGames g a) = Inr ()" "ar_offline (snd (refreshGames g a)) = ar_offline a"
  by (simp_all add: refreshGames_def Let_def split: sum.split option.split list.split)

lemma boot_alt:
  "boot g m h s = (let a = snd (refreshGames g (fst s))
     in if storedSession (snd s) \<noteq> None then refreshMe m h (a, snd s) else (a\<lparr>ar_phase := LoggedOut\<rparr>, snd s))"
  using refreshGames_returns(1) [of g "fst s"]
  by (cases "refreshGames g (fst s)") (simp add: boot_def Let_def)

lemma step_offline: "\<not> ar_offline (fst s) \<Longrightarrow> \<not> ar_offline (fst (arena_step e s))"
  by (cases s; cases e)
    (auto simp: boot_alt Let_def refreshGames_returns on_message_def connect_def logout_def refresh_failed_def queue_def
      queue_ends_def leave_def report_def outcome_ends_def request_begins_def playedAgain_def tick_def case_prod_unfold
      split: ws_message.split sum.split)

text \<open>The offline panel is dead code: whatever the server and the user do, no run of the page shows it,
  because the failure it waits for is caught before it can arrive.\<close>

theorem offline_never_shown: "OfflinePanel \<notin> set (panels (fst (arena_run es (arena_start, br))))"
proof -
  have "\<not> ar_offline (fst s) \<Longrightarrow> \<not> ar_offline (fst (arena_run es s))" for s
  proof (induction es arbitrary: s)
    case (Cons e es)
    have "\<not> ar_offline (fst (arena_run es (arena_step e s)))" by (rule Cons.IH [OF step_offline [OF Cons.prems]])
    then show ?case by (simp add: arena_run_def)
  qed (simp add: arena_run_def)
  then have "\<not> ar_offline (fst (arena_run es (arena_start, br)))" by (simp add: arena_start_def)
  then show ?thesis by (auto simp: panels_def split: option.split)
qed

text \<open>A server that cannot be reached logs the player out: when the page starts with a stored session and
  its requests fail, the session is deleted and the login panel is shown.\<close>

theorem unreachable_server_logs_out:
  assumes "storedSession br \<noteq> None"
  shows "panels (fst (arena_run [Boot (Inl e) (Inl e') h] (arena_start, br))) = [LoginPanel] \<and>
    storedSession (snd (arena_run [Boot (Inl e) (Inl e') h] (arena_start, br))) = None"
  using assms
  by (simp add: arena_run_def boot_alt refreshGames_def Let_def refreshMe_def refresh_failed_def arena_start_def
      panels_def storedSession_def clearSession_def no_string_def)

definition demo_failure :: api_error where
  "demo_failure = \<lparr>ae_code = ''network'', ae_message = ''x'', ae_status = 0\<rparr>"

theorem unreachable_server_logs_out_witness:
  "storedSession (demo_browser\<lparr>br_local := (\<lambda>k. Some ''x'')\<rparr>) \<noteq> None \<and>
   panels (fst (arena_run [Boot (Inl demo_failure) (Inl demo_failure) (Inr [])] (arena_start, demo_browser\<lparr>br_local := (\<lambda>k. Some ''x'')\<rparr>))) = [LoginPanel]"
proof
  show "storedSession (demo_browser\<lparr>br_local := (\<lambda>k. Some ''x'')\<rparr>) \<noteq> None"
    by (simp add: storedSession_def demo_browser_def no_string_def)
  then show "panels (fst (arena_run [Boot (Inl demo_failure) (Inl demo_failure) (Inr [])] (arena_start, demo_browser\<lparr>br_local := (\<lambda>k. Some ''x'')\<rparr>))) = [LoginPanel]"
    using unreachable_server_logs_out by blast
qed

text \<open>The result of a match is only flashed: the refresh that the result message starts puts a player
  with no ticket and no live match back to idle, and the result panel is gone.\<close>

theorem result_panel_vanishes:
  assumes "me_queueTicket me = None" "no_string (me_liveMatchId me)" "ar_games a \<noteq> []"
  shows "panels (fst (arena_run [Message (MatchResultMsg r)] (a, br))) = [ResultPanel r, PickerPanel] \<and>
    panels (fst (arena_run [Message (MatchResultMsg r), Refreshed (Inr me) (Inr h)] (a, br))) = [PickerPanel]"
  using assms
  by (simp add: arena_run_def on_message_def refreshMe_def me_loaded_def Let_def panels_def split: option.split)

text \<open>Reloading the page in a match loses it: the refresh sets the phase without a match to show, no panel
  is visible and the report handler does nothing.\<close>

theorem reload_loses_match:
  assumes "storedSession br \<noteq> None" "me_queueTicket me = None" "\<not> no_string (me_liveMatchId me)"
  shows "let s = arena_run [Boot g (Inr me) (Inr h)] (arena_start, br)
    in ar_phase (fst s) = MatchFound \<and> panels (fst s) = [] \<and> arena_step (ReportSent res) s = s"
proof -
  have "ar_matchView (snd (refreshGames g arena_start)) = None"
    by (simp add: refreshGames_def Let_def arena_start_def split: sum.split option.split list.split)
  with assms show ?thesis
    by (simp add: arena_run_def boot_alt Let_def refreshMe_def me_loaded_def panels_def report_def)
qed

definition demo_me :: "string option \<Rightarrow> me_json" where
  "demo_me live = \<lparr>me_wallet = ''0xa1'', me_ratings = [], me_liveMatchId = live, me_queueTicket = None\<rparr>"

definition demo_arena :: arena where
  "demo_arena = arena_start\<lparr>ar_phase := Reported, ar_games := [\<lparr>gi_id = ''g'', gi_name = ''G'', gi_rulesets = [], gi_nextWindow = None\<rparr>]\<rparr>"

definition demo_result :: result_view where
  "demo_result = \<lparr>rv_matchId = ''m'', rv_outcome = ''a'', rv_won = True, rv_ratingBefore = Some 1500,
     rv_ratingAfter = Some 1520, rv_attested = True\<rparr>"

theorem result_panel_vanishes_witness:
  "panels (fst (arena_run [Message (MatchResultMsg demo_result), Refreshed (Inr (demo_me None)) (Inr [])]
     (demo_arena, demo_browser))) = [PickerPanel]"
  using result_panel_vanishes [of "demo_me None" demo_arena demo_result demo_browser "[]"]
  by (simp add: demo_me_def no_string_def demo_arena_def)

definition demo_signed_in :: browser where
  "demo_signed_in = demo_browser\<lparr>br_local := (\<lambda>k. Some ''x'')\<rparr>"

theorem reload_loses_match_witness:
  "panels (fst (arena_run [Boot (Inr []) (Inr (demo_me (Some ''m''))) (Inr [])] (arena_start, demo_signed_in))) = []"
proof -
  have "storedSession demo_signed_in \<noteq> None"
    by (simp add: demo_signed_in_def storedSession_def demo_browser_def no_string_def)
  from reload_loses_match [OF this, of "demo_me (Some ''m'')" "Inr []" "[]" "Inr ()"] show ?thesis
    by (simp add: demo_me_def no_string_def Let_def)
qed

end
