(* ===== verification/View.thy ===== *)
theory View
  imports Prelude
begin

text \<open>
  What a page shows, as data. A rendered page is the list of its visible elements in document order:
  texts, links, spinners, buttons with whether they are enabled and what a click does, and input
  fields with what typing does. Style, icons and the boxes around the elements are left out, and
  typographic characters are written in ASCII. A page is used by clicking what it offers and typing
  into its fields while other events happen; the locale \<open>page\<close> says when an invariant survives that.
\<close>

named_theorems quiet "what an element of a page offers, whatever it says"

section \<open>Elements\<close>

datatype 'a item =
  Words string
| Spinner
| Link string string
| Jump string string 'a
| Button string bool 'a
| Choice string bool 'a
| Field string string "string \<Rightarrow> 'a"

text \<open>A \<open>Jump\<close> is a link whose click also runs a handler of the page. A \<open>Choice\<close> is a button that is always enabled and says whether it is the active one.\<close>

primrec item_offers :: "'a item \<Rightarrow> 'a list" where
  "item_offers (Words w) = []"
| "item_offers Spinner = []"
| "item_offers (Link w target) = []"
| "item_offers (Jump w target a) = [a]"
| "item_offers (Button w enabled a) = (if enabled then [a] else [])"
| "item_offers (Choice w active a) = [a]"
| "item_offers (Field w x f) = []"

definition offered :: "'a item list \<Rightarrow> 'a list" where
  "offered v = concat (map item_offers v)"

text \<open>\<open>condition && element\<close>\<close>

definition show_if :: "bool \<Rightarrow> 'a item list \<Rightarrow> 'a item list" where
  "show_if b v = (if b then v else [])"

lemma offered_simps [simp]:
  "offered [] = []"
  "offered (i # v) = item_offers i @ offered v"
  "offered (v @ w) = offered v @ offered w"
  by (simp_all add: offered_def)

lemma offered_if [simp]: "offered (if b then v else w) = (if b then offered v else offered w)"
  by simp

lemma show_if_simps [simp]:
  "show_if True v = v" "show_if False v = []"
  "offered (show_if b v) = (if b then offered v else [])"
  by (simp_all add: show_if_def)

text \<open>The input fields of a page: what typing into each one does.\<close>

primrec item_entries :: "'a item \<Rightarrow> (string \<Rightarrow> 'a) list" where
  "item_entries (Words w) = []"
| "item_entries Spinner = []"
| "item_entries (Link w target) = []"
| "item_entries (Jump w target a) = []"
| "item_entries (Button w enabled a) = []"
| "item_entries (Choice w active a) = []"
| "item_entries (Field w x f) = [f]"

definition entries :: "'a item list \<Rightarrow> (string \<Rightarrow> 'a) list" where
  "entries v = concat (map item_entries v)"

lemma entries_simps [simp]:
  "entries [] = []"
  "entries (i # v) = item_entries i @ entries v"
  "entries (v @ w) = entries v @ entries w"
  "entries (show_if b v) = (if b then entries v else [])"
  by (simp_all add: entries_def show_if_def)

lemma entries_concat: "entries (concat vs) = concat (map entries vs)"
  by (induction vs) simp_all

lemma offered_concat: "offered (concat vs) = concat (map offered vs)"
  by (induction vs) simp_all

lemma offered_quiet: "(\<And>i. i \<in> set v \<Longrightarrow> item_offers i = []) \<Longrightarrow> offered v = []"
  by (induction v) auto

text \<open>What an element contributes, without looking into its texts.\<close>

lemma quiet_items [quiet]:
  "offered (Words w # v) = offered v" "offered (Spinner # v) = offered v" "offered (Link w target # v) = offered v"
  "offered (Field w x f # v) = offered v" "offered (Choice w active a # v) = a # offered v"
  "offered (Button w True a # v) = a # offered v" "offered (Jump w target a # v) = a # offered v"
  "entries (Words w # v) = entries v" "entries (Spinner # v) = entries v" "entries (Link w target # v) = entries v"
  "entries (Field w x f # v) = f # entries v" "entries (Choice w active a # v) = entries v"
  "entries (Button w enabled a # v) = entries v" "entries (Jump w target a # v) = entries v"
  "offered [] = []" "entries [] = []" "offered (v @ w1) = offered v @ offered w1" "entries (v @ w1) = entries v @ entries w1"
  "offered (show_if b v) = (if b then offered v else [])" "entries (show_if b v) = (if b then entries v else [])"
  by simp_all

lemmas quiet_rules = quiet if_cancel append.simps(1) append_Nil2

text \<open>The texts of a page.\<close>

primrec item_words :: "'a item \<Rightarrow> string list" where
  "item_words (Words w) = [w]"
| "item_words Spinner = []"
| "item_words (Link w target) = [w]"
| "item_words (Jump w target a) = [w]"
| "item_words (Button w enabled a) = [w]"
| "item_words (Choice w active a) = [w]"
| "item_words (Field w x f) = [w, x]"

section \<open>Using a page\<close>

inductive ui_step :: "('s \<Rightarrow> 'a item list) \<Rightarrow> ('a \<Rightarrow> 's \<Rightarrow> 's) \<Rightarrow> ('s \<Rightarrow> 's \<Rightarrow> bool) \<Rightarrow> 's \<Rightarrow> 's \<Rightarrow> bool"
  for view handle env where
  clicked: "a \<in> set (offered (view s)) \<Longrightarrow> ui_step view handle env s (handle a s)"
| typed: "f \<in> set (entries (view s)) \<Longrightarrow> ui_step view handle env s (handle (f input) s)"
| happened: "env s s' \<Longrightarrow> ui_step view handle env s s'"

inductive_cases ui_stepE: "ui_step view handle env s s'"

locale page =
  fixes view :: "'s \<Rightarrow> 'a item list" and handle :: "'a \<Rightarrow> 's \<Rightarrow> 's" and env :: "'s \<Rightarrow> 's \<Rightarrow> bool"
    and inv :: "'s \<Rightarrow> bool"
  assumes clicked_inv: "inv s \<Longrightarrow> a \<in> set (offered (view s)) \<Longrightarrow> inv (handle a s)"
    and typed_inv: "inv s \<Longrightarrow> f \<in> set (entries (view s)) \<Longrightarrow> inv (handle (f input) s)"
    and happened_inv: "inv s \<Longrightarrow> env s s' \<Longrightarrow> inv s'"
begin

lemma step_inv: "ui_step view handle env s s' \<Longrightarrow> inv s \<Longrightarrow> inv s'"
  by (erule ui_stepE) (auto intro: clicked_inv typed_inv happened_inv)

lemma reach_inv: "(ui_step view handle env)\<^sup>*\<^sup>* s s' \<Longrightarrow> inv s \<Longrightarrow> inv s'"
  by (induction rule: rtranclp_induct) (auto intro: step_inv)

end

end
