(* ===== verification/Arena_View.thy ===== *)
theory Arena_View
  imports Arena View
begin

text \<open>
  The ranked-play page \<open>web/src/app/arena/page.tsx\<close> as it is shown: the elements of every panel, what a
  click does at once (the rest of a handler is an event of \<open>Arena\<close>, when its request is answered), and
  the states in which the page leaves the player nothing to do. \<open>clock\<close> renders the next queue window.
\<close>

section \<open>What a click does\<close>

datatype arena_action =
  ARetry | AConnect | ALogout | ASelect string string | AQueue | ALeave | AReport game_result | AAgain


definition arena_click :: "arena_action \<Rightarrow> arena \<times> browser \<Rightarrow> arena \<times> browser" where
  "arena_click act s =
     (case act of
        ARetry \<Rightarrow> ((fst s)\<lparr>ar_offline := False\<rparr>, snd s)
      | AConnect \<Rightarrow> (request_begins (fst s), snd s)
      | ALogout \<Rightarrow> logout s
      | ASelect g r \<Rightarrow> ((fst s)\<lparr>ar_selected := Some (g, r)\<rparr>, snd s)
      | AQueue \<Rightarrow> if ar_selected (fst s) = None then s else (request_begins (fst s), snd s)
      | ALeave \<Rightarrow> ((fst s)\<lparr>ar_busy := True\<rparr>, snd s)
      | AReport r \<Rightarrow> if ar_matchView (fst s) = None then s else (request_begins (fst s), snd s)
      | AAgain \<Rightarrow> ((fst s)\<lparr>ar_resultView := None, ar_matchView := None\<rparr>, snd s))"

text \<open>
  What may happen to the page besides clicks, \<open>boot\<close> apart: messages, ticks and the answers of requests. A
  handler's answer arrives in the state the page has reached by then.
\<close>

definition boots :: "arena_event \<Rightarrow> bool" where
  "boots e = (case e of Boot g m h \<Rightarrow> True | Retry g m h \<Rightarrow> True | Selected g r \<Rightarrow> True | _ \<Rightarrow> False)"

definition arena_env :: "arena \<times> browser \<Rightarrow> arena \<times> browser \<Rightarrow> bool" where
  "arena_env s s' \<longleftrightarrow> (\<exists>e. \<not> boots e \<and> s' = arena_step e s) \<or>
     (\<exists>res. s' = (queue_ends res (fst s), snd s) \<or> s' = (outcome_ends res (fst s), snd s))"

text \<open>A handler is its click and then the answer: the two steps are the one step of \<open>Arena\<close>.\<close>

lemma click_then_answer:
  "ar_selected (fst s) \<noteq> None \<Longrightarrow> (queue_ends res (fst (arena_click AQueue s)), snd s) = arena_step (QueueSent res) s"
  "arena_step (Left res) (arena_click ALeave s) = arena_step (Left res) s"
  "ar_matchView (fst s) \<noteq> None \<Longrightarrow>
     (outcome_ends res (fst (arena_click (AReport r) s)), snd s) = arena_step (ReportSent res) s"
  "arena_step (Connected l store m h) (arena_click AConnect s) = arena_step (Connected l store m h) s"
  "arena_step (Refreshed m h) (arena_click AAgain s) = arena_step (Again m h) s"
  "arena_step (Boot g m h) (arena_click ARetry s) = arena_step (Retry g m h) s"
proof -
  obtain a br where s: "s = (a, br)" by (cases s)
  show "ar_selected (fst s) \<noteq> None \<Longrightarrow> (queue_ends res (fst (arena_click AQueue s)), snd s) = arena_step (QueueSent res) s"
    by (cases "ar_selected a") (simp_all add: s arena_click_def queue_def)
  show "arena_step (Left res) (arena_click ALeave s) = arena_step (Left res) s"
    by (cases res) (simp_all add: s arena_click_def leave_def)
  show "ar_matchView (fst s) \<noteq> None \<Longrightarrow>
     (outcome_ends res (fst (arena_click (AReport r) s)), snd s) = arena_step (ReportSent res) s"
    by (cases "ar_matchView a") (simp_all add: s arena_click_def report_def)
  show "arena_step (Connected l store m h) (arena_click AConnect s) = arena_step (Connected l store m h) s"
    by (simp add: s arena_click_def connect_def request_begins_def Let_def)
  show "arena_step (Refreshed m h) (arena_click AAgain s) = arena_step (Again m h) s"
    by (simp add: s arena_click_def playedAgain_def)
  show "arena_step (Boot g m h) (arena_click ARetry s) = arena_step (Retry g m h) s"
    by (simp add: s arena_click_def)
qed

section \<open>The panels\<close>

text \<open>\<open>Math.round\<close> of a rating, as text.\<close>

definition round_text :: "js_number \<Rightarrow> string" where
  "round_text x = (case x of None \<Rightarrow> ''NaN'' | Some r \<Rightarrow> show_int \<lfloor>r + 1 / 2\<rfloor>)"

definition login_panel :: "bool \<Rightarrow> arena_action item list" where
  "login_panel busy =
     [Words ''One signature. No gas.'',
      Words ''Connect your wallet to enter ranked matchmaking. Login is a free EIP-191 signature - you sign a challenge, never a transaction.'',
      Button (if busy then ''Check your wallet...'' else ''Connect wallet'') (\<not> busy) AConnect]"

definition offline_panel :: "arena_action item list" where
  "offline_panel =
     [Words ''Maintenance'', Words ''Matchmaking is offline'',
      Words ''The matchmaker isn't reachable right now. Ranked play will be back shortly - nothing is at risk, your rating and history are safe.'',
      Button ''Retry'' True ARetry]"

definition result_panel :: "result_view \<Rightarrow> arena_action item list" where
  "result_panel r =
     [Words (result_title r), Words ''Match settled - rating updated'',
      Words (round_text (rv_ratingBefore r)), Words (round_text (rv_ratingAfter r))] @
     show_if (rv_attested r) [Words ''EIP-712 attested''] @ [Button ''Play again'' True AAgain]"

definition ruleset_choices :: "arena \<Rightarrow> arena_action item list" where
  "ruleset_choices a =
     concat (map (\<lambda>g. map (\<lambda>(r, name, depth).
         Choice (gi_name g @ '' - '' @ show_int depth @ '' in queue - '' @ name) (ar_selected a = Some (gi_id g, r)) (ASelect (gi_id g) r))
       (gi_rulesets g)) (ar_games a))"

definition rating_line :: "arena \<Rightarrow> arena_action item list" where
  "rating_line a =
     (case my_rating a of None \<Rightarrow> []
      | Some p \<Rightarrow>
          [Words ''Your rating:'', Words (round_text (pr_rating p) @ '' +-'' @ round_text (pr_deviation p)),
           Words (show_int (pr_wins p) @ ''W / '' @ show_int (pr_losses p) @ ''L / '' @ show_int (pr_draws p) @ ''D'')])"

definition window_line :: "(string \<Rightarrow> string) \<Rightarrow> arena \<Rightarrow> arena_action item list" where
  "window_line clock a =
     (case List.find (\<lambda>g. Some (gi_id g) = map_option fst (ar_selected a)) (ar_games a) of
        None \<Rightarrow> []
      | Some g \<Rightarrow>
          if no_string (gi_nextWindow g) then []
          else [Words (''Prime-time queue window: '' @ clock (the (gi_nextWindow g)) @ '' - lobbies fill fastest then.'')])"

definition history_panel :: "arena \<Rightarrow> arena_action item list" where
  "history_panel a =
     show_if (ar_history a \<noteq> []) (Words ''Match history'' #
       concat (map (\<lambda>h. [Words (take 8 (he_matchId h) @ ''...''), Words (he_state h), Words (history_label h)])
         (take 5 (ar_history a))))"

definition picker_panel :: "(string \<Rightarrow> string) \<Rightarrow> arena \<Rightarrow> arena_action item list" where
  "picker_panel clock a =
     Words ''Find a match'' # ruleset_choices a @ rating_line a @ window_line clock a @
     [Button ''Enter queue'' (\<not> ar_busy a \<and> ar_selected a \<noteq> None) AQueue,
      Words ''Free ranked play - stake AVAX modes land with on-chain escrow.''] @ history_panel a"

definition queue_panel :: "arena \<Rightarrow> arena_action item list" where
  "queue_panel a =
     (let q = ar_queueStats a
      in [Words (fmtWait (qs_waitedMs q)),
          Words (''in queue - '' @ show_int (qs_depth q) @ '' player'' @ (if qs_depth q = 1 then '''' else ''s'') @
            '' total - skill window +-'' @ show_int (qs_skillWindow q)),
          Words (''The matchmaker widens your skill window the longer you wait - tight games first, fair games '' @
            ''eventually. Empty lobby? A practice bot picks you up so you're never stuck waiting.''),
          Button ''Leave queue'' (\<not> ar_busy a) ALeave])"

definition match_panel :: "bool \<Rightarrow> match_view \<Rightarrow> arena_action item list" where
  "match_panel busy v =
     [Words (if mv_bot v then ''Practice bot ready'' else ''Match found''),
      Words ''You'', Words (round_text (mv_yourRating v)),
      Words (if mv_bot v then ''Practice Bot'' else ''Opponent''), Words (round_text (ov_rating (mv_opponent v))),
      Words (if mv_bot v then ''unrated - no stress''
        else take 6 (ov_wallet (mv_opponent v)) @ ''...'' @ drop (length (ov_wallet (mv_opponent v)) - 4) (ov_wallet (mv_opponent v))),
      Words (if mv_bot v
        then ''Play your practice game and report the result - it settles instantly and never touches your rating.''
        else ''Play your match, then both players confirm the result below. Honest reporting keeps the ladder healthy - conflicts go to arbitration.''),
      Button ''I won'' (\<not> busy) (AReport Win), Button ''Draw'' (\<not> busy) (AReport DrawResult),
      Button ''I lost'' (\<not> busy) (AReport Loss),
      Words ''Your wallet signs each report - tamper-proof evidence for rated and staked play.'']"

definition panel_items :: "(string \<Rightarrow> string) \<Rightarrow> arena \<Rightarrow> panel \<Rightarrow> arena_action item list" where
  "panel_items clock a p =
     (case p of
        LoadingPanel \<Rightarrow> [Spinner, Words ''Connecting to the matchmaker...'']
      | OfflinePanel \<Rightarrow> offline_panel
      | LoginPanel \<Rightarrow> login_panel (ar_busy a)
      | ResultPanel r \<Rightarrow> result_panel r
      | PickerPanel \<Rightarrow> picker_panel clock a
      | QueuePanel \<Rightarrow> queue_panel a
      | MatchPanel v \<Rightarrow> match_panel (ar_busy a) v
      | ReportedPanel \<Rightarrow>
          [Spinner, Words ''Result submitted'',
           Words ''Waiting for your opponent to confirm. If they go silent past the match deadline, your result stands.'']
      | DisputePanel \<Rightarrow>
          [Words ''Result disputed'',
           Words ''The two reported results disagree. The match is held for operator arbitration - you will be notified here when it resolves.''])"

definition arena_header :: "arena \<Rightarrow> arena_action item list" where
  "arena_header a =
     [Link ''AMP Arena - Ranked matchmaking'' ''/''] @
     (if no_string (ar_wallet a) then []
      else [Words (take 6 (the (ar_wallet a)) @ ''...'' @ drop (length (the (ar_wallet a)) - 4) (the (ar_wallet a))),
            Button ''Log out'' True ALogout])"

definition coming_soon :: "arena_action item list" where
  "coming_soon =
     [Words ''Coming Soon'', Words ''Ranked matchmaking is almost here'',
      Words ''The arena is being prepared. Check back soon to connect your wallet, queue up, and climb the ladder.'',
      Link ''Back to home'' ''/'']"

definition arena_view :: "(string \<Rightarrow> string) \<Rightarrow> bool \<Rightarrow> arena \<Rightarrow> arena_action item list" where
  "arena_view clock misconfigured a =
     (if misconfigured then coming_soon
      else arena_header a @ (if no_string (ar_error a) then [] else [Words (the (ar_error a))]) @
        concat (map (panel_items clock a) (panels a)))"

section \<open>What is offered\<close>

lemma rating_line_quiet [quiet]: "offered (rating_line a) = []"
  by (simp only: rating_line_def quiet_rules split: option.split) simp

lemma window_line_quiet [quiet]: "offered (window_line clock a) = []"
  by (simp add: window_line_def split: option.split)

lemma history_panel_quiet [quiet]: "offered (history_panel a) = []"
  by (simp add: history_panel_def offered_concat comp_def)

lemma ruleset_choices_offers:
  "set (offered (ruleset_choices a)) = {ASelect (gi_id g) r | g r. g \<in> set (ar_games a) \<and> r \<in> fst ` set (gi_rulesets g)}"
proof -
  have "set (offered (map (\<lambda>(r, name, depth). Choice (f name depth) (p r) (ASelect i r)) rs)) = ASelect i ` fst ` set rs"
    for f p i and rs :: "(string \<times> string \<times> int) list" by (induction rs) auto
  then show ?thesis by (auto simp: ruleset_choices_def offered_concat)
qed

lemma panel_offers:
  "offered (panel_items clock a LoadingPanel) = []" "offered (panel_items clock a OfflinePanel) = [ARetry]"
  "offered (panel_items clock a LoginPanel) = (if ar_busy a then [] else [AConnect])"
  "offered (panel_items clock a (ResultPanel r)) = [AAgain]"
  "offered (panel_items clock a PickerPanel) =
     offered (ruleset_choices a) @ (if \<not> ar_busy a \<and> ar_selected a \<noteq> None then [AQueue] else [])"
  "offered (panel_items clock a QueuePanel) = (if ar_busy a then [] else [ALeave])"
  "offered (panel_items clock a (MatchPanel v)) = (if ar_busy a then [] else [AReport Win, AReport DrawResult, AReport Loss])"
  "offered (panel_items clock a ReportedPanel) = []" "offered (panel_items clock a DisputePanel) = []"
proof -
  have "offered (Button w b x # ys) = (if b then x # offered ys else offered ys)" for w b x and ys :: "arena_action item list" by simp
  note items = quiet_rules this Let_def not_not
  show "offered (panel_items clock a LoadingPanel) = []" "offered (panel_items clock a OfflinePanel) = [ARetry]"
    "offered (panel_items clock a LoginPanel) = (if ar_busy a then [] else [AConnect])"
    "offered (panel_items clock a (ResultPanel r)) = [AAgain]"
    "offered (panel_items clock a QueuePanel) = (if ar_busy a then [] else [ALeave])"
    "offered (panel_items clock a ReportedPanel) = []" "offered (panel_items clock a DisputePanel) = []"
    unfolding panel_items_def panel.case offline_panel_def login_panel_def result_panel_def queue_panel_def
    by (simp_all only: items if_not_P split: if_split) simp_all
  show "offered (panel_items clock a (MatchPanel v)) = (if ar_busy a then [] else [AReport Win, AReport DrawResult, AReport Loss])"
    unfolding panel_items_def panel.case match_panel_def by (cases "ar_busy a") (simp_all only: items if_True if_False simp_thms)
  show "offered (panel_items clock a PickerPanel) =
      offered (ruleset_choices a) @ (if \<not> ar_busy a \<and> ar_selected a \<noteq> None then [AQueue] else [])"
    unfolding panel_items_def panel.case picker_panel_def
    by (simp only: items rating_line_quiet window_line_quiet history_panel_quiet append_Nil append_Nil2)
qed

lemma arena_offers:
  "set (offered (arena_view clock False a)) =
     (if no_string (ar_wallet a) then {} else {ALogout}) \<union> (\<Union>p \<in> set (panels a). set (offered (panel_items clock a p)))"
proof -
  have "offered (arena_header a) = (if no_string (ar_wallet a) then [] else [ALogout])"
    unfolding arena_header_def by (simp only: quiet_rules append.simps split: if_split) simp
  moreover have "offered (if no_string (ar_error a) then [] else [Words (the (ar_error a)) :: arena_action item]) = []" by simp
  ultimately show ?thesis
    by (simp only: arena_view_def quiet_rules if_False offered_concat set_append set_concat set_map image_image) auto
qed

lemma no_entries: "entries (arena_view clock False a) = []"
proof -
  have "entries (panel_items clock a p) = []" for p
    unfolding panel_items_def offline_panel_def login_panel_def result_panel_def picker_panel_def queue_panel_def match_panel_def
      rating_line_def window_line_def history_panel_def ruleset_choices_def Let_def
    by (cases p) (simp_all add: entries_concat comp_def case_prod_unfold split: option.split, auto simp: entries_def show_if_def)
  moreover have "entries (arena_header a) = []"
    unfolding arena_header_def by (simp only: quiet_rules append.simps split: if_split) simp
  moreover have "entries (if no_string (ar_error a) then [] else [Words (the (ar_error a)) :: arena_action item]) = []" by simp
  ultimately show ?thesis
    by (simp only: arena_view_def quiet_rules if_False entries_concat) simp
qed

lemma misconfigured_offers: "offered (arena_view clock True a) = []"
  unfolding arena_view_def coming_soon_def by (simp only: quiet_rules if_True)

section \<open>Dead ends\<close>

definition dead_end :: "arena \<Rightarrow> bool" where
  "dead_end a =
     (case ar_phase a of
        Loading \<Rightarrow> \<not> ar_offline a
      | LoggedOut \<Rightarrow> ar_busy a
      | Idle \<Rightarrow> ar_games a = [] \<or> (\<forall>g \<in> set (ar_games a). gi_rulesets g = []) \<and> (ar_busy a \<or> ar_selected a = None)
      | ShowResult \<Rightarrow> ar_games a = [] \<or>
          ar_resultView a = None \<and> (\<forall>g \<in> set (ar_games a). gi_rulesets g = []) \<and> (ar_busy a \<or> ar_selected a = None)
      | InQueue \<Rightarrow> ar_busy a
      | MatchFound \<Rightarrow> ar_matchView a = None \<or> ar_busy a
      | Reported \<Rightarrow> True
      | InDispute \<Rightarrow> True)"

text \<open>C36. The page leaves the player nothing to do but to log out in exactly these states: while it loads, while a
  request is out, in a match it has no view of, when no ruleset is on the list, and after a report or in
  a dispute, until the server sends a message.\<close>

theorem arena_dead_ends: "set (offered (arena_view clock False a)) \<subseteq> {ALogout} \<longleftrightarrow> dead_end a"
proof -
  have no_choice: "offered (ruleset_choices a) = [] \<longleftrightarrow> (\<forall>g \<in> set (ar_games a). gi_rulesets g = [])"
  proof -
    have "offered (map (\<lambda>(r, name, depth). Choice (f name depth) (p r) (ASelect i r)) rs) = [] \<longleftrightarrow> rs = []"
      for f p i and rs :: "(string \<times> string \<times> int) list" by (cases rs) auto
    then show ?thesis by (simp add: ruleset_choices_def offered_concat)
  qed
  have "ALogout \<notin> set (offered (ruleset_choices a))" by (auto simp: ruleset_choices_offers)
  then have choices: "set (offered (ruleset_choices a)) \<subseteq> {ALogout} \<longleftrightarrow> (\<forall>g \<in> set (ar_games a). gi_rulesets g = [])"
    unfolding no_choice [symmetric] by (cases "offered (ruleset_choices a)") auto
  show ?thesis
    by (cases "ar_phase a"; cases "ar_resultView a"; cases "ar_matchView a"; cases "ar_games a")
      (auto simp: arena_offers panels_def panel_offers dead_end_def choices)
qed

section \<open>A page without games\<close>

definition without_games :: "arena \<times> browser \<Rightarrow> bool" where
  "without_games s \<longleftrightarrow> ar_games (fst s) = [] \<and> ar_selected (fst s) = None \<and> \<not> ar_offline (fst s)"

lemma refreshMe_games [simp]:
  "ar_games (fst (refreshMe m h s)) = ar_games (fst s)" "ar_selected (fst (refreshMe m h s)) = ar_selected (fst s)"
  by (simp_all add: refreshMe_def refresh_failed_def me_loaded_def Let_def split: sum.split)

lemma step_without_games: "\<not> boots e \<Longrightarrow> without_games s \<Longrightarrow> without_games (arena_step e s)"
  by (cases s; cases e)
    (auto simp: without_games_def boots_def on_message_def connect_def logout_def refresh_failed_def queue_def
      queue_ends_def leave_def report_def outcome_ends_def request_begins_def playedAgain_def tick_def case_prod_unfold Let_def
      split: ws_message.split sum.split)

lemma env_without_games: "arena_env s s' \<Longrightarrow> without_games s \<Longrightarrow> without_games s'"
  unfolding arena_env_def
  by (auto intro: step_without_games) (auto simp: without_games_def queue_ends_def outcome_ends_def split: sum.split)

lemma without_games_offers:
  assumes "without_games s" "act \<in> set (offered (arena_view clock False (fst s)))"
  shows "\<not> (\<exists>g r. act = ASelect g r) \<and> act \<noteq> AQueue \<and> act \<noteq> ARetry"
  using assms by (auto simp: arena_offers panels_def panel_offers without_games_def split: if_splits option.splits)

interpretation arena: page "\<lambda>s. arena_view clock False (fst s)" arena_click arena_env without_games
proof
  fix s s' act f and input :: string
  show "without_games (arena_click act s)" if "without_games s" "act \<in> set (offered (arena_view clock False (fst s)))"
    using that without_games_offers [OF that]
    by (cases act) (auto simp: arena_click_def without_games_def request_begins_def logout_def refresh_failed_def)
  show "without_games s'" if "without_games s" "arena_env s s'" using that env_without_games by blast
  show "without_games (arena_click (f input) s)" if "f \<in> set (entries (arena_view clock False (fst s)))"
    using that by (simp only: no_entries) simp
qed


text \<open>The list of games is loaded only by \<open>boot\<close>, which swallows a failure. When that one request fails, no use of
  the page and no message of the server ever offers a ruleset or the queue again: an idle player, signed in, is
  shown no panel at all until the page is reloaded.\<close>

theorem failed_games_end_queueing:
  assumes "(ui_step (\<lambda>s. arena_view clock False (fst s)) arena_click arena_env)\<^sup>*\<^sup>*
      (arena_step (Boot (Inl e) me h) (arena_start, br)) s"
  shows "ASelect g r \<notin> set (offered (arena_view clock False (fst s))) \<and> AQueue \<notin> set (offered (arena_view clock False (fst s))) \<and>
    (ar_phase (fst s) \<in> {Idle, ShowResult} \<longrightarrow> panels (fst s) = [])"
proof -
  have "without_games (arena_step (Boot (Inl e) me h) (arena_start, br))"
    by (simp add: without_games_def boot_alt refreshGames_def Let_def arena_start_def)
  with assms have inv: "without_games s" using arena.reach_inv by blast
  then have "panels (fst s) = []" if "ar_phase (fst s) \<in> {Idle, ShowResult}"
    using that by (auto simp: without_games_def panels_def split: option.split)
  with without_games_offers [OF inv] show ?thesis by blast
qed

theorem failed_games_end_queueing_witness:
  "panels (fst (arena_step (Boot (Inl demo_failure) (Inr (demo_me None)) (Inr [])) (arena_start, demo_signed_in))) = []"
proof -
  define s where "s = arena_step (Boot (Inl demo_failure) (Inr (demo_me None)) (Inr [])) (arena_start, demo_signed_in)"
  have "storedSession demo_signed_in \<noteq> None"
    by (simp add: demo_signed_in_def storedSession_def demo_browser_def no_string_def)
  then have "ar_phase (fst s) = Idle"
    by (simp add: s_def boot_alt Let_def refreshMe_def me_loaded_def demo_me_def no_string_def)
  moreover have "(ui_step (\<lambda>s. arena_view (\<lambda>x. x) False (fst s)) arena_click arena_env)\<^sup>*\<^sup>* s s" by simp
  note failed_games_end_queueing [OF this [unfolded s_def(1)], folded s_def]
  ultimately show ?thesis by (simp add: s_def)
qed

end
