(* ===== verification/Pages.thy ===== *)
theory Pages
  imports Arena
begin

text \<open>
  The pages that show and drive a bracket: the organizer's console \<open>app/manage/[id]/page.tsx\<close>, the
  player's console \<open>app/play/[id]/page.tsx\<close> and the spectator's view \<open>app/cup/[id]/page.tsx\<close>. Each
  replays the stored results on its own copy of the engine. What is drawn is a data value: which
  panels and cards there are and what they say.
\<close>

section \<open>The copies of the replay\<close>

definition outcomeOf :: "string \<Rightarrow> outcome" where
  "outcomeOf o1 =
     (if o1 = ''B'' then OutB else if o1 = ''Draw'' then OutDraw else if o1 = ''Void'' then OutVoid else OutA)"

definition manage_reconstruct :: "bracket_state option \<Rightarrow> tournament option engine" where
  "manage_reconstruct b =
     (case b of None \<Rightarrow> Inr None
      | Some b \<Rightarrow>
          bind_result (new_tournament (formatOf b) (entrants_of b)) (\<lambda>t.
          bind_result (fold_result (\<lambda>r t. record_result (mr_matchId r) (outcomeOf (mr_outcome r)) t) (b_results b) t)
            (\<lambda>t. Inr (Some t))))"

definition play_reconstruct :: "bracket_state option \<Rightarrow> tournament option engine" where
  "play_reconstruct b =
     (case b of None \<Rightarrow> Inr None
      | Some b \<Rightarrow>
          bind_result (new_tournament (formatOf b) (entrants_of b)) (\<lambda>t.
          bind_result (fold_result (\<lambda>r t.
              let o1 = (if mr_outcome r = ''B'' then OutB else if mr_outcome r = ''Draw'' then OutDraw else OutA)
              in record_result (mr_matchId r) o1 t) (b_results b) t)
            (\<lambda>t. Inr (Some t))))"

text \<open>\<open>m.set(p.id, p)\<close> for every player.\<close>

definition playerById :: "player list \<Rightarrow> (int \<times> player) list" where
  "playerById ps = foldl (\<lambda>m p. AList.update (p_id p) p m) [] ps"

definition player_of :: "player list \<Rightarrow> int \<Rightarrow> player option" where
  "player_of ps i = map_of (playerById ps) i"

text \<open>\<open>[...new Set(matches.map((m) => m.round))].sort(...)\<close>\<close>

definition rounds_of :: "tournament \<Rightarrow> int list" where
  "rounds_of t = sort (remdups (map (\<lambda>m. int (m_round m)) (matches t)))"

section \<open>The organizer's console\<close>

record manage_state =
  mg_record :: "tournament_record option"
  mg_bracket :: "bracket_state option"
  mg_loading :: bool
  mg_busy :: "string option"
  mg_error :: "string option"
  mg_token :: "string option"

definition isCustodial :: "manage_state \<Rightarrow> bool" where
  "isCustodial s = (case mg_record s of None \<Rightarrow> False | Some rec \<Rightarrow> \<not> no_string (r_paypalOrderId rec))"

definition isFinalized :: "manage_state \<Rightarrow> bool" where
  "isFinalized s \<longleftrightarrow>
     (case mg_bracket s of None \<Rightarrow> False | Some b \<Rightarrow> b_finalized b = Some True) \<or>
     (case mg_record s of None \<Rightarrow> False | Some rec \<Rightarrow> r_state rec = FINALIZED \<or> r_state rec = COMPLETE)"

definition placements :: "manage_state \<Rightarrow> nat" where
  "placements s = (case mg_record s of None \<Rightarrow> 0 | Some rec \<Rightarrow> length (r_payoutBps rec))"

definition page_wallets :: "nat \<Rightarrow> player list \<Rightarrow> int list \<Rightarrow> string list" where
  "page_wallets n ps ids =
     map (\<lambda>i. case player_of ps i of None \<Rightarrow> '''' | Some p \<Rightarrow> p_wallet p) (take n ids)"

text \<open>The wallets the page shows and, on the wallet path, has signed.\<close>

definition winnerWallets :: "manage_state \<Rightarrow> string list engine" where
  "winnerWallets s =
     bind_result (manage_reconstruct (mg_bracket s)) (\<lambda>t.
       case t of None \<Rightarrow> Inr []
       | Some t \<Rightarrow> bind_result (winners t) (\<lambda>ids.
           Inr (page_wallets (placements s) (case mg_bracket s of None \<Rightarrow> [] | Some b \<Rightarrow> b_players b) ids)))"

text \<open>\<open>persist\<close>: the page keeps the bracket and sends it with the token it has and the length of its text.\<close>

definition put_of :: "int \<Rightarrow> string option \<Rightarrow> bracket_state \<Rightarrow> put_request" where
  "put_of tid token b =
     \<lparr>u_contentLength = Some (body_length (bracket_json b)), u_tid = Some tid,
      u_auth = (if no_string token then None else Some (''Bearer '' @ the token)),
      u_format = Some (b_format b), u_swissRounds = b_swissRounds b, u_players = Some (b_players b),
      u_results = Some (b_results b), u_finalized = b_finalized b, u_computedWinners = b_computedWinners b,
      u_reports = b_reports b, u_disputes = b_disputes b\<rparr>"

definition persist :: "int \<Rightarrow> bracket_state \<Rightarrow> manage_state \<Rightarrow> manage_state \<times> put_request" where
  "persist tid b s = (s\<lparr>mg_bracket := Some b\<rparr>, put_of tid (mg_token s) b)"

definition outcome_text :: "outcome \<Rightarrow> string" where
  "outcome_text o1 = (case o1 of OutA \<Rightarrow> ''A'' | OutB \<Rightarrow> ''B'' | OutDraw \<Rightarrow> ''Draw'' | OutVoid \<Rightarrow> ''Void'')"

definition recordResult :: "int \<Rightarrow> match_id \<Rightarrow> outcome \<Rightarrow> manage_state \<Rightarrow> manage_state \<times> put_request option" where
  "recordResult tid matchId o1 s =
     (case mg_bracket s of None \<Rightarrow> (s, None)
      | Some b \<Rightarrow>
          (let (s', q) = persist tid (b\<lparr>b_results := b_results b @ [\<lparr>mr_matchId = matchId, mr_outcome = outcome_text o1\<rparr>]\<rparr>) s
           in (s', Some q)))"

text \<open>
  A polling loop: at most \<open>n\<close> more requests, the \<open>i\<close>-th answered by \<open>get i\<close>; the body stops the
  loop with a value, goes on, or throws. A reply without a status is \<open>None\<close>.
\<close>

fun poll_loop :: "(nat \<Rightarrow> ('e, 'j) result) \<Rightarrow> ('j \<Rightarrow> ('e, 'a option) result) \<Rightarrow> nat \<Rightarrow> nat \<Rightarrow> ('e, 'a option) result" where
  "poll_loop get body i 0 = Inr None"
| "poll_loop get body i (Suc n) =
     bind_result (get i) (\<lambda>j. bind_result (body j) (\<lambda>r.
       case r of Some a \<Rightarrow> Inr (Some a) | None \<Rightarrow> poll_loop get body (Suc i) n))"

definition finalize_poll :: "relayer_job option \<Rightarrow> (string, string option option) result" where
  "finalize_poll j =
     (case j of None \<Rightarrow> Inr None
      | Some j \<Rightarrow>
          (case rj_status j of
             JobDone \<Rightarrow> Inr (Some (rj_txHash j))
           | Failed \<Rightarrow> Inl ''relayer finalize failed''
           | Pending \<Rightarrow> Inr None))"

text \<open>The custodial branch of \<open>finalize\<close>: the reply of the finalize route, then the polls, then the bracket
  the page had is stored as finalized. The wallet branch gives \<open>None\<close> or the exception of the wallet.\<close>

datatype finalize_reply = FinOk "int option" | FinError "string option"

definition finalize_page ::
  "int \<Rightarrow> (string, finalize_reply) result \<Rightarrow> (nat \<Rightarrow> (string, relayer_job option) result) \<Rightarrow> (string, string option) result \<Rightarrow>
     manage_state \<Rightarrow> manage_state \<times> put_request option" where
  "finalize_page tid reply get sent s =
     (let ws = (case winnerWallets s of Inl _ \<Rightarrow> [] | Inr ws \<Rightarrow> ws)
      in case mg_record s of
        None \<Rightarrow> (s, None)
      | Some rec \<Rightarrow>
          if ws = [] then (s, None)
          else
            (let s0 = s\<lparr>mg_error := None\<rparr>;
                 paid = (if isCustodial s
                   then bind_result reply (\<lambda>r.
                     case r of
                       FinError msg \<Rightarrow> Inl (or_string msg ''finalize failed'')
                     | FinOk jobId \<Rightarrow>
                         if no_number jobId then Inr s0
                         else bind_result (poll_loop get finalize_poll 0 30) (\<lambda>r.
                           Inr (case r of None \<Rightarrow> s0
                                | Some tx \<Rightarrow> s0\<lparr>mg_record := Some (rec\<lparr>r_state := FINALIZED, r_txHash := tx\<rparr>)\<rparr>)))
                   else bind_result sent (\<lambda>tx.
                     Inr (s0\<lparr>mg_record := Some (rec\<lparr>r_state := FINALIZED, r_txHash := tx, r_winnerWallets := ws\<rparr>)\<rparr>)))
             in case paid of
                  Inl e \<Rightarrow> (s0\<lparr>mg_error := Some e\<rparr>, None)
                | Inr s1 \<Rightarrow>
                    (case mg_bracket s1 of None \<Rightarrow> (s1, None)
                     | Some b \<Rightarrow> (let (s2, q) = persist tid (b\<lparr>b_finalized := Some True\<rparr>) s1 in (s2, Some q)))))"

definition manage_round_label :: "bracket_format \<Rightarrow> int list \<Rightarrow> int \<Rightarrow> string" where
  "manage_round_label fmt rounds r =
     (if fmt = F_round_robin \<or> fmt = F_swiss then ''Round '' @ show_int (r + 1)
      else if rounds \<noteq> [] \<and> r = last rounds then ''Final''
      else if 2 \<le> length rounds \<and> r = rounds ! (length rounds - 2) then ''Semifinals''
      else ''Round '' @ show_int (r + 1))"

text \<open>A card of the console: the name on each side (\<open>None\<close> is drawn as a bye), the winning side, whether
  the win buttons are there, whether it is marked disputed, whether it says draw.\<close>

record match_card =
  mc_a :: "string option"
  mc_b :: "string option"
  mc_winner :: "side option"
  mc_live :: bool
  mc_disputed :: bool
  mc_draw :: bool

definition side_name :: "player list \<Rightarrow> entrant option \<Rightarrow> string option" where
  "side_name ps e = (case e of None \<Rightarrow> None | Some e \<Rightarrow> map_option p_name (player_of ps (ent_id e)))"

definition manage_card :: "bracket_state \<Rightarrow> tournament \<Rightarrow> bracket_match \<Rightarrow> match_card" where
  "manage_card b t m =
     \<lparr>mc_a = side_name (b_players b) (m_a m), mc_b = side_name (b_players b) (m_b m),
      mc_winner = (case m_outcome m of None \<Rightarrow> None | Some o1 \<Rightarrow> outcomeWinner o1),
      mc_live = (m_id m \<in> set (pending t)), mc_disputed = (m_id m \<in> set (or_empty (b_disputes b))),
      mc_draw = (m_outcome m = Some OutDraw)\<rparr>"

text \<open>The panel below a complete bracket: the paid places, and the claim links once finalized.\<close>

definition ordinals :: "string list" where
  "ordinals = [''1st'', ''2nd'', ''3rd'', ''4th'']"

definition ordinal :: "nat \<Rightarrow> string option" where
  "ordinal i = (if i < length ordinals then Some (ordinals ! i) else None)"

definition finalize_rows :: "manage_state \<Rightarrow> int list \<Rightarrow> (string option \<times> string option \<times> string option) list" where
  "finalize_rows s ids =
     (let ps = (case mg_bracket s of None \<Rightarrow> [] | Some b \<Rightarrow> b_players b)
      in map (\<lambda>(i, pid). (ordinal i, map_option p_name (player_of ps pid), map_option p_wallet (player_of ps pid)))
           (enumerate 0 (take (placements s) ids)))"

definition claim_links :: "manage_state \<Rightarrow> (nat \<times> string option) list" where
  "claim_links s =
     (case mg_record s of None \<Rightarrow> []
      | Some rec \<Rightarrow>
          if isFinalized s then map (\<lambda>i. (i, ordinal i)) [0..<min (placements s) (length (r_winnerWallets rec))] else [])"

section \<open>The player's console\<close>

definition page_me :: "bracket_state \<Rightarrow> string option \<Rightarrow> player option" where
  "page_me b wallet =
     (if no_string wallet then None
      else List.find (\<lambda>p. toLowerCase (p_wallet p) = toLowerCase (the wallet)) (b_players b))"

definition myMatch :: "tournament \<Rightarrow> player \<Rightarrow> bracket_match option" where
  "myMatch t me =
     List.find (\<lambda>m. m_id m \<in> set (pending t) \<and>
       (map_option ent_id (m_a m) = Some (p_id me) \<or> map_option ent_id (m_b m) = Some (p_id me))) (matches t)"

definition mySide :: "bracket_match \<Rightarrow> player \<Rightarrow> report_side option" where
  "mySide m me =
     (if map_option ent_id (m_a m) = Some (p_id me) then Some RA
      else if map_option ent_id (m_b m) = Some (p_id me) then Some RB else None)"

definition page_opponent :: "bracket_state \<Rightarrow> bracket_match \<Rightarrow> report_side \<Rightarrow> player option" where
  "page_opponent b m s =
     (case (case s of RA \<Rightarrow> m_b m | RB \<Rightarrow> m_a m) of None \<Rightarrow> None | Some e \<Rightarrow> player_of (b_players b) (ent_id e))"

datatype play_outcome = PlayA | PlayB | PlayDraw

definition play_text :: "play_outcome \<Rightarrow> string" where
  "play_text o1 = (case o1 of PlayA \<Rightarrow> ''A'' | PlayB \<Rightarrow> ''B'' | PlayDraw \<Rightarrow> ''Draw'')"

definition side_outcome :: "report_side \<Rightarrow> play_outcome" where
  "side_outcome s = (case s of RA \<Rightarrow> PlayA | RB \<Rightarrow> PlayB)"

definition reported :: "report_side \<Rightarrow> play_outcome \<Rightarrow> play_outcome" where
  "reported s o1 =
     (if o1 = PlayDraw then PlayDraw
      else if o1 = side_outcome s then side_outcome s
      else if s = RA then PlayB else PlayA)"

text \<open>The request \<open>report\<close> sends; \<open>sign\<close> is the wallet, \<open>nonce\<close> a fresh identifier.\<close>

definition page_report :: "int \<Rightarrow> string \<Rightarrow> (string \<Rightarrow> string) \<Rightarrow> string \<Rightarrow> int \<Rightarrow> bracket_match \<Rightarrow> report_side \<Rightarrow> play_outcome \<Rightarrow>
    report_request" where
  "page_report tid wallet sign nonce ts m s o1 =
     (let out = play_text (reported s o1);
          sig = sign (report_message tid (m_id m) out nonce ts)
      in \<lparr>q_contentLength = Some (body_length (JObject [(''wallet'', JStr wallet), (''matchId'', JInt (m_id m)),
            (''outcome'', JStr out), (''nonce'', JStr nonce), (''ts'', JInt ts), (''sig'', JStr sig)])),
          q_tid = Some tid, q_wallet = Some wallet, q_matchId = Some (m_id m),
          q_outcome = Some out, q_nonce = Some nonce, q_ts = Some ts, q_sig = Some sig\<rparr>)"

section \<open>The spectator's view\<close>

text \<open>A poll every five seconds: the reply holds a bracket or not; when it cannot be fetched or read
  (\<open>None\<close>) the last bracket stays.\<close>

definition cup_load :: "bracket_state option option \<Rightarrow> bracket_state option \<Rightarrow> bracket_state option" where
  "cup_load res shown = (case res of Some b \<Rightarrow> b | None \<Rightarrow> shown)"

definition cup_champion :: "bracket_state \<Rightarrow> tournament \<Rightarrow> player option engine" where
  "cup_champion b t =
     (if isComplete t
      then bind_result (winners t) (\<lambda>ids. Inr (if ids = [] then None else player_of (b_players b) (hd ids)))
      else Inr None)"

definition cup_round_label :: "bracket_format \<Rightarrow> int \<Rightarrow> int \<Rightarrow> string" where
  "cup_round_label fmt total_rounds r =
     (if fmt \<noteq> F_single_elimination then ''Round '' @ show_int (r + 1)
      else if r = total_rounds - 1 then ''Final''
      else if r = total_rounds - 2 then ''Semifinals''
      else if r = total_rounds - 3 then ''Quarterfinals''
      else ''Round '' @ show_int (r + 1))"

text \<open>A card: each side with name and seed (\<open>None\<close> is a bye), whether it won or lost, whether it is live.\<close>

record cup_row =
  cu_player :: "(string \<times> int) option"
  cu_won :: bool
  cu_lost :: bool

definition cup_rows :: "bracket_state \<Rightarrow> bracket_match \<Rightarrow> cup_row list" where
  "cup_rows b m =
     (let side = (\<lambda>e. case e of None \<Rightarrow> None
          | Some e \<Rightarrow> map_option (\<lambda>p. (p_name p, p_seed p)) (player_of (b_players b) (ent_id e)));
          a_won = (m_outcome m = Some OutA); b_won = (m_outcome m = Some OutB)
      in [\<lparr>cu_player = side (m_a m), cu_won = a_won, cu_lost = b_won\<rparr>,
          \<lparr>cu_player = side (m_b m), cu_won = b_won, cu_lost = a_won\<rparr>])"

definition cup_columns :: "bracket_state \<Rightarrow> tournament \<Rightarrow> (string \<times> (cup_row list \<times> bool) list) list" where
  "cup_columns b t =
     map (\<lambda>r. (cup_round_label (b_format b) (int (length (rounds_of t))) r,
        map (\<lambda>m. (cup_rows b m, m_id m \<in> set (pending t))) (filter (\<lambda>m. int (m_round m) = r) (matches t)))) (rounds_of t)"

text \<open>The final standings: the winners with their place; a winner without a player is left out.\<close>

definition cup_standings :: "bracket_state \<Rightarrow> tournament \<Rightarrow> (nat \<times> string \<times> string) list engine" where
  "cup_standings b t =
     (if isComplete t
      then bind_result (winners t) (\<lambda>ids.
        Inr (List.map_filter (\<lambda>(i, pid). map_option (\<lambda>p. (i + 1, p_name p, p_wallet p)) (player_of (b_players b) pid))
          (enumerate 0 ids)))
      else Inr [])"

section \<open>The replays agree\<close>

lemma replay_results: "replay (map (\<lambda>r. (mr_matchId r, f (mr_outcome r))) rs) t =
    fold_result (\<lambda>r t. record_result (mr_matchId r) (f (mr_outcome r)) t) rs t"
  unfolding replay_def
proof (induction rs arbitrary: t)
  case (Cons r rs)
  have "fold_result (\<lambda>(i, out). record_result i out) (map (\<lambda>r. (mr_matchId r, f (mr_outcome r))) rs) =
      fold_result (\<lambda>r. record_result (mr_matchId r) (f (mr_outcome r))) rs"
    by (rule ext) (simp add: Cons.IH)
  then show ?case by simp
qed simp

lemma play_replay: "play_reconstruct (Some b) = bind_result (reconstruct b) (\<lambda>t. Inr (Some t))"
proof -
  have "replay (engine_results rs) t = fold_result (\<lambda>r t.
      let o1 = (if mr_outcome r = ''B'' then OutB else if mr_outcome r = ''Draw'' then OutDraw else OutA)
      in record_result (mr_matchId r) o1 t) rs t" for rs t
    using replay_results [of engine_outcome rs t] by (simp add: engine_results_def engine_outcome_def Let_def)
  then show ?thesis
    by (cases "new_tournament (formatOf b) (entrants_of b)") (simp_all add: play_reconstruct_def reconstruct_def)
qed

lemma manage_replay: "manage_reconstruct (Some b) =
    bind_result (bind_result (new_tournament (formatOf b) (entrants_of b))
      (replay (map (\<lambda>r. (mr_matchId r, outcomeOf (mr_outcome r))) (b_results b)))) (\<lambda>t. Inr (Some t))"
  by (cases "new_tournament (formatOf b) (entrants_of b)") (simp_all add: manage_reconstruct_def replay_results)

lemma no_void_results:
  assumes "''Void'' \<notin> mr_outcome ` set (b_results b)"
  shows "map (\<lambda>r. (mr_matchId r, outcomeOf (mr_outcome r))) (b_results b) = engine_results (b_results b)"
proof -
  have "outcomeOf (mr_outcome r) = engine_outcome (mr_outcome r)" if "r \<in> set (b_results b)" for r
  proof -
    have "mr_outcome r \<noteq> ''Void''"
    proof
      assume "mr_outcome r = ''Void''"
      with imageI [OF that, of mr_outcome] assms show False by simp
    qed
    then show ?thesis by (simp add: outcomeOf_def engine_outcome_def)
  qed
  then show ?thesis by (simp add: engine_results_def)
qed

text \<open>C32. The pages and the server see the same tournament as long as no result is void: the player's and
  the spectator's replay is the server's, and the organizer's replay differs only in reading
  \<open>Void\<close> as void where the others read a win of side A.\<close>

theorem pages_agree:
  "play_reconstruct (Some b) = bind_result (reconstruct b) (\<lambda>t. Inr (Some t)) \<and>
   (''Void'' \<notin> mr_outcome ` set (b_results b) \<longrightarrow> manage_reconstruct (Some b) = play_reconstruct (Some b))"
proof -
  show ?thesis using no_void_results [of b] by (simp add: play_replay manage_replay reconstruct_def)
qed

definition duo_bracket :: "string \<Rightarrow> bracket_state" where
  "duo_bracket o1 = (init_bracket duo_init)\<lparr>b_results := [\<lparr>mr_matchId = 1, mr_outcome = o1\<rparr>]\<rparr>"

theorem pages_agree_witness: "manage_reconstruct (Some (duo_bracket ''A'')) = play_reconstruct (Some (duo_bracket ''A''))"
  using pages_agree [of "duo_bracket ''A''"] by (simp add: duo_bracket_def)

text \<open>A void result splits the views: for one and the same stored bracket the server pays a champion, and
  the organizer's console shows a complete cup without one.\<close>

theorem void_splits_views:
  "bind_result (reconstruct (duo_bracket ''Void'')) (\<lambda>t. Inr (champion t, isComplete t)) = Inr (Some 0, True) \<and>
   bind_result (manage_reconstruct (Some (duo_bracket ''Void'')))
     (\<lambda>t. Inr (map_option (\<lambda>t. (champion t, isComplete t)) t)) = Inr (Some (None, True))"
  by (rule conjI; code_simp)

section \<open>The wallets agree\<close>

lemma playerById_distinct: "distinct (map p_id ps) \<Longrightarrow> playerById ps = map (\<lambda>p. (p_id p, p)) ps"
  using foldl_update_keys [of p_id ps "[]" "\<lambda>p. p"] by (simp add: playerById_def)

lemma player_of_find:
  assumes "distinct (map p_id ps)"
  shows "player_of ps i = List.find (\<lambda>p. p_id p = i) ps"
proof -
  have "map_of (map (\<lambda>p. (p_id p, p)) ps) i = List.find (\<lambda>p. p_id p = i) ps" for ps :: "player list"
    by (induction ps) auto
  then show ?thesis by (simp add: player_of_def playerById_distinct [OF assms])
qed

lemma reconstruct_distinct: "reconstruct b = Inr t \<Longrightarrow> distinct (map p_id (b_players b))"
  using reachable_inv [OF reconstruct_reachable, of b t]
  by (auto simp: driver_inv_def idsUnique_iff entrants_of_def comp_def)

lemma derived_wallets:
  assumes "derive_winners (placements s) b = Ok ws" "mg_bracket s = Some b" "''Void'' \<notin> mr_outcome ` set (b_results b)"
  shows "winnerWallets s = Inr ws"
proof -
  from assms(1) obtain t ids where 1: "reconstruct b = Inr t" "winners t = Inr ids"
    "ws = winner_wallets (placements s) (b_players b) ids" "length ws = placements s" by (rule derive_winners_Ok)
  have "manage_reconstruct (Some b) = Inr (Some t)"
    using 1(1) no_void_results [OF assms(3)] by (simp add: manage_replay reconstruct_def)
  moreover have "page_wallets (placements s) (b_players b) ids = map (wallet_of (b_players b)) (take (placements s) ids)"
    using player_of_find [OF reconstruct_distinct [OF 1(1)]]
    by (simp add: page_wallets_def wallet_of_def)
  moreover have "ws = map (wallet_of (b_players b)) (take (placements s) ids)"
    using winner_wallets_full [of "placements s" "b_players b" ids] 1(3,4) by simp
  ultimately show ?thesis using assms(2) 1(2) by (simp add: winnerWallets_def)
qed

text \<open>The console shows, and on the wallet path signs, exactly the wallets the server would pay: when the
  server derives the winners of a bracket without void results, the page lists the same ones.\<close>

theorem page_wallets_match:
  assumes "derive_winners (placements s) b = Ok ws" "mg_bracket s = Some b" "''Void'' \<notin> mr_outcome ` set (b_results b)"
  shows "winnerWallets s = Inr ws"
  using assms by (rule derived_wallets)

definition duo_console :: manage_state where
  "duo_console = \<lparr>mg_record = Some duo_rec, mg_bracket = Some (put_bracket duo_put), mg_loading = False, mg_busy = None,
     mg_error = None, mg_token = Some (generateManageToken duo_buf)\<rparr>"

theorem page_wallets_match_witness: "winnerWallets duo_console = Inr [''0xa0'']"
proof (rule page_wallets_match)
  show "derive_winners (placements duo_console) (put_bracket duo_put) = Ok [''0xa0'']"
    using duo_winners by (simp add: placements_def duo_console_def)
  show "mg_bracket duo_console = Some (put_bracket duo_put)" by (simp add: duo_console_def)
qed (simp add: put_bracket_def duo_put_def)

section \<open>What the console writes\<close>

lemma put_of_bracket [simp]: "put_bracket (put_of tid token b) = b"
  by (simp add: put_bracket_def put_of_def)

text \<open>C30. The console erases the winners it had computed: it stores its own copy of the bracket as finalized,
  read before the server put the winners in; the payout job stays queued and the bracket it reads
  has the winners of the old copy, none.\<close>

theorem console_erases_winners:
  assumes "finalize_route zq d = (Ok jobId, d1)" "z_tid zq = Some tid" "getBracket tid d = Some b"
    and "mg_bracket s = Some b" "bracket_route (snd (persist tid (b\<lparr>b_finalized := Some True\<rparr>) s)) d1 = (Ok u, d2)"
  shows "\<exists>b2. getBracket tid d2 = Some b2 \<and> b_finalized b2 = Some True \<and> b_computedWinners b2 = b_computedWinners b \<and>
    Finalize tid \<in> set (map j_payload (d_jobs d2))"
proof -
  have q: "u_tid (put_of tid (mg_token s) (b\<lparr>b_finalized := Some True\<rparr>)) = Some tid" by (simp add: put_of_def)
  from assms(5) have d2: "d2 = saveBracket tid (b\<lparr>b_finalized := Some True\<rparr>) d1"
    by (auto simp: persist_def q elim!: bracket_route_Ok)
  from assms(1,2) have "Finalize tid \<in> set (map j_payload (d_jobs d1))"
    by (auto simp: enqueueJob_def elim!: finalize_route_Ok)
  then show ?thesis by (simp add: d2)
qed

definition duo_store_back :: put_request where
  "duo_store_back = snd (persist 7 ((put_bracket duo_put)\<lparr>b_finalized := Some True\<rparr>) duo_console)"

theorem console_erases_winners_witness:
  "\<exists>b2. getBracket 7 (snd (bracket_route duo_store_back duo_db2)) = Some b2 \<and> b_computedWinners b2 = None"
proof -
  have "generateManageToken duo_buf \<noteq> ''''" using length_token [of duo_buf] duo_length by auto
  then have "u_auth duo_store_back = duo_key"
    by (simp add: duo_store_back_def persist_def put_of_def duo_console_def no_string_def duo_key_def)
  moreover have "body_length (bracket_json ((put_bracket duo_put)\<lparr>b_finalized := Some True\<rparr>)) \<le> MAX_BODY"
    by (simp add: MAX_BODY_def json_text put_bracket_def duo_put_def duo_def)
  then have "\<not> validateBodySize (u_contentLength duo_store_back)"
    by (simp add: duo_store_back_def persist_def put_of_def validateBodySize_def not_le)
  ultimately have "fst (bracket_route duo_store_back duo_db2) = Ok ()"
    using duo_authorized [OF duo_db2(1)]
    by (simp add: bracket_route_def) (simp add: duo_store_back_def persist_def put_of_def put_bracket_def duo_put_def duo_def)
  then have r: "bracket_route (snd (persist 7 ((put_bracket duo_put)\<lparr>b_finalized := Some True\<rparr>) duo_console)) duo_db2 =
      (Ok (), snd (bracket_route duo_store_back duo_db2))"
    by (simp add: duo_store_back_def prod_eq_iff)
  have z: "z_tid duo_finalize = Some 7" by (simp add: duo_finalize_def)
  have c: "mg_bracket duo_console = Some (put_bracket duo_put)" by (simp add: duo_console_def)
  from console_erases_winners [OF duo_finalized z duo_db1(2) c r] show ?thesis
    by (auto simp: put_bracket_def duo_put_def)
qed

section \<open>What the player's console sends\<close>

lemma reported_id [simp]: "reported s o1 = o1"
  by (cases s; cases o1) (simp_all add: reported_def side_outcome_def)

text \<open>The server accepts what the player's console offers: when the page finds a match of the connected
  player in a bracket that is not finalized, the report it sends is for the side the server finds,
  and it is filed, not refused.\<close>

theorem page_report_filed:
  assumes "play_reconstruct (Some b) = Inr (Some t)" "page_me b (Some wallet) = Some me" "myMatch t me = Some m"
    and "b_finalized b \<noteq> Some True"
  shows "\<exists>s. mySide m me = Some s \<and>
    judge_report (the (q_matchId (page_report tid wallet sign nonce ts m s o1))) wallet (play_text o1) b =
      Ok (file_report (m_id m) s wallet (play_text o1) b)"
proof -
  from assms(1) have t: "reconstruct b = Inr t" by (auto simp: play_replay bind_result_eq_Inr)
  note reach = reconstruct_reachable [OF t]
  from assms(3) have m: "m_id m \<in> set (pending t)" "m \<in> set (matches t)"
    "map_option ent_id (m_a m) = Some (p_id me) \<or> map_option ent_id (m_b m) = Some (p_id me)"
    by (auto simp: myMatch_def dest!: find_Some_iff_hd)
  then have "mySide m me \<noteq> None" by (auto simp: mySide_def)
  then obtain s where s: "mySide m me = Some s" by blast
  have look: "map_of (t_matchMap t) (m_id m) = Some m" using m(2) reachable_matches [OF reach] by simp
  with m(1) have ready: "isReady m" using pending_iff [OF reach] by auto
  have "List.find (\<lambda>x. m_id x = m_id m) (matches t) = Some m"
  proof -
    obtain x where x: "List.find (\<lambda>x. m_id x = m_id m) (matches t) = Some x"
      using m(2) by (cases "List.find (\<lambda>x. m_id x = m_id m) (matches t)") (auto simp: find_None_iff)
    have "x \<in> set (matches t)" and id: "m_id x = m_id m" using find_Some_iff_hd [OF x] by (rule conjunct1, rule conjunct2)
    then have "map_of (t_matchMap t) (m_id m) = Some x" using reachable_matches [OF reach, of x] by metis
    then show ?thesis using look x by (metis option.inject)
  qed
  moreover have "player_side m (p_id me) = Some s" using s by (simp add: mySide_def player_side_def)
  moreover have "List.find (\<lambda>p. toLowerCase (p_wallet p) = toLowerCase wallet) (b_players b) = Some me"
    using assms(2) by (auto simp: page_me_def split: if_splits)
  ultimately show ?thesis
    using s t ready assms(4) by (simp add: judge_report_def page_report_def Let_def isReady_def)
qed

definition trio_engine :: tournament where
  "trio_engine = projr (reconstruct demo_bracket)"

definition trio_match :: bracket_match where
  "trio_match = the (myMatch trio_engine (hd demo_players))"

theorem page_report_filed_witness:
  "\<exists>s. judge_report (m_id trio_match) ''0xa1'' ''A'' demo_bracket = Ok (file_report (m_id trio_match) s ''0xa1'' ''A'' demo_bracket)"
proof -
  have "\<not> isl (reconstruct demo_bracket)" by code_simp
  then have "reconstruct demo_bracket = Inr trio_engine" unfolding trio_engine_def by (rule sum.collapse(2) [symmetric])
  then have t: "play_reconstruct (Some demo_bracket) = Inr (Some trio_engine)" by (simp add: play_replay)
  have me: "page_me demo_bracket (Some ''0xa1'') = Some (hd demo_players)" by code_simp
  have "myMatch trio_engine (hd demo_players) \<noteq> None" by code_simp
  then have m: "myMatch trio_engine (hd demo_players) = Some trio_match" by (auto simp: trio_match_def)
  have "b_finalized demo_bracket \<noteq> Some True" by (simp add: demo_bracket_def)
  from page_report_filed [OF t me m this, of 7 "\<lambda>msg. ''s''" "''n''" 100 PlayA] show ?thesis
    by (auto simp: page_report_def play_text_def Let_def)
qed

end
