(* ===== verification/Setup.thy ===== *)
theory Setup
  imports Pages
begin

text \<open>
  The launch page, \<open>web/src/app/setup/page.tsx\<close>, with the presets of \<open>web/src/lib/ampCup.ts\<close> and the
  address list of \<open>web/src/lib/wallet.ts\<close>: from the form to the requests it sends. The wallet, the
  contract and the address check of \<open>ethers\<close> are arguments.
\<close>

section \<open>The form\<close>

datatype preset = WinnerTakesAll | Top2 | Top3 | Top4

definition PAYOUT_PRESETS :: "preset \<Rightarrow> int list" where
  "PAYOUT_PRESETS p =
     (case p of
        WinnerTakesAll \<Rightarrow> [10000]
      | Top2 \<Rightarrow> [7000, 3000]
      | Top3 \<Rightarrow> [6000, 3000, 1000]
      | Top4 \<Rightarrow> [5000, 2500, 1500, 1000])"

datatype currency = USD | AVAX

record setup_form =
  sf_name :: string
  sf_preset :: preset
  sf_currency :: currency
  sf_amount :: string
  sf_addressText :: string
  sf_mode :: cup_mode
  sf_playersText :: string

text \<open>\<open>split\<close> at every character that satisfies \<open>P\<close>: never empty.\<close>

fun split_at :: "(char \<Rightarrow> bool) \<Rightarrow> string \<Rightarrow> string list" where
  "split_at P [] = [[]]"
| "split_at P (c # s) =
     (if P c then [] # split_at P s
      else case split_at P s of w # ws \<Rightarrow> (c # w) # ws | [] \<Rightarrow> [[c]])"

text \<open>The separator is a run of white space and commas; the empty pieces between are dropped with the others.\<close>

definition parseAddressList :: "(string \<Rightarrow> bool) \<Rightarrow> string \<Rightarrow> string list" where
  "parseAddressList isAddress raw =
     filter (\<lambda>s. length s > 0 \<and> isAddress s) (map trim (split_at (\<lambda>c. js_space c \<or> c = CHR '','') raw))"

text \<open>\<open>n.toString(16)\<close>\<close>

fun hex_nat :: "nat \<Rightarrow> string" where
  "hex_nat n = (if n < 16 then [hex_digit n] else hex_nat (n div 16) @ [hex_digit (n mod 16)])"

declare hex_nat.simps [simp del]

definition player_lines :: "string \<Rightarrow> string list" where
  "player_lines s = filter (\<lambda>l. l \<noteq> []) (map trim (split_at (\<lambda>c. c = CHR 0x0A) s))"

definition player_line :: "nat \<Rightarrow> string \<Rightarrow> player" where
  "player_line i line =
     (let parts = map trim (split_at (\<lambda>c. c = CHR '','') line);
          rawName = hd parts;
          wallet = trim (case tl parts of w # _ \<Rightarrow> w | [] \<Rightarrow> rawName);
          isAddr = startsWith wallet ''0x'' \<and> length wallet \<ge> 6
      in \<lparr>p_id = int i,
          p_wallet = (if isAddr then wallet else ''0x'' @ padStart 40 (CHR ''0'') (hex_nat (i + 1))),
          p_name = rawName, p_seed = int i + 1\<rparr>)"

definition setup_players :: "string \<Rightarrow> player list" where
  "setup_players input = map (\<lambda>(i, l). player_line i l) (enumerate 0 (player_lines input))"

definition setup_placements :: "setup_form \<Rightarrow> nat" where
  "setup_placements f = length (PAYOUT_PRESETS (sf_preset f))"

definition canProceedWinners :: "(string \<Rightarrow> bool) \<Rightarrow> setup_form \<Rightarrow> bool" where
  "canProceedWinners isAddress f =
     (case sf_mode f of
        Bracket \<Rightarrow> length (setup_players (sf_playersText f)) \<ge> 2
      | Instant \<Rightarrow> length (parseAddressList isAddress (sf_addressText f)) = setup_placements f)"

section \<open>Launching\<close>

record setup_result =
  su_tournamentId :: "int option"
  su_txHash :: "string option"
  su_winners :: "(nat \<times> string) list"

text \<open>A launch ends on the console of the new cup, with a result panel or with an error panel.\<close>

datatype launch = Manage int | Launched setup_result | LaunchFailed string

definition store_key :: "int \<Rightarrow> string option \<Rightarrow> browser \<Rightarrow> browser" where
  "store_key tid token br =
     (if no_string token then br else br\<lparr>br_session := (br_session br)(''amp_manage_'' @ show_int tid := token)\<rparr>)"

text \<open>The body the page sends to the init route, with the length the browser announces for it.\<close>

definition avax_body :: "setup_form \<Rightarrow> string \<Rightarrow> string \<Rightarrow> string option \<Rightarrow> json" where
  "avax_body f sponsor value hash =
     JObject [(''sponsor'', JStr sponsor), (''prizePoolWei'', JStr value),
       (''payoutBps'', JList (map JInt (PAYOUT_PRESETS (sf_preset f)))), (''format'', JStr (format_name F_single_elimination)),
       (''players'', players_json (setup_players (sf_playersText f))),
       (''txHash'', case hash of None \<Rightarrow> JNull | Some h \<Rightarrow> JStr h)]"

definition avax_init :: "setup_form \<Rightarrow> string \<Rightarrow> string \<Rightarrow> int \<Rightarrow> string option \<Rightarrow> init_request" where
  "avax_init f sponsor value tid hash =
     \<lparr>n_contentLength = Some (body_length (avax_body f sponsor value hash)), n_tid = Some tid, n_auth = None, n_sponsor = Some sponsor,
      n_prizePoolWei = Some value, n_payoutBps = Some (PAYOUT_PRESETS (sf_preset f)),
      n_format = Some F_single_elimination, n_swissRounds = None,
      n_players = Some (setup_players (sf_playersText f)), n_txHash = hash\<rparr>"

record avax_funding =
  av_sponsor :: string
  av_value :: string
  av_tournamentId :: int
  av_hash :: "string option"

text \<open>
  \<open>launchAvax\<close>: \<open>funded\<close> is the outcome of connecting and funding on the chain, \<open>init\<close> the token in the
  reply of the init route to a request (the request may also fail), \<open>paid\<close> the outcome of signing
  and finalizing.
\<close>

definition launchAvax ::
  "(string \<Rightarrow> bool) \<Rightarrow> setup_form \<Rightarrow> (string, avax_funding) result \<Rightarrow>
     (init_request \<Rightarrow> (string, string option) result) \<Rightarrow> (int \<Rightarrow> string list \<Rightarrow> (string, string option) result) \<Rightarrow>
     browser \<Rightarrow> launch \<times> browser" where
  "launchAvax isAddress f funded init paid br =
     (case funded of
        Inl e \<Rightarrow> (LaunchFailed e, br)
      | Inr v \<Rightarrow>
          (let tid = av_tournamentId v
           in if sf_mode f = Bracket
              then (case init (avax_init f (av_sponsor v) (av_value v) tid (av_hash v)) of
                      Inl e \<Rightarrow> (LaunchFailed e, br)
                    | Inr token \<Rightarrow> (Manage tid, store_key tid token br))
              else (let ws = parseAddressList isAddress (sf_addressText f)
                    in case paid tid ws of
                         Inl e \<Rightarrow> (LaunchFailed e, br)
                       | Inr hash \<Rightarrow>
                           (Launched \<lparr>su_tournamentId = Some tid, su_txHash = hash, su_winners = enumerate 0 ws\<rparr>, br))))"

definition capture_body :: "(string \<Rightarrow> bool) \<Rightarrow> setup_form \<Rightarrow> capture_config" where
  "capture_body isAddress f =
     (if sf_mode f = Bracket
      then \<lparr>k_payoutBps = Some (PAYOUT_PRESETS (sf_preset f)), k_finalizeDays = Some 7, k_mode = Some Bracket,
        k_winnerWallets = None, k_format = Some F_single_elimination, k_swissRounds = None,
        k_players = Some (setup_players (sf_playersText f))\<rparr>
      else \<lparr>k_payoutBps = Some (PAYOUT_PRESETS (sf_preset f)), k_finalizeDays = Some 7, k_mode = Some Instant,
        k_winnerWallets = Some (parseAddressList isAddress (sf_addressText f)), k_format = None, k_swissRounds = None,
        k_players = None\<rparr>)"

text \<open>The request to the capture route; the name of the cup is sent too, and nothing reads it.\<close>

definition capture_json :: "(string \<Rightarrow> bool) \<Rightarrow> setup_form \<Rightarrow> string \<Rightarrow> json" where
  "capture_json isAddress f orderId =
     JObject [(''orderID'', JStr orderId),
       (''tournament'', JObject ([(''name'', JStr (sf_name f)), (''payoutBps'', JList (map JInt (PAYOUT_PRESETS (sf_preset f))))] @
          (if sf_mode f = Bracket
           then [(''mode'', JStr ''bracket''), (''format'', JStr (format_name F_single_elimination)),
             (''players'', players_json (setup_players (sf_playersText f)))]
           else [(''mode'', JStr ''instant''),
             (''winnerWallets'', JList (map JStr (parseAddressList isAddress (sf_addressText f))))]) @
          [(''finalizeDays'', JInt 7)]))]"

definition capture_sent :: "(string \<Rightarrow> bool) \<Rightarrow> setup_form \<Rightarrow> string \<Rightarrow> capture_request" where
  "capture_sent isAddress f orderId =
     \<lparr>k_contentLength = Some (body_length (capture_json isAddress f orderId)), k_orderID = Some orderId,
      k_tournament = Some (capture_body isAddress f)\<rparr>"

definition fund_poll :: "relayer_job option \<Rightarrow> (string, int option option) result" where
  "fund_poll j =
     (case j of None \<Rightarrow> Inr None
      | Some j \<Rightarrow>
          (case rj_status j of
             JobDone \<Rightarrow> Inr (Some (rj_tournamentId j))
           | Failed \<Rightarrow> Inl (or_string (rj_error j) ''relayer job failed'')
           | Pending \<Rightarrow> Inr None))"

definition pollJobForTournament ::
  "int option \<Rightarrow> (nat \<Rightarrow> (string, relayer_job option) result) \<Rightarrow> (string, int option) result" where
  "pollJobForTournament jobId get =
     (if no_number jobId then Inr None
      else bind_result (poll_loop get fund_poll 0 60) (\<lambda>r. Inr (case r of None \<Rightarrow> None | Some tid \<Rightarrow> tid)))"

text \<open>The fields of the capture reply the page reads.\<close>

definition reply_job :: "capture_reply \<Rightarrow> int option" where
  "reply_job r = (case r of Replayed j t \<Rightarrow> j | Funded j tok a \<Rightarrow> Some j)"

definition reply_token :: "capture_reply \<Rightarrow> string option" where
  "reply_token r = (case r of Replayed j t \<Rightarrow> None | Funded j tok a \<Rightarrow> tok)"

definition capturePaypal ::
  "(string \<Rightarrow> bool) \<Rightarrow> setup_form \<Rightarrow> (string, capture_reply) result \<Rightarrow> (nat \<Rightarrow> (string, relayer_job option) result) \<Rightarrow>
     browser \<Rightarrow> launch \<times> browser" where
  "capturePaypal isAddress f reply get br =
     (case reply of
        Inl e \<Rightarrow> (LaunchFailed (or_string (Some e) ''Capture failed''), br)
      | Inr r \<Rightarrow>
          (case pollJobForTournament (reply_job r) get of
             Inl e \<Rightarrow> (LaunchFailed e, br)
           | Inr None \<Rightarrow> (LaunchFailed ''Relayer did not complete funding in time.'', br)
           | Inr (Some tid) \<Rightarrow>
               if sf_mode f = Bracket then (Manage tid, store_key tid (reply_token r) br)
               else (Launched \<lparr>su_tournamentId = Some tid, su_txHash = None,
                       su_winners = enumerate 0 (parseAddressList isAddress (sf_addressText f))\<rparr>, br)))"

text \<open>\<open>createOrder\<close> of the payment button: the amount goes through \<open>Number\<close>; \<open>decimal\<close> is its text, and
  \<open>NaN\<close> is sent as \<open>null\<close>.\<close>

definition order_request :: "(string \<Rightarrow> js_number) \<Rightarrow> (rat \<Rightarrow> string) \<Rightarrow> setup_form \<Rightarrow> create_request" where
  "order_request number decimal f =
     (let amount = number (sf_amount f)
      in \<lparr>cr_contentLength = Some (body_length (JObject
            [(''amountUsd'', case amount of None \<Rightarrow> JNull | Some a \<Rightarrow> JNum (decimal a)), (''tournamentName'', JStr (sf_name f))])),
          cr_amountUsd = amount, cr_tournamentName = Some (sf_name f)\<rparr>)"

section \<open>Properties\<close>

lemma preset_total: "foldl (+) 0 (PAYOUT_PRESETS p) = 10000 \<and> length (PAYOUT_PRESETS p) \<le> 4"
  by (cases p) (simp_all add: PAYOUT_PRESETS_def)

lemma setup_players_ids: "map p_id (setup_players input) = map int [0..<length (player_lines input)]"
  by (rule nth_equalityI) (simp_all add: setup_players_def player_line_def Let_def nth_enumerate_eq)

lemma setup_players_length [simp]: "length (setup_players input) = length (player_lines input)"
  by (simp add: setup_players_def)

text \<open>The checks of the routes on the fields of a body let through what the page lets through: for every preset,
  with winners or players as the page demands them.\<close>

lemma setup_bodies_accepted:
  assumes "canProceedWinners isAddress f" "orderId \<noteq> ''''"
  shows "capture_error (capture_sent isAddress f orderId) = None"
    and "init_body_error (avax_init f sponsor value tid hash) = None \<longleftrightarrow> length (player_lines (sf_playersText f)) \<le> 1024"
  using assms preset_total [of "sf_preset f"]
  by (cases "sf_mode f"; simp add: capture_error_def capture_sent_def capture_body_def no_string_def canProceedWinners_def
      setup_placements_def init_body_error_def avax_init_def)+

text \<open>So a request of the launch page is refused for its size, for an order that is not paid, or for too many
  players, and for nothing else.\<close>

lemma capture_sent_taken:
  assumes "canProceedWinners isAddress f" "orderId \<noteq> ''''"
  shows "(\<exists>r. fst (capture_route sv env buf now (capture_sent isAddress f orderId) (cache, d)) = Ok r) \<longleftrightarrow>
    body_length (capture_json isAddress f orderId) \<le> MAX_BODY \<and>
    (\<exists>order. fst (verifyOrder sv env now orderId cache) = Inr order \<and> vo_status order \<in> {''COMPLETED'', ''APPROVED''})"
proof -
  let ?q = "capture_sent isAddress f orderId"
  have "capture_error ?q = None" using assms by (rule setup_bodies_accepted)
  moreover have "validateBodySize (k_contentLength ?q) \<longleftrightarrow> \<not> body_length (capture_json isAddress f orderId) \<le> MAX_BODY"
    "k_orderID ?q = Some orderId" by (simp_all add: capture_sent_def validateBodySize_def not_le)
  ultimately show ?thesis
    by (auto simp: capture_route_def Let_def case_prod_unfold split: prod.splits sum.splits)
qed

lemma avax_init_taken:
  assumes "canProceedWinners isAddress f" "getTournament tid d = None"
  shows "(\<exists>token. fst (init_route buf now (avax_init f sponsor value tid hash) d) = Ok token) \<longleftrightarrow>
    body_length (avax_body f sponsor value hash) \<le> MAX_BODY \<and> length (player_lines (sf_playersText f)) \<le> 1024"
proof -
  let ?q = "avax_init f sponsor value tid hash"
  have "init_body_error ?q = None \<longleftrightarrow> length (player_lines (sf_playersText f)) \<le> 1024"
    using setup_bodies_accepted(2) [OF assms(1), of "''o''"] by simp
  moreover have "validateBodySize (n_contentLength ?q) \<longleftrightarrow> \<not> body_length (avax_body f sponsor value hash) \<le> MAX_BODY"
    "n_tid ?q = Some tid" by (simp_all add: avax_init_def validateBodySize_def not_le)
  ultimately show ?thesis using assms(2) by (auto simp: init_route_def split: option.splits)
qed

text \<open>C33. Every field the page lets through can be played: the bracket registered for two to 1024 player
  lines is accepted by the engine, whatever the lines say.\<close>

theorem setup_bracket_builds:
  assumes "2 \<le> length (player_lines input)" "length (player_lines input) \<le> 1024" "n_players q = Some (setup_players input)"
    and "n_format q = Some F_single_elimination"
  shows "\<exists>t. reconstruct (init_bracket q) = Inr t \<and> map p_id (b_players (init_bracket q)) = map int [0..<length (player_lines input)]"
proof -
  let ?es = "entrants_of (init_bracket q)"
  have es: "map ent_id ?es = map int [0..<length (player_lines input)]"
    using assms(3) setup_players_ids [of input] by (simp add: entrants_of_def init_bracket_def comp_def)
  then have len: "length ?es = length (player_lines input)" by (metis diff_zero length_map length_upt)
  have uniq: "idsUnique ?es" unfolding idsUnique_iff es by (simp add: distinct_map)
  have "\<exists>t. new_tournament SingleElimination ?es = Inr t"
    using elimination_created [OF _ uniq] assms(1,2) len by simp
  moreover have "formatOf (init_bracket q) = SingleElimination" using assms(4) by (simp add: formatOf_def init_bracket_def)
  moreover have "b_results (init_bracket q) = []" by (simp add: init_bracket_def)
  ultimately show ?thesis
    using assms(3) setup_players_ids [of input]
    by (auto simp: reconstruct_def engine_results_def init_bracket_def [of q])
qed

text \<open>Money first, checks later: with more than 1024 players, or with players whose text is longer than 64 KB, the
  prize pool is already funded on the chain when the init route refuses the bracket, and the page still
  goes on to the console of the cup.\<close>

theorem oversized_field_is_funded:
  assumes "sf_mode f = Bracket"
    and "length (player_lines (sf_playersText f)) > 1024 \<or> body_length (avax_body f (av_sponsor v) (av_value v) (av_hash v)) > MAX_BODY"
    and "getTournament (av_tournamentId v) d = None"
  shows "(\<exists>c msg. init_route buf now (avax_init f (av_sponsor v) (av_value v) (av_tournamentId v) (av_hash v)) d = (Err c msg, d)) \<and>
    launchAvax isAddress f (Inr v) (\<lambda>q. Inr (case fst (init_route buf now q d) of Ok token \<Rightarrow> Some token | _ \<Rightarrow> None)) paid br =
      (Manage (av_tournamentId v), br)"
proof -
  obtain c msg where "init_route buf now (avax_init f (av_sponsor v) (av_value v) (av_tournamentId v) (av_hash v)) d = (Err c msg, d)"
  proof (cases "init_body_error (avax_init f (av_sponsor v) (av_value v) (av_tournamentId v) (av_hash v))")
    case None
    then have "\<not> length (player_lines (sf_playersText f)) > 1024"
      using preset_total [of "sf_preset f"] by (auto simp: init_body_error_def avax_init_def split: if_splits)
    with assms(2) have "validateBodySize (n_contentLength (avax_init f (av_sponsor v) (av_value v) (av_tournamentId v) (av_hash v)))"
      by (simp add: avax_init_def validateBodySize_def)
    with that show thesis by (simp add: init_route_def)
  next
    case (Some msg)
    with that assms(3) show thesis
      by (cases "validateBodySize (n_contentLength (avax_init f (av_sponsor v) (av_value v) (av_tournamentId v) (av_hash v)))")
        (simp_all add: init_route_def, simp add: avax_init_def)
  qed
  with assms(1) show ?thesis by (simp add: launchAvax_def store_key_def no_string_def)
qed

text \<open>When the webhook was first to claim the order, the buyer is told that funding failed: the capture
  reply carries no job to wait for, and the page reports a relayer that was too slow.\<close>

theorem webhook_first_looks_failed:
  assumes "w_type ev = Some ''PAYMENT.CAPTURE.COMPLETED''" "hook_order ev = orderId" "orderId \<noteq> ''''"
    and "positive (hook_amount ev)" "\<not> intent_taken orderId d"
  shows "capturePaypal isAddress f
      (Inr (fst (capture_fund buf orderId a (capture_body isAddress f) (hook_fund ev d)))) get br =
    (LaunchFailed ''Relayer did not complete funding in time.'', br)"
proof -
  have "fst (capture_fund buf orderId a (capture_body isAddress f) (hook_fund ev d)) = Replayed None None"
    using assms by (auto simp: capture_fund_def hook_fund_def claimFundingIntent_def intent_taken_def
        enqueueJob_def Let_def split: option.splits)
  then show ?thesis by (simp add: capturePaypal_def reply_job_def pollJobForTournament_def no_number_def)
qed

section \<open>Closed instances\<close>

definition demo_form :: setup_form where
  "demo_form = \<lparr>sf_name = ''Cup'', sf_preset = Top2, sf_currency = AVAX, sf_amount = ''5'', sf_addressText = '''',
     sf_mode = Bracket, sf_playersText = ''Ann, 0xaaaa'' @ [CHR 0x0A] @ '' Bob '' @ [CHR 0x0A, CHR 0x0A] @ ''Cy,0xcccc''\<rparr>"

lemma demo_lines: "player_lines (sf_playersText demo_form) = [''Ann, 0xaaaa'', ''Bob'', ''Cy,0xcccc'']" by code_simp


theorem setup_bracket_builds_witness:
  "\<exists>t. reconstruct (init_bracket (avax_init demo_form ''0xb0'' ''5'' 7 None)) = Inr t"
  using setup_bracket_builds [of "sf_playersText demo_form" "avax_init demo_form ''0xb0'' ''5'' 7 None"]
  by (simp add: demo_lines avax_init_def)

definition crowd_form :: setup_form where
  "crowd_form = demo_form\<lparr>sf_playersText := concat (replicate 1025 (''P'' @ [CHR 0x0A]))\<rparr>"

lemma split_at_nonempty: "split_at P s \<noteq> []"
  by (induction s) (auto split: list.split)

lemma crowd_lines: "player_lines (concat (replicate n (''P'' @ [CHR 0x0A]))) = replicate n ''P''"
proof (induction n)
  case (Suc n)
  obtain w ws where "split_at (\<lambda>c. c = CHR 0x0A) (concat (replicate n (''P'' @ [CHR 0x0A]))) = w # ws"
    using split_at_nonempty [of "\<lambda>c. c = CHR 0x0A" "concat (replicate n (''P'' @ [CHR 0x0A]))"] by (auto simp: neq_Nil_conv)
  moreover have "trim ''P'' = ''P''" by code_simp
  ultimately show ?case using Suc by (simp add: player_lines_def)
qed (simp add: player_lines_def trim_def)

theorem oversized_field_is_funded_witness:
  "\<exists>c msg. fst (init_route [] 0 (avax_init crowd_form ''0xb0'' ''5'' 7 None) empty_db) = Err c msg"
proof -
  have m: "sf_mode crowd_form = Bracket" by (simp add: crowd_form_def demo_form_def)
  have "sf_playersText crowd_form = concat (replicate 1025 (''P'' @ [CHR 0x0A]))" by (simp only: crowd_form_def demo_form_def setup_form.simps)
  then have "player_lines (sf_playersText crowd_form) = replicate 1025 ''P''" by (simp only: crowd_lines)
  then have n: "length (player_lines (sf_playersText crowd_form)) > 1024" by (simp only: length_replicate)
  have "getTournament (av_tournamentId \<lparr>av_sponsor = ''0xb0'', av_value = ''5'', av_tournamentId = 7, av_hash = None\<rparr>) empty_db = None"
    by (rule duo_empty)
  from oversized_field_is_funded [OF m disjI1 [OF n] this, THEN conjunct1, of "[]" 0]
  obtain c msg where "init_route [] 0 (avax_init crowd_form ''0xb0'' ''5'' 7 None) empty_db = (Err c msg, empty_db)"
    by (simp only: avax_funding.simps) blast
  then have "fst (init_route [] 0 (avax_init crowd_form ''0xb0'' ''5'' 7 None) empty_db) = Err c msg" by (simp only: fst_conv)
  then show ?thesis by blast
qed

theorem webhook_first_looks_failed_witness:
  "fst (capturePaypal (\<lambda>_. True) demo_form
      (Inr (fst (capture_fund [] ''order1'' None (capture_body (\<lambda>_. True) demo_form) (hook_fund demo_hook empty_db))))
      (\<lambda>i. Inr None) demo_browser) = LaunchFailed ''Relayer did not complete funding in time.''"
proof -
  have "\<not> intent_taken ''order1'' empty_db" by (simp add: intent_taken_def empty_db_def)
  moreover have "positive (hook_amount demo_hook)" by (simp add: demo_hook_facts positive_def)
  ultimately show ?thesis
    using webhook_first_looks_failed [OF demo_hook_facts(1,2)] by simp
qed

end
