(* ===== verification/Setup_View.thy ===== *)
theory Setup_View
  imports Setup View
begin

text \<open>
  The launch page \<open>web/src/app/setup/page.tsx\<close> as it is shown and used: its three steps, the result
  panel, what each element does, and the launches that are under way. A launch runs on the form as it
  was when the button was clicked. The payment buttons are those of the PayPal library: they start a
  capture when the buyer approves.
\<close>

section \<open>The deployment\<close>

text \<open>The constants of \<open>lib/ampCup.ts\<close>, from the environment of the build.\<close>

record site_env =
  se_cup :: "string option"
  se_rpc :: "string option"
  se_explorer :: "string option"

definition CUP_ADDRESS :: "site_env \<Rightarrow> string" where
  "CUP_ADDRESS e = or_string (se_cup e) ''0x7c743c1c9ae3e7a65d030098f2249b7787d66dff''"

definition FUJI_RPC :: "site_env \<Rightarrow> string" where
  "FUJI_RPC e = or_string (se_rpc e) ''https://api.avax-test.network/ext/bc/C/rpc''"

definition EXPLORER_URL :: "site_env \<Rightarrow> string" where
  "EXPLORER_URL e = or_string (se_explorer e) ''https://testnet.snowtrace.io''"

definition contract_url :: "site_env \<Rightarrow> string" where
  "contract_url e = EXPLORER_URL e @ ''/address/'' @ CUP_ADDRESS e"

text \<open>\<open>s.slice(-n)\<close>, and an address with its middle left out.\<close>

definition slice_last :: "nat \<Rightarrow> string \<Rightarrow> string" where
  "slice_last n s = drop (length s - n) s"

definition short_address :: "nat \<Rightarrow> string \<Rightarrow> string" where
  "short_address n s = take n s @ ''...'' @ slice_last 4 s"

section \<open>State and actions\<close>

record setup_page =
  sp_step :: nat
  sp_form :: setup_form
  sp_result :: "(string, setup_result) result option"
  sp_busy :: "string option"
  sp_launches :: "setup_form list"
  sp_location :: "string option"

datatype setup_action =
  SetName string | SetMode cup_mode | SetCurrency currency | SetAmount string | SetPreset preset
| SetPlayers string | SetAddresses string | GoStep nat | FundWallet | PayApproved | CloseResult | RunAnother

definition setup_start :: setup_page where
  "setup_start =
     \<lparr>sp_step = 0,
      sp_form = \<lparr>sf_name = ''Community Cup'', sf_preset = Top3, sf_currency = USD, sf_amount = ''50'',
        sf_addressText = '''', sf_mode = Instant,
        sf_playersText = ''Alice, 0xaaaa...'' @ [CHR 0x0A] @ ''Bob, 0xbbbb...'' @ [CHR 0x0A] @
          ''Carlos, 0xcccc...'' @ [CHR 0x0A] @ ''Dana, 0xdddd...''\<rparr>,
      sp_result = None, sp_busy = None, sp_launches = [], sp_location = None\<rparr>"

definition launch_begins :: "string \<Rightarrow> setup_page \<Rightarrow> setup_page" where
  "launch_begins msg s = s\<lparr>sp_busy := Some msg, sp_launches := sp_form s # sp_launches s\<rparr>"

fun setup_handle :: "setup_action \<Rightarrow> setup_page \<Rightarrow> setup_page" where
  "setup_handle (SetName x) s = s\<lparr>sp_form := (sp_form s)\<lparr>sf_name := x\<rparr>\<rparr>"
| "setup_handle (SetMode x) s = s\<lparr>sp_form := (sp_form s)\<lparr>sf_mode := x\<rparr>\<rparr>"
| "setup_handle (SetCurrency x) s = s\<lparr>sp_form := (sp_form s)\<lparr>sf_currency := x\<rparr>\<rparr>"
| "setup_handle (SetAmount x) s = s\<lparr>sp_form := (sp_form s)\<lparr>sf_amount := x\<rparr>\<rparr>"
| "setup_handle (SetPreset x) s = s\<lparr>sp_form := (sp_form s)\<lparr>sf_preset := x\<rparr>\<rparr>"
| "setup_handle (SetPlayers x) s = s\<lparr>sp_form := (sp_form s)\<lparr>sf_playersText := x\<rparr>\<rparr>"
| "setup_handle (SetAddresses x) s = s\<lparr>sp_form := (sp_form s)\<lparr>sf_addressText := x\<rparr>\<rparr>"
| "setup_handle (GoStep n) s = s\<lparr>sp_step := n\<rparr>"
| "setup_handle FundWallet s = launch_begins ''Connecting wallet...'' s"
| "setup_handle PayApproved s = launch_begins ''Verifying payment & funding tournament...'' s"
| "setup_handle CloseResult s = s\<lparr>sp_result := None\<rparr>"
| "setup_handle RunAnother s = s\<lparr>sp_result := None, sp_step := 0\<rparr>"

text \<open>The end of \<open>launchAvax\<close> and \<open>capturePaypal\<close>: the result or the push to the console, then \<open>finally\<close>.\<close>

definition launch_ends :: "launch \<Rightarrow> setup_page \<Rightarrow> setup_page" where
  "launch_ends out s =
     (let s1 = s\<lparr>sp_busy := None\<rparr>
      in case out of
           Manage tid \<Rightarrow> s1\<lparr>sp_location := Some (''/manage/'' @ show_int tid)\<rparr>
         | Launched r \<Rightarrow> s1\<lparr>sp_result := Some (Inr r)\<rparr>
         | LaunchFailed e \<Rightarrow> s1\<lparr>sp_result := Some (Inl e)\<rparr>)"

inductive setup_event :: "setup_page \<Rightarrow> setup_page \<Rightarrow> bool" where
  progress: "sp_launches s \<noteq> [] \<Longrightarrow> setup_event s (s\<lparr>sp_busy := Some msg\<rparr>)"
| ended: "sp_launches s = fs1 @ f # fs2 \<Longrightarrow> setup_event s (launch_ends out (s\<lparr>sp_launches := fs1 @ fs2\<rparr>))"

inductive_cases setup_eventE: "setup_event s s'"

section \<open>What is shown\<close>

text \<open>The helpers \<open>Row\<close>, \<open>NavRow\<close> and the headline of a \<open>Panel\<close>.\<close>

definition row_items :: "string \<Rightarrow> string \<Rightarrow> string option \<Rightarrow> 'a item list" where
  "row_items label shown href =
     (if no_string href then [Words label, Words shown] else [Words label, Link shown (the href)])"

definition nav_row :: "'a \<Rightarrow> (string \<times> bool \<times> 'a) option \<Rightarrow> 'a item list" where
  "nav_row back next =
     Button ''Back'' True back #
     (case next of None \<Rightarrow> [] | Some (label, disabled, a) \<Rightarrow> [Button label (\<not> disabled) a])"

definition preset_label :: "preset \<Rightarrow> string" where
  "preset_label p =
     (case p of
        WinnerTakesAll \<Rightarrow> ''Winner takes all''
      | Top2 \<Rightarrow> ''Top 2 (70 / 30)''
      | Top3 \<Rightarrow> ''Top 3 (60 / 30 / 10)''
      | Top4 \<Rightarrow> ''Top 4 (50 / 25 / 15 / 10)'')"

definition plural :: "nat \<Rightarrow> string" where
  "plural n = (if n > 1 then ''s'' else '''')"

definition setup_header :: "'a item list" where
  "setup_header =
     [Link ''Back to AMP'' ''/'', Words ''Launch a Tournament'', Words ''Set Up Your Cup'',
      Words ''Prize pool, payout split, winner wallets - fund with card or wallet. Winners claim instantly on Avalanche.'']"

definition stepper :: "nat \<Rightarrow> 'a item list" where
  "stepper step =
     concat (map (\<lambda>(i, label). [Words (if step > i then ''done'' else show_nat (i + 1)), Words label])
       (enumerate 0 [''Prize'', ''Winners'', ''Fund'']))"

definition winner_row :: "int option \<Rightarrow> nat \<times> string \<Rightarrow> 'a item list" where
  "winner_row tid w =
     (case ordinal (fst w) of None \<Rightarrow> [] | Some o1 \<Rightarrow> [Words o1]) @ [Words (snd w)] @
     (case tid of None \<Rightarrow> []
      | Some t \<Rightarrow> [Link ''claim'' (''/claim?tid='' @ show_int t @ ''&place='' @ show_nat (fst w))])"

definition live_panel :: "site_env \<Rightarrow> setup_result \<Rightarrow> setup_action item list" where
  "live_panel e r =
     [Words ''Tournament Live'',
      Words (''AMP Cup #'' @ (case su_tournamentId r of None \<Rightarrow> ''undefined'' | Some t \<Rightarrow> show_int t) @
        '' funded & finalized on Fuji.'')] @
     (case su_tournamentId r of None \<Rightarrow> [] | Some t \<Rightarrow> row_items ''Tournament ID'' (''#'' @ show_int t) None) @
     (if no_string (su_txHash r) then []
      else row_items ''Transaction'' (take 18 (the (su_txHash r)) @ ''...'')
        (Some (EXPLORER_URL e @ ''/tx/'' @ the (su_txHash r)))) @
     row_items ''Contract'' (short_address 10 (CUP_ADDRESS e)) (Some (contract_url e)) @
     [Words ''Winner claim wallets''] @ concat (map (winner_row (su_tournamentId r)) (su_winners r)) @
     [Words (''Share each wallet's private key with its winner. They import it in any wallet and call '' @
        ''claimPrize on the contract to receive their payout.''),
      Jump ''Run Another'' ''/setup'' RunAnother, Link ''Home'' ''/'']"

definition failed_panel :: "string \<Rightarrow> setup_action item list" where
  "failed_panel msg = [Words ''Launch Failed'', Words msg, Button ''Back to Setup'' True CloseResult]"

definition prize_step :: "setup_form \<Rightarrow> setup_action item list" where
  "prize_step f =
     [Words ''Tournament name'', Field ''name'' (sf_name f) SetName,
      Words ''Prize pool & payout split'', Words ''Tournament type'',
      Choice ''Instant payout'' (sf_mode f = Instant) (SetMode Instant),
      Choice ''Run a bracket'' (sf_mode f = Bracket) (SetMode Bracket),
      Words ''Payment method'',
      Choice ''USD (Card / PayPal)'' (sf_currency f = USD) (SetCurrency USD),
      Choice ''AVAX (Wallet)'' (sf_currency f = AVAX) (SetCurrency AVAX),
      Words (''Prize amount ('' @ (if sf_currency f = USD then ''USD'' else ''AVAX'') @ '')''),
      Field ''amount'' (sf_amount f) SetAmount, Words ''Payout split''] @
     map (\<lambda>p. Choice (preset_label p) (sf_preset f = p) (SetPreset p)) [WinnerTakesAll, Top2, Top3, Top4] @
     nav_row (GoStep 0) (Some (''Next: Winners'', sf_name f = '''' \<or> sf_amount f = '''', GoStep 1))"

definition winners_step :: "(string \<Rightarrow> bool) \<Rightarrow> setup_form \<Rightarrow> setup_action item list" where
  "winners_step isAddress f =
     (let n = length (setup_players (sf_playersText f)); k = setup_placements f
      in (if sf_mode f = Bracket
          then [Words (''Player wallets ('' @ show_nat n @ '')''), Field ''players'' (sf_playersText f) SetPlayers,
             Words (show_nat n @ '' players - single-elimination bracket - top '' @ show_nat k @ '' paid ('' @
               preset_label (sf_preset f) @ ''). Run the bracket round-by-round from the organizer console after funding.'')]
          else [Words (''Winner wallets ('' @ show_nat k @ '' placement'' @ plural k @ '')''),
             Field ''winners'' (sf_addressText f) SetAddresses,
             Words (''Parsed '' @ show_nat (length (parseAddressList isAddress (sf_addressText f))) @ ''/'' @ show_nat k @
               '' valid addresses. Winners claim their prize from the contract after the tournament is funded.'')]) @
         nav_row (GoStep 0) (Some (''Next: Fund'', \<not> canProceedWinners isAddress f, GoStep 2)))"

definition fund_step :: "string \<Rightarrow> setup_page \<Rightarrow> setup_action item list" where
  "fund_step clientId s =
     (let f = sp_form s; k = setup_placements f
      in Words ''Review & fund'' #
         row_items ''Name'' (sf_name f) None @
         row_items ''Prize'' (sf_amount f @ (if sf_currency f = USD then '' USD'' else '' AVAX'')) None @
         row_items ''Split'' (preset_label (sf_preset f)) None @
         row_items ''Winners'' (show_nat k @ '' wallet'' @ plural k) None @
         row_items ''Protocol fee'' ''2% on payouts'' None @
         (case sp_busy s of None \<Rightarrow> [] | Some msg \<Rightarrow> [Words msg]) @
         show_if (sp_busy s = None \<and> sf_currency f = AVAX) [Button ''Connect Wallet & Fund'' True FundWallet] @
         show_if (sp_busy s = None \<and> sf_currency f = USD)
           (if clientId \<noteq> '''' then [Button ''PayPal'' True PayApproved]
            else [Words (''PayPal not configured. Set NEXT_PUBLIC_PAYPAL_CLIENT_ID + server creds to enable card '' @
              ''payments, or switch to AVAX.'')]) @
         nav_row (GoStep 1) None)"

definition setup_view :: "(string \<Rightarrow> bool) \<Rightarrow> site_env \<Rightarrow> string \<Rightarrow> setup_page \<Rightarrow> setup_action item list" where
  "setup_view isAddress e clientId s =
     setup_header @ show_if (sp_result s = None) (stepper (sp_step s)) @
     (case sp_result s of Some (Inr r) \<Rightarrow> live_panel e r | Some (Inl msg) \<Rightarrow> failed_panel msg | None \<Rightarrow> []) @
     show_if (sp_result s = None \<and> sp_step s = 0) (prize_step (sp_form s)) @
     show_if (sp_result s = None \<and> sp_step s = 1) (winners_step isAddress (sp_form s)) @
     show_if (sp_result s = None \<and> sp_step s = 2) (fund_step clientId s) @
     [Words ''Open beta - Fuji testnet'', Link ''view contract'' (contract_url e)]"

section \<open>What it offers\<close>

lemma row_items_quiet [simp]: "offered (row_items l x h) = []" "entries (row_items l x h) = []"
  by (simp_all add: row_items_def)

lemma nav_row_offers [simp]:
  "offered (nav_row back next) = back # (case next of None \<Rightarrow> [] | Some (l, dis, a) \<Rightarrow> if dis then [] else [a])"
  "entries (nav_row back next) = []"
  by (simp_all add: nav_row_def split: option.split prod.split)

lemma winner_row_quiet [simp]: "offered (winner_row tid w) = []" "entries (winner_row tid w) = []"
  by (simp_all add: winner_row_def split: option.split)

lemma setup_header_quiet [simp]: "offered setup_header = []" "entries setup_header = []"
  by (simp_all add: setup_header_def)

lemma stepper_quiet [simp]: "offered (stepper n) = []" "entries (stepper n) = []"
  by (simp_all add: stepper_def)

lemma result_panel_offers [simp]:
  "offered (live_panel e r) = [RunAnother]" "entries (live_panel e r) = []"
  "offered (failed_panel msg) = [CloseResult]" "entries (failed_panel msg) = []"
  by (simp_all add: live_panel_def failed_panel_def offered_concat entries_concat comp_def split: option.split)

lemma prize_step_offers [simp]:
  "offered (prize_step f) = [SetMode Instant, SetMode Bracket, SetCurrency USD, SetCurrency AVAX, SetPreset WinnerTakesAll,
     SetPreset Top2, SetPreset Top3, SetPreset Top4, GoStep 0] @ (if sf_name f = '''' \<or> sf_amount f = '''' then [] else [GoStep 1])"
  "entries (prize_step f) = [SetName, SetAmount]"
  by (simp_all add: prize_step_def)

lemma winners_step_offers [simp]:
  "offered (winners_step isAddress f) = GoStep 0 # (if canProceedWinners isAddress f then [GoStep 2] else [])"
  "entries (winners_step isAddress f) = [if sf_mode f = Bracket then SetPlayers else SetAddresses]"
  by (simp_all add: winners_step_def Let_def)

lemma fund_step_offers [simp]:
  "offered (fund_step clientId s) =
     (if sp_busy s \<noteq> None then []
      else if sf_currency (sp_form s) = AVAX then [FundWallet] else if clientId = '''' then [] else [PayApproved]) @ [GoStep 1]"
  "entries (fund_step clientId s) = []"
  by (cases "sf_currency (sp_form s)"; simp add: fund_step_def Let_def split: option.split)+

section \<open>The launch page is safe\<close>

definition setup_ready :: "(string \<Rightarrow> bool) \<Rightarrow> setup_form \<Rightarrow> bool" where
  "setup_ready isAddress f \<longleftrightarrow> sf_name f \<noteq> '''' \<and> sf_amount f \<noteq> '''' \<and> canProceedWinners isAddress f"

definition wizard_inv :: "(string \<Rightarrow> bool) \<Rightarrow> setup_page \<Rightarrow> bool" where
  "wizard_inv isAddress s \<longleftrightarrow>
     sp_step s \<le> 2 \<and> (sp_step s \<ge> 1 \<longrightarrow> sf_name (sp_form s) \<noteq> '''' \<and> sf_amount (sp_form s) \<noteq> '''') \<and>
     (sp_step s = 2 \<longrightarrow> setup_ready isAddress (sp_form s)) \<and>
     (sp_busy s = None \<longleftrightarrow> sp_launches s = []) \<and> length (sp_launches s) \<le> 1 \<and>
     (\<forall>f \<in> set (sp_launches s). setup_ready isAddress f)"

lemma wizard_clicked:
  assumes "wizard_inv isAddress s" "a \<in> set (offered (setup_view isAddress e clientId s))"
  shows "wizard_inv isAddress (setup_handle a s)"
proof (cases "sp_result s")
  case None
  consider "sp_step s = 0" | "sp_step s = 1" | "sp_step s = 2" using assms(1) by (fastforce simp: wizard_inv_def)
  then show ?thesis
  proof cases
    case 1
    with assms None show ?thesis by (auto simp: setup_view_def wizard_inv_def split: if_splits)
  next
    case 2
    with assms None show ?thesis by (auto simp: setup_view_def wizard_inv_def setup_ready_def split: if_splits)
  next
    case 3
    with assms None show ?thesis by (auto simp: setup_view_def wizard_inv_def launch_begins_def split: if_splits)
  qed
next
  case (Some r)
  with assms show ?thesis by (cases r) (auto simp: setup_view_def wizard_inv_def)
qed

lemma wizard_typed:
  assumes "wizard_inv isAddress s" "f \<in> set (entries (setup_view isAddress e clientId s))"
  shows "wizard_inv isAddress (setup_handle (f x) s)"
proof (cases "sp_result s")
  case None
  with assms show ?thesis by (auto simp: setup_view_def wizard_inv_def split: if_splits)
next
  case (Some r)
  with assms show ?thesis by (cases r) (auto simp: setup_view_def)
qed

lemma wizard_event: "setup_event s s' \<Longrightarrow> wizard_inv isAddress s \<Longrightarrow> wizard_inv isAddress s'"
  by (erule setup_eventE)
    (auto simp: wizard_inv_def launch_ends_def Let_def split: launch.split)

interpretation wizard: page "setup_view isAddress e clientId" setup_handle setup_event "wizard_inv isAddress"
  for isAddress e clientId
  by unfold_locales (auto intro: wizard_clicked wizard_typed wizard_event)

text \<open>C16. The launch page starts at most one launch at a time, and only on a complete form: whatever is
  clicked and typed and however launches end, the form of every launch under way has a name, an
  amount and the winners or players it asks for. What is sent for it, the capture route takes exactly when the
  body has at most 64 KB and the order is completed or approved, and the init route of a new tournament
  exactly when the body has at most 64 KB and lists at most 1024 players.\<close>

theorem wizard_launches:
  assumes "(ui_step (setup_view isAddress e clientId) setup_handle setup_event)\<^sup>*\<^sup>* setup_start s"
  shows "length (sp_launches s) \<le> 1 \<and>
    (\<forall>f \<in> set (sp_launches s). setup_ready isAddress f \<and>
       (orderId \<noteq> '''' \<longrightarrow>
          ((\<exists>r. fst (capture_route sv env buf now (capture_sent isAddress f orderId) (cache, d)) = Ok r) \<longleftrightarrow>
             body_length (capture_json isAddress f orderId) \<le> MAX_BODY \<and>
             (\<exists>order. fst (verifyOrder sv env now orderId cache) = Inr order \<and> vo_status order \<in> {''COMPLETED'', ''APPROVED''}))) \<and>
       (getTournament tid d = None \<longrightarrow>
          ((\<exists>token. fst (init_route buf now (avax_init f sponsor value tid hash) d) = Ok token) \<longleftrightarrow>
             body_length (avax_body f sponsor value hash) \<le> MAX_BODY \<and> length (player_lines (sf_playersText f)) \<le> 1024)))"
proof -
  have "wizard_inv isAddress setup_start" by (simp add: wizard_inv_def setup_start_def)
  with assms have inv: "wizard_inv isAddress s" by (rule wizard.reach_inv)
  then have ready: "setup_ready isAddress f" "canProceedWinners isAddress f" if "f \<in> set (sp_launches s)" for f
    using that by (auto simp: wizard_inv_def setup_ready_def)
  from inv have "length (sp_launches s) \<le> 1" by (simp add: wizard_inv_def)
  then show ?thesis
    by (intro conjI ballI impI ready(1) capture_sent_taken [OF ready(2)] avax_init_taken [OF ready(2)])
qed

section \<open>Closed instances\<close>

text \<open>The form as the page starts with it: its example players pass for players with wallets.\<close>

lemma example_players:
  "map p_wallet (setup_players (sf_playersText (sp_form setup_start))) = [''0xaaaa...'', ''0xbbbb...'', ''0xcccc...'', ''0xdddd...'']"
  by code_simp

definition demo_clicks :: "setup_action list" where
  "demo_clicks = [SetMode Bracket, GoStep 1, GoStep 2, PayApproved]"

definition demo_page :: "nat \<Rightarrow> setup_page" where
  "demo_page n = fold setup_handle (take n demo_clicks) setup_start"

lemma demo_page_facts:
  "sp_result (demo_page n) = None" "n < 4 \<Longrightarrow> sp_busy (demo_page n) = None"
  "0 < n \<Longrightarrow> sp_form (demo_page n) = (sp_form setup_start)\<lparr>sf_mode := Bracket\<rparr>"
proof -
  have "\<exists>k \<le> 4. demo_page n = demo_page k \<and> (0 < n \<longrightarrow> 0 < k) \<and> (n < 4 \<longrightarrow> k = n)"
    by (rule exI [of _ "min n 4"]) (simp add: demo_page_def demo_clicks_def min_def)
  then obtain k where k: "k \<le> 4" "demo_page n = demo_page k" "0 < n \<Longrightarrow> 0 < k" "n < 4 \<Longrightarrow> k = n" by blast
  from k(1) have "k = 0 \<or> k = 1 \<or> k = 2 \<or> k = 3 \<or> k = 4" by arith
  then show "sp_result (demo_page n) = None" "n < 4 \<Longrightarrow> sp_busy (demo_page n) = None"
    "0 < n \<Longrightarrow> sp_form (demo_page n) = (sp_form setup_start)\<lparr>sf_mode := Bracket\<rparr>"
    using k by (auto simp: demo_page_def demo_clicks_def setup_start_def launch_begins_def)
qed

lemma demo_ready: "canProceedWinners isAddress ((sp_form setup_start)\<lparr>sf_mode := Bracket\<rparr>)"
proof -
  have "length (setup_players (sf_playersText (sp_form setup_start))) = 4"
    using arg_cong [OF example_players, of length] by simp
  then show ?thesis by (simp add: canProceedWinners_def)
qed

lemma demo_reach: "n \<le> 4 \<Longrightarrow>
  (ui_step (setup_view isAddress e ''id'') setup_handle setup_event)\<^sup>*\<^sup>* setup_start (demo_page n)"
proof (induction n)
  case (Suc n)
  have step: "sp_step (demo_page n) = (if n \<le> 1 then 0 else n - 1)" if "n < 4"
  proof -
    from that have "n = 0 \<or> n = 1 \<or> n = 2 \<or> n = 3" by arith
    then show ?thesis by (auto simp: demo_page_def demo_clicks_def setup_start_def)
  qed
  have "demo_page (Suc n) = setup_handle (demo_clicks ! n) (demo_page n)"
    using Suc.prems take_Suc_conv_app_nth [of n demo_clicks] by (simp add: demo_page_def) (simp add: demo_clicks_def)
  moreover have "demo_clicks ! n \<in> set (offered (setup_view isAddress e ''id'' (demo_page n)))"
  proof -
    have start: "sf_name (sp_form setup_start) \<noteq> ''''" "sf_amount (sp_form setup_start) \<noteq> ''''"
      "sf_currency (sp_form setup_start) = USD" by (simp_all add: setup_start_def)
    note facts = demo_page_facts [of n] demo_ready [of isAddress]
    from Suc.prems have "n = 0 \<or> n = 1 \<or> n = 2 \<or> n = 3" by arith
    then show ?thesis
    proof (elim disjE)
      assume "n = 0"
      with step facts show ?thesis by (simp add: setup_view_def demo_clicks_def)
    next
      assume "n = 1"
      with step facts start show ?thesis by (simp add: setup_view_def demo_clicks_def)
    next
      assume "n = 2"
      with step facts start show ?thesis by (simp add: setup_view_def demo_clicks_def)
    next
      assume "n = 3"
      with step facts start show ?thesis by (simp add: setup_view_def demo_clicks_def)
    qed
  qed
  ultimately have "ui_step (setup_view isAddress e ''id'') setup_handle setup_event (demo_page n) (demo_page (Suc n))"
    using ui_step.clicked [of "demo_clicks ! n" "setup_view isAddress e ''id''" "demo_page n"] by simp
  with Suc show ?case by (auto intro: rtranclp.rtrancl_into_rtrancl)
qed (simp add: demo_page_def)

theorem wizard_launches_witness:
  "length (sp_launches (demo_page 4)) = 1 \<and> setup_ready (\<lambda>_. True) (hd (sp_launches (demo_page 4)))"
proof
  show "length (sp_launches (demo_page 4)) = 1"
    by (simp add: demo_page_def demo_clicks_def setup_start_def launch_begins_def)
  then have "hd (sp_launches (demo_page 4)) \<in> set (sp_launches (demo_page 4))" by (cases "sp_launches (demo_page 4)") simp_all
  then show "setup_ready (\<lambda>_. True) (hd (sp_launches (demo_page 4)))"
    using wizard_launches [OF demo_reach [of 4 "\<lambda>_. True" "\<lparr>se_cup = None, se_rpc = None, se_explorer = None\<rparr>"]] by simp
qed

end
