(* ===== verification/Console_View.thy ===== *)
theory Console_View
  imports Setup_View League
begin

text \<open>
  The three bracket pages as they are shown and used: the organizer's console
  \<open>app/manage/[id]/page.tsx\<close>, the player's console \<open>app/play/[id]/page.tsx\<close> and the spectator's view
  \<open>app/cup/[id]/page.tsx\<close>. They replay the stored results while rendering, so an exception of the
  engine is an exception of the page: the left side of a sum. \<open>ether\<close> is \<open>formatEther\<close>.
\<close>

section \<open>Shared texts\<close>

text \<open>\<open>format.replace("_", " ")\<close>\<close>

definition format_text :: "bracket_format \<Rightarrow> string" where
  "format_text fmt =
     (case fmt of F_single_elimination \<Rightarrow> ''single elimination'' | F_round_robin \<Rightarrow> ''round robin'' | F_swiss \<Rightarrow> ''swiss'')"

definition not_found :: "string \<Rightarrow> 'a item list" where
  "not_found msg = [Words msg, Link ''Home'' ''/'']"

section \<open>The organizer's console\<close>

datatype manage_action = RecordWin match_id outcome | FinalizeCup

text \<open>\<open>load\<close> and the end of the first effect: the reply has a tournament and a bracket or not; \<open>None\<close> when it
  cannot be fetched or read.\<close>

definition manage_load :: "(tournament_record option \<times> bracket_state option) option \<Rightarrow> manage_state \<Rightarrow> manage_state" where
  "manage_load res s =
     (let s1 = (case res of None \<Rightarrow> s | Some (rec, b) \<Rightarrow> s\<lparr>mg_record := rec, mg_bracket := b\<rparr>) in s1\<lparr>mg_loading := False\<rparr>)"

definition manage_start :: "int \<Rightarrow> browser \<Rightarrow> manage_state" where
  "manage_start tid br =
     \<lparr>mg_record = None, mg_bracket = None, mg_loading = True, mg_busy = None, mg_error = None,
      mg_token = br_session br (''amp_manage_'' @ show_int tid)\<rparr>"

definition manage_handle :: "int \<Rightarrow> manage_action \<Rightarrow> manage_state \<Rightarrow> manage_state" where
  "manage_handle tid a s =
     (case a of
        RecordWin i o1 \<Rightarrow> fst (recordResult tid i o1 s)
      | FinalizeCup \<Rightarrow>
          if mg_record s = None \<or> winnerWallets s = Inr [] then s
          else s\<lparr>mg_error := None, mg_busy := Some ''Finalizing...''\<rparr>)"

text \<open>While \<open>finalize\<close> runs: its progress, and its end with whatever the server, the relayer or the wallet said.\<close>

inductive manage_event :: "int \<Rightarrow> manage_state \<Rightarrow> manage_state \<Rightarrow> bool" for tid where
  polling: "mg_busy s \<noteq> None \<Longrightarrow> manage_event tid s (s\<lparr>mg_busy := Some msg\<rparr>)"
| finalized: "mg_busy s \<noteq> None \<Longrightarrow>
    manage_event tid s ((fst (finalize_page tid reply get sent s))\<lparr>mg_busy := None\<rparr>)"

inductive_cases manage_eventE: "manage_event tid s s'"

text \<open>One side of a match: its mark, its name, and its button while the match can be recorded.\<close>

definition manage_side :: "match_card \<Rightarrow> match_id \<Rightarrow> side \<Rightarrow> manage_action item list" where
  "manage_side c i s =
     [Words (if mc_winner c = Some s then ''crown'' else if s = SideA then ''A'' else ''B''),
      Words (case (if s = SideA then mc_a c else mc_b c) of None \<Rightarrow> ''bye'' | Some n \<Rightarrow> n)] @
     show_if (mc_live c) [Button ''win'' True (RecordWin i (if s = SideA then OutA else OutB))]"

definition manage_match :: "bracket_state \<Rightarrow> tournament \<Rightarrow> bracket_match \<Rightarrow> manage_action item list" where
  "manage_match b t m =
     (let c = manage_card b t m
      in show_if (mc_disputed c) [Words ''disputed - resolve below''] @
         manage_side c (m_id m) SideA @ manage_side c (m_id m) SideB @ show_if (mc_draw c) [Words ''draw''])"

definition manage_rounds :: "bracket_state \<Rightarrow> tournament \<Rightarrow> manage_action item list" where
  "manage_rounds b t =
     concat (map (\<lambda>r. Words (manage_round_label (b_format b) (rounds_of t) r) #
         concat (map (manage_match b t) (filter (\<lambda>m. int (m_round m) = r) (matches t)))) (rounds_of t))"

definition finalize_panel :: "int \<Rightarrow> manage_state \<Rightarrow> entrant_id list \<Rightarrow> manage_action item list" where
  "finalize_panel tid s ids =
     [Words ''Bracket complete - finalize to pay winners''] @
     concat (map (\<lambda>(place, name, wallet).
         [Words (or_else place ''''), Words (or_else name ''-''), Words (or_else wallet '''')]) (finalize_rows s ids)) @
     (if isFinalized s
      then Words ''Finalized on-chain. Winners can now claim.'' #
        map (\<lambda>(i, place). Link (''claim '' @ or_else place '''') (''/claim?tid='' @ show_int tid @ ''&place='' @ show_nat i))
          (claim_links s)
      else [Button (or_else (mg_busy s) (''Attest Results & Pay Winners '' @
               (if isCustodial s then ''(via relayer)'' else ''(sign with wallet)''))) (mg_busy s = None) FinalizeCup]) @
     (case mg_error s of None \<Rightarrow> [] | Some e \<Rightarrow> [Words e])"

definition manage_header ::
  "site_env \<Rightarrow> (string \<Rightarrow> string) \<Rightarrow> int \<Rightarrow> manage_state \<Rightarrow> tournament_record \<Rightarrow> bracket_state \<Rightarrow> tournament \<Rightarrow> manage_action item list"
where
  "manage_header e ether tid s rec b t =
     (let n = length (or_empty (b_disputes b))
      in [Link ''AMP'' ''/'',
          Words (''Cup #'' @ show_int tid @ '' - '' @
            (if isFinalized s then ''Finalized'' else if isComplete t then ''Ready to finalize'' else ''In progress'')),
          Words ''Organizer Console'',
          Words (''Prize '' @ ether (r_prizePoolWei rec) @ '' AVAX - '' @ show_nat (length (b_players b)) @ '' players - '' @
            format_text (b_format b))] @
         show_if (n > 0) [Words (show_nat n @ '' dispute'' @ plural n)] @
         [Link ''contract'' (contract_url e)])"

definition manage_view ::
  "site_env \<Rightarrow> (string \<Rightarrow> string) \<Rightarrow> int \<Rightarrow> manage_state \<Rightarrow> manage_action item list engine" where
  "manage_view e ether tid s =
     bind_result (manage_reconstruct (mg_bracket s)) (\<lambda>engine.
     bind_result (case engine of None \<Rightarrow> Inr [] | Some t \<Rightarrow> winners t) (\<lambda>ids.
       Inr (if mg_loading s then [Spinner]
            else case (mg_record s, engine, mg_bracket s) of
              (Some rec, Some t, Some b) \<Rightarrow>
                manage_header e ether tid s rec b t @ manage_rounds b t @
                show_if (isComplete t) (finalize_panel tid s ids)
            | _ \<Rightarrow> not_found (''Tournament #'' @ show_int tid @ '' not found.''))))"

text \<open>What is on the screen: nothing after an exception.\<close>

definition on_screen :: "'a item list engine \<Rightarrow> 'a item list" where
  "on_screen v = (case v of Inl _ \<Rightarrow> [] | Inr items \<Rightarrow> items)"

section \<open>The player's console\<close>

record play_state =
  pl_bracket :: "bracket_state option"
  pl_wallet :: "string option"
  pl_loading :: bool
  pl_busy :: "string option"
  pl_status :: "string option"
  pl_error :: "string option"

datatype play_action = PlayConnect | PlayReport play_outcome | PlayRefresh

definition play_start :: play_state where
  "play_start = \<lparr>pl_bracket = None, pl_wallet = None, pl_loading = True, pl_busy = None, pl_status = None, pl_error = None\<rparr>"

definition play_load :: "bracket_state option option \<Rightarrow> play_state \<Rightarrow> play_state" where
  "play_load res s = (case res of None \<Rightarrow> s | Some b \<Rightarrow> s\<lparr>pl_bracket := b\<rparr>)"

text \<open>\<open>connect\<close>, with the address of the wallet or its exception.\<close>

definition play_connect :: "(string, string) result \<Rightarrow> play_state \<Rightarrow> play_state" where
  "play_connect res s =
     (let s1 = s\<lparr>pl_error := None\<rparr>
      in case res of Inl e \<Rightarrow> s1\<lparr>pl_error := Some e\<rparr> | Inr a \<Rightarrow> s1\<lparr>pl_wallet := Some a\<rparr>)"

definition report_begins :: "play_state \<Rightarrow> play_state" where
  "report_begins s = s\<lparr>pl_busy := Some ''Signing + submitting...'', pl_error := None\<rparr>"

text \<open>The end of \<open>report\<close>: the exception of the wallet or of the request, the error of the reply, or its status; the
  bracket is loaded again, which may throw.\<close>

datatype report_reply = Filed "string option" | Refused "string option"

definition report_ends ::
  "(string, report_reply) result \<Rightarrow> (string, bracket_state option) result \<Rightarrow> play_state \<Rightarrow> play_state" where
  "report_ends reply again s =
     (case reply of
        Inl e \<Rightarrow> s\<lparr>pl_error := Some e\<rparr>
      | Inr (Refused msg) \<Rightarrow> s\<lparr>pl_error := Some (or_string msg ''report failed'')\<rparr>
      | Inr (Filed status) \<Rightarrow>
          (let s1 = s\<lparr>pl_status := Some (or_else status ''waiting'')\<rparr>
           in case again of Inl e \<Rightarrow> s1\<lparr>pl_error := Some e\<rparr> | Inr b \<Rightarrow> s1\<lparr>pl_bracket := b\<rparr>))\<lparr>pl_busy := None\<rparr>"

text \<open>The match and the side the player has, as the hooks compute them.\<close>

definition play_match :: "play_state \<Rightarrow> tournament option \<Rightarrow> (player \<times> bracket_match) option" where
  "play_match s engine =
     (case (pl_bracket s, engine) of
        (Some b, Some t) \<Rightarrow>
          (case page_me b (pl_wallet s) of None \<Rightarrow> None
           | Some me \<Rightarrow> map_option (Pair me) (myMatch t me))
      | _ \<Rightarrow> None)"

definition report_buttons :: "play_state \<Rightarrow> report_side \<Rightarrow> play_action item list" where
  "report_buttons s side =
     [Button ''I won'' (pl_busy s = None) (PlayReport (side_outcome side)),
      Button ''Draw'' (pl_busy s = None) (PlayReport PlayDraw),
      Button ''I lost'' (pl_busy s = None) (PlayReport (if side = RA then PlayB else PlayA))]"

definition status_items :: "play_state \<Rightarrow> string \<Rightarrow> play_action item list" where
  "status_items s opponent =
     (case pl_busy s of None \<Rightarrow> [] | Some msg \<Rightarrow> [Words msg]) @
     show_if (pl_status s = Some ''waiting'' \<and> pl_busy s = None)
       [Words (''Reported - waiting for '' @ opponent @ '' to confirm.'')] @
     show_if (pl_status s = Some ''confirmed'') [Words ''Confirmed - bracket advancing.''] @
     show_if (pl_status s = Some ''disputed'') [Words ''Disagreement - flagged for the organizer.'']"

definition play_match_panel ::
  "play_state \<Rightarrow> bracket_state \<Rightarrow> player \<Rightarrow> bracket_match \<Rightarrow> play_action item list" where
  "play_match_panel s b me m =
     (case mySide m me of None \<Rightarrow> []
      | Some side \<Rightarrow>
          (case page_opponent b m side of None \<Rightarrow> []
           | Some opp \<Rightarrow>
               [Words ''Your match'', Words (if side = RA then p_name me else p_name opp), Words ''Side A'',
                Words (if side = RB then p_name me else p_name opp), Words ''Side B'', Words ''Report your result''] @
               report_buttons s side @ status_items s (p_name opp)))"

definition play_idle_panel :: "player \<Rightarrow> tournament option \<Rightarrow> play_action item list engine" where
  "play_idle_panel me engine =
     (case engine of
        Some t \<Rightarrow>
          if isComplete t
          then bind_result (winners t) (\<lambda>ids.
            Inr [Words ''Tournament complete.'',
                 Words (if ids \<noteq> [] \<and> hd ids = p_id me then ''You won the cup!'' else ''Thanks for playing.'')])
          else Inr [Words ''No active match for you right now.'', Words ''Waiting for the bracket to advance.'']
      | None \<Rightarrow> Inr [Words ''No active match for you right now.'', Words ''Waiting for the bracket to advance.''])"

definition play_page :: "int \<Rightarrow> play_state \<Rightarrow> play_action item list engine" where
  "play_page tid s =
     bind_result (play_reconstruct (pl_bracket s)) (\<lambda>engine.
       let b = pl_bracket s;
           me = (case b of None \<Rightarrow> None | Some b \<Rightarrow> page_me b (pl_wallet s));
           top = [Link ''AMP'' ''/'', Link ''Spectator view'' (''/cup/'' @ show_int tid), Words ''Player Console'',
                  Words (''Cup #'' @ show_int tid)];
           err = (case pl_error s of None \<Rightarrow> [] | Some e \<Rightarrow> [Words e])
       in if pl_loading s then Inr [Spinner]
          else if no_string (pl_wallet s)
          then Inr (top @ [Words ''Connect the wallet you registered with to play.'', Button ''Connect Wallet'' True PlayConnect] @ err)
          else case me of
            None \<Rightarrow> Inr (top @ [Words ''You're not registered in this tournament.''])
          | Some me \<Rightarrow>
              bind_result (case play_match s engine of
                  None \<Rightarrow> play_idle_panel me engine
                | Some (_, m) \<Rightarrow> Inr (case b of None \<Rightarrow> [] | Some b \<Rightarrow> play_match_panel s b me m)) (\<lambda>panel.
                Inr (top @ err @ panel @
                  [Words (''Playing as '' @ p_name me @ '' - refresh to update''), Button ''refresh'' True PlayRefresh])))"

section \<open>The spectator's view\<close>

record cup_page =
  cp_bracket :: "bracket_state option"
  cp_loading :: bool
  cp_updated :: bool

datatype cup_action = CupRefresh

definition cup_start :: cup_page where
  "cup_start = \<lparr>cp_bracket = None, cp_loading = True, cp_updated = False\<rparr>"

text \<open>A load: what is shown changes, and the time of the update is noted, when the reply can be read.\<close>

definition cup_loaded :: "bracket_state option option \<Rightarrow> cup_page \<Rightarrow> cup_page" where
  "cup_loaded res s =
     s\<lparr>cp_bracket := cup_load res (cp_bracket s), cp_updated := (res \<noteq> None \<or> cp_updated s), cp_loading := False\<rparr>"

definition cup_reconstruct :: "bracket_state option \<Rightarrow> tournament option engine" where
  "cup_reconstruct b =
     (case b of None \<Rightarrow> Inr None
      | Some b \<Rightarrow>
          bind_result (new_tournament (formatOf b) (entrants_of b)) (\<lambda>t.
          bind_result (fold_result (\<lambda>r t.
              let o1 = (if mr_outcome r = ''B'' then OutB else if mr_outcome r = ''Draw'' then OutDraw else OutA)
              in record_result (mr_matchId r) o1 t) (b_results b) t)
            (\<lambda>t. Inr (Some t))))"

lemma cup_reconstruct_play: "cup_reconstruct = play_reconstruct"
  by (rule ext) (simp add: cup_reconstruct_def play_reconstruct_def)

definition cup_row_items :: "cup_row \<Rightarrow> cup_action item list" where
  "cup_row_items r =
     show_if (cu_won r) [Words ''crown''] @
     (case cu_player r of None \<Rightarrow> [Words ''bye''] | Some (n, seed) \<Rightarrow> [Words n, Words (''#'' @ show_int seed)])"

definition cup_rounds :: "bracket_state \<Rightarrow> tournament \<Rightarrow> cup_action item list" where
  "cup_rounds b t =
     concat (map (\<lambda>(label, cards). Words label #
         concat (map (\<lambda>(rows, live). concat (map cup_row_items rows) @ show_if live [Words ''live'']) cards))
       (cup_columns b t))"

definition cup_header :: "int \<Rightarrow> cup_page \<Rightarrow> bracket_state \<Rightarrow> tournament \<Rightarrow> player option \<Rightarrow> cup_action item list" where
  "cup_header tid s b t champ =
     (let n = length (or_empty (b_disputes b))
      in [Link ''AMP'' ''/'', Words ''live'', Button (if cp_updated s then ''updated'' else ''refresh'') True CupRefresh] @
         (case champ of None \<Rightarrow> [] | Some p \<Rightarrow> [Words ''Champion'', Words (p_name p), Words (p_wallet p)]) @
         [Words (''Cup #'' @ show_int tid),
          Words (show_nat (length (b_players b)) @ '' players - '' @ format_text (b_format b) @ '' - '' @
            (if isComplete t then ''final'' else ''in progress'')),
          Link ''I'm a player'' (''/play/'' @ show_int tid)] @
         show_if (n > 0) [Words (show_nat n @ '' match'' @ (if n > 1 then ''es'' else '''') @ '' awaiting organizer ruling'')])"

definition cup_standing_items :: "(nat \<times> string \<times> string) list \<Rightarrow> cup_action item list" where
  "cup_standing_items rows =
     Words ''Final standings'' # concat (map (\<lambda>(place, n, w). [Words (show_nat place), Words n, Words w]) rows)"

definition cup_view :: "site_env \<Rightarrow> int \<Rightarrow> cup_page \<Rightarrow> cup_action item list engine" where
  "cup_view e tid s =
     bind_result (cup_reconstruct (cp_bracket s)) (\<lambda>engine.
       if cp_loading s then Inr [Spinner]
       else case (cp_bracket s, engine) of
         (Some b, Some t) \<Rightarrow>
           bind_result (cup_champion b t) (\<lambda>champ.
           bind_result (cup_standings b t) (\<lambda>rows.
             Inr (cup_header tid s b t champ @ cup_rounds b t @ show_if (isComplete t) (cup_standing_items rows) @
               [Words ''Powered by the AMP Verifiable Tournament Engine'', Link ''view contract'' (contract_url e)])))
       | _ \<Rightarrow> Inr (not_found (''Cup #'' @ show_int tid @ '' not found or not yet started.'')))"

end
