(* ===== verification/Console.thy ===== *)
theory Console
  imports Console_View
begin

text \<open>
  The organizer's console in use: what it offers, that nothing done on it makes it crash, and that a
  knock-out cup can always be brought to its end from it.
\<close>

section \<open>What the console offers\<close>

lemma winners_total: "reachable fmt es t \<Longrightarrow> \<exists>ids. winners t = Inr ids"
proof -
  assume "reachable fmt es t"
  from standings_table [OF reachable_inv [OF this]] obtain st where "standings t = Inr st" by blast
  then show ?thesis by (cases "t_format t") (simp_all add: winners_def)
qed

lemma manage_reachable:
  "manage_reconstruct (Some b) = Inr (Some t) \<Longrightarrow> reachable (formatOf b) (entrants_of b) t"
  by (auto simp: manage_replay bind_result_eq_Inr intro: replay_reachable created)

lemma manage_reconstruct_Inr:
  "manage_reconstruct x = Inr engine \<Longrightarrow> (x = None \<and> engine = None) \<or> (\<exists>b t. x = Some b \<and> engine = Some t)"
  by (cases x) (auto simp: manage_reconstruct_def bind_result_eq_Inr)

lemma manage_renders: "(\<exists>v. manage_view e ether tid s = Inr v) \<longleftrightarrow> (\<exists>engine. manage_reconstruct (mg_bracket s) = Inr engine)"
proof
  assume "\<exists>engine. manage_reconstruct (mg_bracket s) = Inr engine"
  then obtain engine where g: "manage_reconstruct (mg_bracket s) = Inr engine" by blast
  have "\<exists>ids. (case engine of None \<Rightarrow> Inr [] | Some t \<Rightarrow> winners t) = Inr ids"
    using manage_reconstruct_Inr [OF g] winners_total [OF manage_reachable] g by (cases engine) auto
  with g show "\<exists>v. manage_view e ether tid s = Inr v" by (auto simp: manage_view_def)
qed (auto simp: manage_view_def bind_result_eq_Inr)

lemma outcomeOf_text [simp]: "outcomeOf (outcome_text o1) = o1"
  by (cases o1) (simp_all add: outcomeOf_def outcome_text_def)

lemma manage_snoc:
  assumes "manage_reconstruct (Some b) = Inr (Some t)"
  shows "manage_reconstruct (Some (b\<lparr>b_results := b_results b @ [\<lparr>mr_matchId = i, mr_outcome = outcome_text o1\<rparr>]\<rparr>)) =
    bind_result (record_result i o1 t) (\<lambda>t. Inr (Some t))"
proof -
  from assms obtain t0 where "new_tournament (formatOf b) (entrants_of b) = Inr t0"
    "replay (map (\<lambda>r. (mr_matchId r, outcomeOf (mr_outcome r))) (b_results b)) t0 = Inr t"
    by (auto simp: manage_replay bind_result_eq_Inr)
  moreover have "bind_result x Inr = x" for x :: "tournament engine" by (cases x) simp_all
  moreover have "replay [] = Inr" by (rule ext) simp
  ultimately show ?thesis by (simp add: manage_replay replay_append)
qed

lemma manage_frame [simp]:
  "manage_reconstruct (Some (b\<lparr>b_finalized := x\<rparr>)) = manage_reconstruct (Some b)"
  by (simp add: manage_replay)

lemma manage_match_offers:
  "offered (manage_match b t m) = (if m_id m \<in> set (pending t) then [RecordWin (m_id m) OutA, RecordWin (m_id m) OutB] else [])"
  "entries (manage_match b t m) = []"
  by (simp_all add: manage_match_def manage_side_def manage_card_def Let_def)

lemma manage_rounds_offers:
  "set (offered (manage_rounds b t)) = {RecordWin i o1 | i o1. i \<in> set (pending t) \<and> (o1 = OutA \<or> o1 = OutB)}"
  "entries (manage_rounds b t) = []"
proof -
  have "m \<in> set (matches t) \<Longrightarrow> int (m_round m) \<in> set (rounds_of t)" for m by (simp add: rounds_of_def)
  moreover have "i \<in> set (pending t) \<Longrightarrow> \<exists>m \<in> set (matches t). m_id m = i" for i
    by (auto simp: pending_def)
  ultimately show "set (offered (manage_rounds b t)) =
      {RecordWin i o1 | i o1. i \<in> set (pending t) \<and> (o1 = OutA \<or> o1 = OutB)}"
    by (force simp: manage_rounds_def offered_concat manage_match_offers split: if_splits)
  show "entries (manage_rounds b t) = []"
    by (simp add: manage_rounds_def entries_concat manage_match_offers comp_def)
qed

lemma finalize_panel_offers:
  "offered (finalize_panel tid s ids) = (if \<not> isFinalized s \<and> mg_busy s = None then [FinalizeCup] else [])"
  "entries (finalize_panel tid s ids) = []"
proof -
  have rows: "offered (concat (map (\<lambda>(place, name, wallet). [Words (or_else place u), Words (or_else name v), Words (or_else wallet w)]) rs)) = []"
    "entries (concat (map (\<lambda>(place, name, wallet). [Words (or_else place u), Words (or_else name v), Words (or_else wallet w)]) rs)) = []"
    for u v w rs by (induction rs) auto
  have links: "offered (map (\<lambda>(i, place). Link (f place) (g i)) ls) = []" "entries (map (\<lambda>(i, place). Link (f place) (g i)) ls) = []"
    for f g ls by (induction ls) auto
  show "offered (finalize_panel tid s ids) = (if \<not> isFinalized s \<and> mg_busy s = None then [FinalizeCup] else [])"
    "entries (finalize_panel tid s ids) = []"
    by (simp_all add: finalize_panel_def rows links split: option.split)
qed

lemma manage_header_quiet [simp]:
  "offered (manage_header e ether tid s rec b t) = []" "entries (manage_header e ether tid s rec b t) = []"
  by (simp_all only: manage_header_def Let_def quiet_rules)

lemma manage_view_loaded:
  assumes "\<not> mg_loading s" "mg_record s = Some rec" "mg_bracket s = Some b"
    and "manage_reconstruct (Some b) = Inr (Some t)" "winners t = Inr ids"
  shows "manage_view e ether tid s =
    Inr (manage_header e ether tid s rec b t @ manage_rounds b t @ show_if (isComplete t) (finalize_panel tid s ids))"
  unfolding manage_view_def assms(3) assms(4) bind_result_simps option.case assms(5)
  by (simp only: assms option.case prod.case if_False)

lemma manage_engine:
  assumes "manage_view e ether tid s = Inr v" "mg_bracket s = Some b"
  obtains t ids where "manage_reconstruct (Some b) = Inr (Some t)" "winners t = Inr ids"
proof -
  from assms(1) have "\<exists>engine. manage_reconstruct (Some b) = Inr engine"
    using manage_renders [of e ether tid s] assms(2) by auto
  then obtain engine where g: "manage_reconstruct (Some b) = Inr engine" by blast
  from manage_reconstruct_Inr [OF this] obtain t where t: "engine = Some t" by auto
  then obtain ids where "winners t = Inr ids" using winners_total [OF manage_reachable] g by blast
  with that g t show thesis by blast
qed

lemma manage_offers:
  assumes "\<not> mg_loading s" "mg_record s = Some rec" "mg_bracket s = Some b"
    and "manage_reconstruct (Some b) = Inr (Some t)" "manage_view e ether tid s = Inr v"
  shows "set (offered v) = {RecordWin i o1 | i o1. i \<in> set (pending t) \<and> (o1 = OutA \<or> o1 = OutB)} \<union>
      (if isComplete t \<and> \<not> isFinalized s \<and> mg_busy s = None then {FinalizeCup} else {})"
    and "entries v = []"
proof -
  obtain ids where ids: "winners t = Inr ids" using winners_total [OF manage_reachable [OF assms(4)]] by blast
  have v: "v = manage_header e ether tid s rec b t @ manage_rounds b t @ show_if (isComplete t) (finalize_panel tid s ids)"
    using manage_view_loaded [OF assms(1-4) ids, of e ether tid] assms(5) by simp
  show "entries v = []" unfolding v by (simp add: manage_rounds_offers(2) finalize_panel_offers(2))
  have "set (offered v) = set (offered (manage_rounds b t)) \<union> (if isComplete t then set (offered (finalize_panel tid s ids)) else {})"
    unfolding v by simp
  then show "set (offered v) = {RecordWin i o1 | i o1. i \<in> set (pending t) \<and> (o1 = OutA \<or> o1 = OutB)} \<union>
      (if isComplete t \<and> \<not> isFinalized s \<and> mg_busy s = None then {FinalizeCup} else {})"
    unfolding manage_rounds_offers(1) finalize_panel_offers(1) by auto
qed

lemma manage_offers_unloaded:
  assumes "mg_loading s \<or> mg_record s = None \<or> mg_bracket s = None"
  shows "offered (on_screen (manage_view e ether tid s)) = [] \<and> entries (on_screen (manage_view e ether tid s)) = []"
proof (cases "manage_view e ether tid s")
  case (Inr v)
  then have "\<exists>x. manage_reconstruct (mg_bracket s) = Inr x" using manage_renders by blast
  then obtain engine where g: "manage_reconstruct (mg_bracket s) = Inr engine" by blast
  have "v = [Spinner] \<or> v = not_found (''Tournament #'' @ show_int tid @ '' not found.'')"
    using assms Inr g manage_reconstruct_Inr [OF g] unfolding manage_view_def
    by (auto simp only: bind_result_simps bind_result_eq_Inr option.case prod.case sum.inject if_True split: if_splits option.splits)
  with Inr show ?thesis by (auto simp only: on_screen_def sum.case not_found_def quiet_rules)
qed (simp add: on_screen_def)

text \<open>C15. The console offers exactly what can be done: with a tournament loaded, a win button for either side of
  every match that is pending in the engine and for no other, and the button that pays the winners
  exactly when the bracket is complete, not finalized, and no payment is under way.\<close>

theorem console_offers:
  assumes "manage_view e ether tid s = Inr v" "\<not> mg_loading s" "mg_record s = Some rec" "mg_bracket s = Some b"
  shows "\<exists>t. manage_reconstruct (Some b) = Inr (Some t) \<and>
    set (offered v) = {RecordWin i o1 | i o1. i \<in> set (pending t) \<and> (o1 = OutA \<or> o1 = OutB)} \<union>
      (if isComplete t \<and> \<not> isFinalized s \<and> mg_busy s = None then {FinalizeCup} else {})"
proof -
  obtain t ids where "manage_reconstruct (Some b) = Inr (Some t)" "winners t = Inr ids"
    using assms(1,4) by (rule manage_engine)
  with manage_offers(1) [OF assms(2-4) this(1) assms(1)] show ?thesis by blast
qed

section \<open>Using the console\<close>

definition renders :: "manage_state \<Rightarrow> bool" where
  "renders s \<longleftrightarrow> (\<exists>engine. manage_reconstruct (mg_bracket s) = Inr engine)"

lemma record_pending:
  "reachable fmt es t \<Longrightarrow> i \<in> set (pending t) \<Longrightarrow> o1 = OutA \<or> o1 = OutB \<Longrightarrow> \<exists>t'. record_result i o1 t = Inr t'"
  by (auto simp: pending_iff record_result_Inr)

lemma recordResult_bracket:
  "mg_bracket s = Some b \<Longrightarrow> fst (recordResult tid i o1 s) =
     s\<lparr>mg_bracket := Some (b\<lparr>b_results := b_results b @ [\<lparr>mr_matchId = i, mr_outcome = outcome_text o1\<rparr>]\<rparr>)\<rparr>"
  by (simp add: recordResult_def persist_def)

lemma renders_clicked:
  assumes "renders s" "a \<in> set (offered (on_screen (manage_view e ether tid s)))"
  shows "renders (manage_handle tid a s)"
proof -
  have "\<not> (mg_loading s \<or> mg_record s = None \<or> mg_bracket s = None)"
  proof
    assume "mg_loading s \<or> mg_record s = None \<or> mg_bracket s = None"
    from manage_offers_unloaded [OF this, of e ether tid] assms(2) show False by simp
  qed
  then have loaded: "\<not> mg_loading s" "mg_record s \<noteq> None" "mg_bracket s \<noteq> None" by auto
  then obtain rec b where rb: "mg_record s = Some rec" "mg_bracket s = Some b" by auto
  from assms(1) obtain v where v: "manage_view e ether tid s = Inr v"
    using manage_renders [of e ether tid s] by (auto simp: renders_def)
  obtain t ids where t: "manage_reconstruct (Some b) = Inr (Some t)" "winners t = Inr ids" using v rb(2) by (rule manage_engine)
  have "a \<in> set (offered v)" using assms(2) v by (simp add: on_screen_def)
  then consider i o1 where "a = RecordWin i o1" "i \<in> set (pending t)" "o1 = OutA \<or> o1 = OutB" | "a = FinalizeCup"
    unfolding manage_offers(1) [OF loaded(1) rb t(1) v] by (auto split: if_splits)
  then show ?thesis
  proof cases
    case 1
    obtain t' where "record_result i o1 t = Inr t'" using record_pending [OF manage_reachable [OF t(1)] 1(2,3)] by blast
    with 1(1) manage_snoc [OF t(1), of i o1] show ?thesis
      by (simp add: manage_handle_def renders_def recordResult_bracket [OF rb(2)])
  next
    case 2
    with assms(1) show ?thesis by (simp add: manage_handle_def renders_def)
  qed
qed

lemma finalize_page_bracket:
  "manage_reconstruct (mg_bracket (fst (finalize_page tid reply get sent s))) = manage_reconstruct (mg_bracket s)"
  by (auto simp: finalize_page_def Let_def persist_def bind_result_def split: option.split sum.split finalize_reply.split)

lemma renders_event: "manage_event tid s s' \<Longrightarrow> renders s \<Longrightarrow> renders s'"
  by (erule manage_eventE) (simp_all add: renders_def finalize_page_bracket)

interpretation console: page "\<lambda>s. on_screen (manage_view e ether tid s)" "manage_handle tid" "manage_event tid" renders
  for e ether tid
proof unfold_locales
  fix s f input assume "f \<in> set (entries (on_screen (manage_view e ether tid s)))"
  moreover have "entries (on_screen (manage_view e ether tid s)) = []"
  proof (cases "mg_loading s \<or> mg_record s = None \<or> mg_bracket s = None")
    case True
    then show ?thesis using manage_offers_unloaded by blast
  next
    case False
    then obtain rec b where rb: "mg_record s = Some rec" "mg_bracket s = Some b" by auto
    show ?thesis
    proof (cases "manage_view e ether tid s")
      case (Inr v)
      obtain t ids where "manage_reconstruct (Some b) = Inr (Some t)" "winners t = Inr ids" using Inr rb(2) by (rule manage_engine)
      with manage_offers(2) [OF _ rb this(1) Inr] False Inr show ?thesis by (simp add: on_screen_def)
    qed (simp add: on_screen_def)
  qed
  ultimately show "renders (manage_handle tid (f input) s)" by simp
qed (auto intro: renders_clicked renders_event)

text \<open>C6. The console cannot crash itself: a console that renders still renders after anything that is clicked on
  it and however payments end, so every result it records is one the engine accepts.\<close>

theorem console_never_crashes:
  assumes "manage_view e ether tid s = Inr v"
    and "(ui_step (\<lambda>s. on_screen (manage_view e ether tid s)) (manage_handle tid) (manage_event tid))\<^sup>*\<^sup>* s s'"
  shows "\<exists>v'. manage_view e ether tid s' = Inr v'"
proof -
  have "renders s" using assms(1) manage_renders [of e ether tid s] by (auto simp: renders_def)
  with assms(2) have "renders s'" by (rule console.reach_inv)
  then show ?thesis using manage_renders by (auto simp: renders_def)
qed

text \<open>A console in the middle of a knock-out cup: what it has recorded so far replays to \<open>t\<close>.\<close>

definition cup_console :: "manage_state \<Rightarrow> bracket_state \<Rightarrow> tournament \<Rightarrow> (match_id \<times> outcome) list \<Rightarrow> tournament \<Rightarrow> bool" where
  "cup_console s b t0 rs t \<longleftrightarrow>
     \<not> mg_loading s \<and> mg_record s \<noteq> None \<and> mg_bracket s = Some b \<and> \<not> isFinalized s \<and> mg_busy s = None \<and>
     b_format b = F_single_elimination \<and> new_tournament SingleElimination (entrants_of b) = Inr t0 \<and>
     rs = map (\<lambda>r. (mr_matchId r, outcomeOf (mr_outcome r))) (b_results b) \<and> replay rs t0 = Inr t \<and> OutVoid \<notin> snd ` set rs"

lemma cup_console_engine: "cup_console s b t0 rs t \<Longrightarrow> manage_reconstruct (Some b) = Inr (Some t)"
  by (auto simp: cup_console_def manage_replay formatOf_def)

lemma cup_console_view:
  assumes "cup_console s b t0 rs t"
  obtains v where "manage_view e ether tid s = Inr v"
    "set (offered v) = {RecordWin i o1 | i o1. i \<in> set (pending t) \<and> (o1 = OutA \<or> o1 = OutB)} \<union>
      (if isComplete t then {FinalizeCup} else {})"
proof -
  note t = cup_console_engine [OF assms]
  from assms obtain rec where s: "\<not> mg_loading s" "mg_record s = Some rec" "mg_bracket s = Some b"
    "\<not> isFinalized s" "mg_busy s = None" by (auto simp: cup_console_def)
  obtain v where v: "manage_view e ether tid s = Inr v" using manage_renders [of e ether tid s] t s(3) by auto
  from that [OF v] manage_offers(1) [OF s(1-3) t v] s(4,5) show thesis by simp
qed

text \<open>An incomplete one has a win button, and clicking it leads to the next.\<close>

lemma cup_console_win:
  assumes c: "cup_console s b t0 rs t" and "\<not> isComplete t"
  obtains i t' where "RecordWin i OutA \<in> set (offered (on_screen (manage_view e ether tid s)))"
    "cup_console (fst (recordResult tid i OutA s)) (b\<lparr>b_results := b_results b @ [\<lparr>mr_matchId = i, mr_outcome = outcome_text OutA\<rparr>]\<rparr>)
       t0 (rs @ [(i, OutA)]) t'"
proof -
  let ?es = "entrants_of b"
  from c have run: "new_tournament SingleElimination ?es = Inr t0" "replay rs t0 = Inr t" "OutVoid \<notin> snd ` set rs"
    and b: "mg_bracket s = Some b" and rs: "rs = map (\<lambda>r. (mr_matchId r, outcomeOf (mr_outcome r))) (b_results b)"
    unfolding cup_console_def by blast+
  from run obtain k where k: "cup_inv k ?es (length rs) t" "void_free (t_matchMap t)" by (rule cup_run_decisive)
  obtain i where i: "i \<in> set (pending t)" using cup_progress [OF k assms(2)] by (cases "pending t") auto
  note reach = replay_reachable [OF created [OF run(1)] run(2)]
  obtain t' where t': "record_result i OutA t = Inr t'" using record_pending [OF reach i] by blast
  let ?b = "b\<lparr>b_results := b_results b @ [\<lparr>mr_matchId = i, mr_outcome = outcome_text OutA\<rparr>]\<rparr>"
  let ?s = "s\<lparr>mg_bracket := Some ?b\<rparr>"
  obtain v where v: "manage_view e ether tid s = Inr v"
    "set (offered v) = {RecordWin i o1 | i o1. i \<in> set (pending t) \<and> (o1 = OutA \<or> o1 = OutB)} \<union>
      (if isComplete t then {FinalizeCup} else {})" using c by (rule cup_console_view)
  have "RecordWin i OutA \<in> set (offered (on_screen (manage_view e ether tid s)))" using v i by (auto simp: on_screen_def)
  moreover have "isFinalized ?s = isFinalized s" using b by (simp add: isFinalized_def)
  then have "cup_console ?s ?b t0 (rs @ [(i, OutA)]) t'"
    using c t' run(2) rs [symmetric] unfolding cup_console_def by (simp add: replay_append)
  ultimately show thesis using that [of i t'] by (simp add: recordResult_bracket [OF b])
qed

lemma cup_console_step:
  assumes "cup_console s b t0 rs t" "\<not> isComplete t"
  obtains s' b' i t' where "ui_step (\<lambda>s. on_screen (manage_view e ether tid s)) (manage_handle tid) (manage_event tid) s s'"
    "cup_console s' b' t0 (rs @ [(i, OutA)]) t'" "entrants_of b' = entrants_of b"
proof -
  obtain i t' where i: "RecordWin i OutA \<in> set (offered (on_screen (manage_view e ether tid s)))"
    "cup_console (fst (recordResult tid i OutA s)) (b\<lparr>b_results := b_results b @ [\<lparr>mr_matchId = i, mr_outcome = outcome_text OutA\<rparr>]\<rparr>)
       t0 (rs @ [(i, OutA)]) t'" using assms by (rule cup_console_win)
  from i(1) have "ui_step (\<lambda>s. on_screen (manage_view e ether tid s)) (manage_handle tid) (manage_event tid) s
      (manage_handle tid (RecordWin i OutA) s)" by (rule ui_step.clicked)
  with that [of "fst (recordResult tid i OutA s)"] i(2) show thesis by (simp add: manage_handle_def)
qed

lemma cup_console_start:
  assumes "\<not> mg_loading s" "mg_record s \<noteq> None" "mg_bracket s = Some b" "b_format b = F_single_elimination"
    and "''Void'' \<notin> mr_outcome ` set (b_results b)" "\<not> isFinalized s" "mg_busy s = None" "manage_reconstruct (Some b) = Inr (Some t)"
  shows "\<exists>t0 rs. cup_console s b t0 rs t"
proof -
  let ?rs = "map (\<lambda>r. (mr_matchId r, outcomeOf (mr_outcome r))) (b_results b)"
  have fmt: "formatOf b = SingleElimination" using assms(4) by (simp add: formatOf_def)
  from assms(8) obtain t0 where t0: "new_tournament SingleElimination (entrants_of b) = Inr t0" "replay ?rs t0 = Inr t"
    by (auto simp: manage_replay fmt bind_result_eq_Inr)
  have "outcomeOf o1 = OutVoid \<Longrightarrow> o1 = ''Void''" for o1 by (simp add: outcomeOf_def split: if_splits)
  then have "OutVoid \<in> snd ` set ?rs \<Longrightarrow> ''Void'' \<in> mr_outcome ` set (b_results b)" by (auto simp: image_iff) metis
  with assms(5) have "OutVoid \<notin> snd ` set ?rs" by blast
  with assms(1-4,6,7) t0 have "cup_console s b t0 ?rs t" unfolding cup_console_def by blast
  then show ?thesis by blast
qed

text \<open>The organizer can always finish a knock-out cup: from every console that shows one with no void result
  and no payment made, some clicks lead to a console that offers to pay the winners.\<close>

theorem console_can_finish:
  assumes "manage_view e ether tid s = Inr v" "\<not> mg_loading s" "mg_record s \<noteq> None" "mg_bracket s = Some b"
    and "b_format b = F_single_elimination" "''Void'' \<notin> mr_outcome ` set (b_results b)" "\<not> isFinalized s" "mg_busy s = None"
  shows "\<exists>s' v'. (ui_step (\<lambda>s. on_screen (manage_view e ether tid s)) (manage_handle tid) (manage_event tid))\<^sup>*\<^sup>* s s' \<and>
    manage_view e ether tid s' = Inr v' \<and> FinalizeCup \<in> set (offered v')"
proof -
  let ?step = "ui_step (\<lambda>s. on_screen (manage_view e ether tid s)) (manage_handle tid) (manage_event tid)"
  have finish: "\<exists>s' v'. ?step\<^sup>*\<^sup>* s s' \<and> manage_view e ether tid s' = Inr v' \<and> FinalizeCup \<in> set (offered v')"
    if "cup_console s b t0 rs t" "length (entrants_of b) - (length rs + 1) = n" for n s b t0 rs t
    using that
  proof (induction n arbitrary: s b rs t)
    case 0
    from 0(1) have "new_tournament SingleElimination (entrants_of b) = Inr t0" "replay rs t0 = Inr t"
      unfolding cup_console_def by blast+
    then obtain k where k: "cup_inv k (entrants_of b) (length rs) t" by (rule cup_run)
    have "isComplete t" using cup_complete_count [OF k] 0(2) by simp
    moreover obtain v where "manage_view e ether tid s = Inr v"
      "set (offered v) = {RecordWin i o1 | i o1. i \<in> set (pending t) \<and> (o1 = OutA \<or> o1 = OutB)} \<union>
        (if isComplete t then {FinalizeCup} else {})" using 0(1) by (rule cup_console_view)
    ultimately show ?case by (intro exI [of _ s] exI [of _ v]) simp
  next
    case (Suc n)
    from Suc(2) have "new_tournament SingleElimination (entrants_of b) = Inr t0" "replay rs t0 = Inr t"
      unfolding cup_console_def by blast+
    then obtain k where k: "cup_inv k (entrants_of b) (length rs) t" by (rule cup_run)
    have "\<not> isComplete t" using cup_complete_count [OF k] Suc(3) by simp
    then obtain s1 b1 i t1 where 1: "?step s s1" "cup_console s1 b1 t0 (rs @ [(i, OutA)]) t1" "entrants_of b1 = entrants_of b"
      by (rule cup_console_step [OF Suc(2)])
    have "length (entrants_of b1) - (length (rs @ [(i, OutA)]) + 1) = n" using 1(3) Suc(3) by simp
    from Suc.IH [OF 1(2) this] obtain s' v' where "?step\<^sup>*\<^sup>* s1 s'" "manage_view e ether tid s' = Inr v'"
      "FinalizeCup \<in> set (offered v')" by blast
    with 1(1) show ?case by (blast intro: converse_rtranclp_into_rtranclp)
  qed
  obtain t ids where t: "manage_reconstruct (Some b) = Inr (Some t)" "winners t = Inr ids" using assms(1,4) by (rule manage_engine)
  from cup_console_start [OF assms(2-8) t(1)] obtain t0 rs where "cup_console s b t0 rs t" by blast
  then show ?thesis by (rule finish) (rule refl)
qed

end
