(* ===== verification/Play_Console.thy ===== *)
theory Play_Console
  imports Console
begin

text \<open>
  What the three bracket pages do to each other and to the server: the reports the player's page
  offers, stale messages, what a draw in a knock-out cup does to every page, cups that can be launched
  but never paid, and the closed instances of the theorems on the console.
\<close>

section \<open>The player's console\<close>

lemma play_reachable:
  "play_reconstruct (Some b) = Inr (Some t) \<Longrightarrow> reachable (formatOf b) (entrants_of b) t"
  by (auto simp: play_replay bind_result_eq_Inr intro: reconstruct_reachable)

lemma report_buttons_offer:
  "offered (report_buttons s side) = (if pl_busy s = None then
     [PlayReport (side_outcome side), PlayReport PlayDraw, PlayReport (if side = RA then PlayB else PlayA)] else [])"
  by (simp add: report_buttons_def)

lemma status_items_quiet [simp]: "offered (status_items s opp) = []"
  by (simp only: status_items_def quiet_rules split: option.split) simp

lemma play_match_panel_offers:
  "PlayReport o1 \<in> set (offered (play_match_panel s b me m)) \<longleftrightarrow>
     (\<exists>side opp. mySide m me = Some side \<and> page_opponent b m side = Some opp) \<and> pl_busy s = None"
  by (cases o1) (auto simp: play_match_panel_def report_buttons_offer side_outcome_def split: option.split report_side.split)

lemma play_idle_quiet: "play_idle_panel me engine = Inr v \<Longrightarrow> offered v = []"
  by (auto simp: play_idle_panel_def bind_result_eq_Inr split: option.splits if_splits)

lemma play_offers:
  assumes "play_page tid s = Inr v" "PlayReport o1 \<in> set (offered v)"
  obtains b t me m where "pl_bracket s = Some b" "play_reconstruct (Some b) = Inr (Some t)" "page_me b (pl_wallet s) = Some me"
    "myMatch t me = Some m" "pl_busy s = None" "\<not> no_string (pl_wallet s)"
proof -
  from assms(1) obtain engine where g: "play_reconstruct (pl_bracket s) = Inr engine"
    by (auto simp: play_page_def bind_result_eq_Inr)
  have err: "offered (case pl_error s of None \<Rightarrow> [] | Some e \<Rightarrow> [Words e]) = []" by (simp split: option.split)
  have "\<not> pl_loading s \<and> \<not> no_string (pl_wallet s)"
    using assms g by (auto simp: play_page_def Let_def err split: if_splits)
  moreover from this obtain b me where b: "pl_bracket s = Some b" "page_me b (pl_wallet s) = Some me"
    using assms g by (auto simp: play_page_def Let_def err split: option.splits)
  moreover from b(1) g obtain t where t: "play_reconstruct (Some b) = Inr (Some t)"
    by (auto simp: play_replay bind_result_eq_Inr)
  ultimately show thesis
    using assms g that play_idle_quiet
    by (auto simp: play_page_def play_match_def Let_def bind_result_eq_Inr err play_match_panel_offers split: option.splits)
qed

text \<open>C14. The server files what the player's console offers: whenever a report button can be clicked and the
  bracket is not finalized, the request the page sends is judged for the player's side and filed.\<close>

theorem offered_report_filed:
  assumes "play_page tid s = Inr v" "PlayReport o1 \<in> set (offered v)" "pl_bracket s = Some b" "b_finalized b \<noteq> Some True"
  shows "\<exists>t me m side. play_reconstruct (Some b) = Inr (Some t) \<and> page_me b (pl_wallet s) = Some me \<and>
    myMatch t me = Some m \<and> mySide m me = Some side \<and>
    judge_report (the (q_matchId (page_report tid (the (pl_wallet s)) sign nonce ts m side o1))) (the (pl_wallet s)) (play_text o1) b =
      Ok (file_report (m_id m) side (the (pl_wallet s)) (play_text o1) b)"
proof -
  obtain b' t me m where 1: "pl_bracket s = Some b'" "play_reconstruct (Some b') = Inr (Some t)"
    "page_me b' (pl_wallet s) = Some me" "myMatch t me = Some m" "\<not> no_string (pl_wallet s)"
    using play_offers [OF assms(1,2)] by metis
  then obtain w where w: "pl_wallet s = Some w" by (auto simp: no_string_def)
  have b: "b' = b" using 1(1) assms(3) by simp
  note facts = 1(2,3,4) [unfolded b w]
  from page_report_filed [OF facts assms(4)] obtain side where "mySide m me = Some side"
    "judge_report (the (q_matchId (page_report tid w sign nonce ts m side o1))) w (play_text o1) b =
      Ok (file_report (m_id m) side w (play_text o1) b)" by blast
  with facts w show ?thesis by auto
qed

lemma play_page_match:
  assumes "\<not> pl_loading s" "\<not> no_string (pl_wallet s)" "pl_bracket s = Some b" "play_reconstruct (Some b) = Inr (Some t)"
    and "page_me b (pl_wallet s) = Some me" "myMatch t me = Some m"
  shows "play_page tid s = Inr
    (([Link ''AMP'' ''/'', Link ''Spectator view'' (''/cup/'' @ show_int tid), Words ''Player Console'',
       Words (''Cup #'' @ show_int tid)] @ (case pl_error s of None \<Rightarrow> [] | Some e \<Rightarrow> [Words e])) @
     play_match_panel s b me m @
     [Words (''Playing as '' @ p_name me @ '' - refresh to update''), Button ''refresh'' True PlayRefresh])"
  using assms by (simp add: play_page_def play_match_def Let_def)

text \<open>The status of a report outlives its match: it is not reset when the bracket is loaded again, so a player
  whose result was confirmed by the opponent is told, in the next match and before reporting anything,
  that the new opponent has to confirm.\<close>

theorem status_outlives_match:
  assumes "pl_status s = Some ''waiting''" "pl_busy s = None" "\<not> pl_loading s" "\<not> no_string (pl_wallet s)"
    and "play_reconstruct (Some b) = Inr (Some t)" "page_me b (pl_wallet s) = Some me" "myMatch t me = Some m"
    and "mySide m me = Some side" "page_opponent b m side = Some opp"
  shows "\<exists>v. play_page tid (play_load (Some (Some b)) s) = Inr v \<and>
    Words (''Reported - waiting for '' @ p_name opp @ '' to confirm.'') \<in> set v"
proof -
  let ?s = "play_load (Some (Some b)) s"
  have s: "\<not> pl_loading ?s" "\<not> no_string (pl_wallet ?s)" "pl_bracket ?s = Some b" "page_me b (pl_wallet ?s) = Some me"
    using assms by (simp_all add: play_load_def)
  note v = play_page_match [OF s(1-3) assms(5) s(4) assms(7), of tid]
  have sub: "set (status_items ?s (p_name opp)) \<subseteq> set (play_match_panel ?s b me m)"
    using assms(8,9) by (auto simp: play_match_panel_def)
  have "Words (''Reported - waiting for '' @ p_name opp @ '' to confirm.'') \<in> set (status_items ?s (p_name opp))"
    using assms(1,2) by (simp add: status_items_def play_load_def)
  note mem = subsetD [OF sub this]
  have "y \<in> set ys \<Longrightarrow> y \<in> set (xs @ ys @ zs)" for y and xs ys zs :: "play_action item list" by simp
  note this [OF mem]
  with v show ?thesis by blast
qed

section \<open>A draw in a knock-out cup\<close>

lemma replay_no_draw: "replay rs t = Inr t' \<Longrightarrow> reachable SingleElimination es t \<Longrightarrow> OutDraw \<notin> snd ` set rs"
proof (induction rs arbitrary: t)
  case (Cons r rs)
  obtain i o1 where r: "r = (i, o1)" by (cases r)
  with Cons.prems(1) obtain t1 where t1: "record_result i o1 t = Inr t1" "replay rs t1 = Inr t'"
    by (auto simp: bind_result_eq_Inr)
  have "t_format t = SingleElimination" using reachable_inv [OF Cons.prems(2)] by (simp add: driver_inv_def)
  with t1(1) have "o1 \<noteq> OutDraw" by (auto simp: record_result_Inr)
  moreover have "OutDraw \<notin> snd ` set rs" using Cons.IH [OF t1(2) recorded [OF Cons.prems(2) t1(1)]] .
  ultimately show ?case by (simp add: r)
qed simp

lemma draw_no_replay:
  assumes "b_format b = F_single_elimination" "''Draw'' \<in> mr_outcome ` set (b_results b)"
    and f: "\<And>o1. o1 = ''Draw'' \<Longrightarrow> f o1 = OutDraw"
  shows "bind_result (new_tournament (formatOf b) (entrants_of b)) (replay (map (\<lambda>r. (mr_matchId r, f (mr_outcome r))) (b_results b))) \<noteq> Inr t"
proof
  assume "bind_result (new_tournament (formatOf b) (entrants_of b)) (replay (map (\<lambda>r. (mr_matchId r, f (mr_outcome r))) (b_results b))) = Inr t"
  then obtain t0 where t0: "new_tournament SingleElimination (entrants_of b) = Inr t0"
    "replay (map (\<lambda>r. (mr_matchId r, f (mr_outcome r))) (b_results b)) t0 = Inr t"
    using assms(1) by (auto simp: bind_result_eq_Inr formatOf_def)
  from replay_no_draw [OF t0(2) created [OF t0(1)]] have "OutDraw \<notin> (\<lambda>r. f (mr_outcome r)) ` set (b_results b)"
    by (simp add: image_image)
  moreover from assms(2) obtain r where r: "r \<in> set (b_results b)" "mr_outcome r = ''Draw''" by auto
  from f [OF r(2)] r(1) have "OutDraw \<in> (\<lambda>r. f (mr_outcome r)) ` set (b_results b)" by (metis image_eqI)
  ultimately show False by contradiction
qed

text \<open>A confirmed draw blanks every page of a knock-out cup: with one \<open>Draw\<close> among the stored results the
  console, the player's page and the spectator's page throw while rendering, so nothing is offered
  any more that could repair the bracket.\<close>

theorem draw_blanks_pages:
  assumes "b_format b = F_single_elimination" "''Draw'' \<in> mr_outcome ` set (b_results b)"
    and "mg_bracket s = Some b" "pl_bracket p = Some b" "cp_bracket c = Some b"
  shows "\<exists>e1 e2 e3. manage_view env ether tid s = Inl e1 \<and> play_page tid p = Inl e2 \<and> cup_view env tid c = Inl e3 \<and>
    offered (on_screen (manage_view env ether tid s)) = []"
proof -
  have "manage_reconstruct (Some b) \<noteq> Inr x" for x
    using draw_no_replay [OF assms(1,2), of outcomeOf]
    by (auto simp: manage_replay bind_result_eq_Inr outcomeOf_def)
  then obtain e1 where 1: "manage_reconstruct (Some b) = Inl e1" by (cases "manage_reconstruct (Some b)") auto
  have "play_reconstruct (Some b) \<noteq> Inr x" for x
    using draw_no_replay [OF assms(1,2), of engine_outcome]
    by (auto simp: play_replay reconstruct_def engine_results_def bind_result_eq_Inr engine_outcome_def)
  then obtain e2 where 2: "play_reconstruct (Some b) = Inl e2" by (cases "play_reconstruct (Some b)") auto
  have "manage_view env ether tid s = Inl e1" using 1 assms(3) by (simp add: manage_view_def)
  moreover have "play_page tid p = Inl e2" using 2 assms(4) by (simp add: play_page_def)
  moreover have "cup_view env tid c = Inl e2" using 2 assms(5) by (simp add: cup_view_def cup_reconstruct_play)
  ultimately show ?thesis by (simp add: on_screen_def)
qed

section \<open>A field too short for its prizes\<close>

text \<open>A cup with fewer players than paid places is launched, funded and played, and can never be paid: the
  launch page lets it through, so do the checks of both routes on the fields of the request, and whatever is recorded,
  the finalize route never derives the winners it asks for.\<close>

theorem short_field_unpayable:
  assumes "setup_ready isAddress f" "sf_mode f = Bracket" "length (player_lines (sf_playersText f)) < setup_placements f"
    and "orderId \<noteq> ''''" "b_players b = setup_players (sf_playersText f)" "b_format b = F_single_elimination"
  shows "capture_error (capture_sent isAddress f orderId) = None \<and>
    init_body_error (avax_init f sponsor value tid hash) = None \<and> derive_winners (setup_placements f) b \<noteq> Ok ws"
proof -
  have "setup_placements f \<le> 4" using preset_total [of "sf_preset f"] by (simp add: setup_placements_def)
  then have n: "length (player_lines (sf_playersText f)) \<le> 1024" using assms(3) by simp
  have c: "canProceedWinners isAddress f" using assms(1) by (simp add: setup_ready_def)
  have "derive_winners (setup_placements f) b \<noteq> Ok ws"
  proof
    assume "derive_winners (setup_placements f) b = Ok ws"
    then obtain t ids where 1: "reconstruct b = Inr t" "isComplete t" "winners t = Inr ids"
      "ws = winner_wallets (setup_placements f) (b_players b) ids" "length ws = setup_placements f"
      by (auto simp: derive_winners_def Let_def split: sum.splits if_splits)
    have fmt: "formatOf b = SingleElimination" using assms(6) by (simp add: formatOf_def)
    from 1(1) obtain t0 where t0: "new_tournament SingleElimination (entrants_of b) = Inr t0"
      "replay (engine_results (b_results b)) t0 = Inr t" by (auto simp: reconstruct_def fmt bind_result_eq_Inr)
    have "OutVoid \<notin> snd ` set (engine_results (b_results b))"
      by (auto simp: engine_results_def engine_outcome_def split: if_splits)
    with t0 obtain k where k: "cup_inv k (entrants_of b) (length (engine_results (b_results b))) t" "void_free (t_matchMap t)"
      by (rule cup_run_decisive)
    obtain w where w: "champion t = Some (ent_id w)" "w \<in> set (entrants_of b)" using k 1(2) by (rule cup_champion)
    have "distinct (map ent_id (entrants_of b))"
      using reachable_inv [OF created [OF t0(1)]] by (simp add: driver_inv_def idsUnique_iff)
    from cup_order_perm(1) [OF k(1) this w(1)] w(2) have "length (singleElimOrder t) = length (entrants_of b)"
      by (metis imageI length_map mset_eq_length)
    moreover have "ids = singleElimOrder t" using 1(3) k(1) by (simp add: winners_def cup_inv_def)
    ultimately have "length ids = length (player_lines (sf_playersText f))" using assms(5) by (simp add: entrants_of_def)
    moreover have "length ws \<le> length ids" unfolding 1(4) winner_wallets_def
      by (rule order_trans [OF length_filter_le]) simp
    ultimately show False using 1(5) assms(3) by simp
  qed
  with setup_bodies_accepted [OF c assms(4)] n show ?thesis by blast
qed

section \<open>What the console says after a payment\<close>

lemma poll_pending: "(\<And>i. \<exists>j. get i = Inr (Some j) \<and> rj_status j = Pending) \<Longrightarrow> poll_loop get finalize_poll i n = Inr None"
proof (induction n arbitrary: i)
  case (Suc n)
  from Suc.prems obtain j where "get i = Inr (Some j)" "rj_status j = Pending" by blast
  then show ?case using Suc by (simp add: finalize_poll_def)
qed simp

text \<open>A payment that is still pending after the last poll is shown as made: the page stores the bracket as
  finalized and says that the winners can claim.\<close>

theorem pending_shown_final:
  assumes "\<And>i. \<exists>j. get i = Inr (Some j) \<and> rj_status j = Pending" "mg_record s = Some rec" "mg_bracket s = Some b"
    and "isCustodial s" "winnerWallets s = Inr ws" "ws \<noteq> []" "jobId \<noteq> 0"
  shows "\<exists>s' q. finalize_page tid (Inr (FinOk (Some jobId))) get sent s = (s', Some q) \<and>
    isFinalized s' \<and> u_finalized q = Some True \<and> mg_record s' = Some rec"
  using assms(2-) poll_pending [OF assms(1)]
  by (simp add: finalize_page_def Let_def no_number_def persist_def put_of_def isFinalized_def isCustodial_def)

text \<open>The console shows a result the server refused: it does not look at the reply to its update.\<close>

theorem refused_result_shown:
  assumes "requireOrganizer (u_auth q) tid d = None" "recordResult tid i o1 s = (s', Some q)" "mg_bracket s = Some b"
  shows "(\<exists>c msg. bracket_route q d = (Err c msg, d)) \<and>
    mg_bracket s' = Some (b\<lparr>b_results := b_results b @ [\<lparr>mr_matchId = i, mr_outcome = outcome_text o1\<rparr>]\<rparr>)"
  using assms by (auto simp: recordResult_def persist_def put_of_def bracket_route_def split: option.splits if_splits)

section \<open>Closed instances\<close>

lemma trio: "reconstruct demo_bracket = Inr trio_engine"
proof -
  have "\<not> isl (reconstruct demo_bracket)" by code_simp
  then show ?thesis unfolding trio_engine_def by (rule sum.collapse(2) [symmetric])
qed

definition demo_console :: manage_state where
  "demo_console = \<lparr>mg_record = Some duo_rec, mg_bracket = Some demo_bracket, mg_loading = False, mg_busy = None,
     mg_error = None, mg_token = Some (generateManageToken duo_buf)\<rparr>"

definition demo_env :: site_env where
  "demo_env = \<lparr>se_cup = None, se_rpc = None, se_explorer = None\<rparr>"

lemma demo_console_facts:
  "\<not> mg_loading demo_console" "mg_record demo_console = Some duo_rec" "mg_bracket demo_console = Some demo_bracket"
  "\<not> isFinalized demo_console" "mg_busy demo_console = None" "b_format demo_bracket = F_single_elimination"
  "''Void'' \<notin> mr_outcome ` set (b_results demo_bracket)"
  by (simp_all add: demo_console_def isFinalized_def demo_bracket_def duo_rec_def init_record_def)

lemma demo_console_engine: "manage_reconstruct (Some demo_bracket) = Inr (Some trio_engine)"
  using trio no_void_results [OF demo_console_facts(7)] by (simp add: manage_replay reconstruct_def)

definition demo_shown :: "manage_action item list" where
  "demo_shown = on_screen (manage_view demo_env (\<lambda>_. ''0.05'') 7 demo_console)"

lemma demo_shown: "manage_view demo_env (\<lambda>_. ''0.05'') 7 demo_console = Inr demo_shown"
proof -
  have "\<exists>v. manage_view demo_env (\<lambda>_. ''0.05'') 7 demo_console = Inr v"
    unfolding manage_renders demo_console_facts(3) using demo_console_engine by blast
  then show ?thesis by (auto simp: demo_shown_def on_screen_def)
qed

theorem console_offers_witness:
  "\<exists>t. set (offered demo_shown) = {RecordWin i o1 | i o1. i \<in> set (pending t) \<and> (o1 = OutA \<or> o1 = OutB)} \<union>
      (if isComplete t \<and> \<not> isFinalized demo_console \<and> mg_busy demo_console = None then {FinalizeCup} else {})"
  using console_offers [OF demo_shown demo_console_facts(1-3)] by blast

theorem console_never_crashes_witness:
  "\<exists>v'. manage_view demo_env (\<lambda>_. ''0.05'') 7 (fst (recordResult 7 1 OutA demo_console)) = Inr v'"
proof (rule console_never_crashes [OF demo_shown r_into_rtranclp])
  have "1 \<in> set (pending trio_engine)" unfolding trio_engine_def by code_simp
  then have "RecordWin 1 OutA \<in> set (offered demo_shown)"
    unfolding manage_offers(1) [OF demo_console_facts(1-3) demo_console_engine demo_shown] by blast
  then have "RecordWin 1 OutA \<in> set (offered (on_screen (manage_view demo_env (\<lambda>_. ''0.05'') 7 demo_console)))"
    by (simp only: demo_shown_def)
  from ui_step.clicked [of "RecordWin 1 OutA" "\<lambda>s. on_screen (manage_view demo_env (\<lambda>_. ''0.05'') 7 s)" demo_console
      "manage_handle 7" "manage_event 7", OF this]
  show "ui_step (\<lambda>s. on_screen (manage_view demo_env (\<lambda>_. ''0.05'') 7 s)) (manage_handle 7) (manage_event 7) demo_console
      (fst (recordResult 7 1 OutA demo_console))"
    by (simp only: manage_handle_def manage_action.case)
qed

theorem console_can_finish_witness:
  "\<exists>s' v'. manage_view demo_env (\<lambda>_. ''0.05'') 7 s' = Inr v' \<and> FinalizeCup \<in> set (offered v')"
proof -
  have "mg_record demo_console \<noteq> None" by (simp add: demo_console_def)
  from console_can_finish [OF demo_shown demo_console_facts(1) this demo_console_facts(3,6,7,4,5)] show ?thesis by blast
qed

definition demo_play :: play_state where
  "demo_play = \<lparr>pl_bracket = Some demo_bracket, pl_wallet = Some ''0xa1'', pl_loading = False, pl_busy = None,
     pl_status = Some ''waiting'', pl_error = None\<rparr>"

definition demo_player :: player where
  "demo_player = the (page_me demo_bracket (Some ''0xa1''))"

definition demo_duel :: bracket_match where
  "demo_duel = the (myMatch trio_engine demo_player)"

lemma demo_play_facts:
  "\<not> pl_loading demo_play" "\<not> no_string (pl_wallet demo_play)" "pl_bracket demo_play = Some demo_bracket"
  "play_reconstruct (Some demo_bracket) = Inr (Some trio_engine)" "page_me demo_bracket (pl_wallet demo_play) = Some demo_player"
  "pl_busy demo_play = None"
proof -
  have "page_me demo_bracket (Some ''0xa1'') \<noteq> None" by code_simp
  then show "page_me demo_bracket (pl_wallet demo_play) = Some demo_player" by (auto simp: demo_player_def demo_play_def)
qed (simp_all add: demo_play_def no_string_def play_replay trio)

lemma demo_duel:
  "myMatch trio_engine demo_player = Some demo_duel" "mySide demo_duel demo_player = Some RA"
  "page_opponent demo_bracket demo_duel RA \<noteq> None" "b_finalized demo_bracket \<noteq> Some True"
proof -
  have "myMatch trio_engine demo_player \<noteq> None" unfolding trio_engine_def demo_player_def by code_simp
  then show "myMatch trio_engine demo_player = Some demo_duel" by (auto simp: demo_duel_def)
  show "mySide demo_duel demo_player = Some RA" unfolding demo_duel_def trio_engine_def demo_player_def by code_simp
  show "page_opponent demo_bracket demo_duel RA \<noteq> None" unfolding demo_duel_def trio_engine_def demo_player_def by code_simp
qed (simp add: demo_bracket_def)

definition demo_rival :: player where
  "demo_rival = the (page_opponent demo_bracket demo_duel RA)"

lemma demo_rival: "page_opponent demo_bracket demo_duel RA = Some demo_rival"
  using demo_duel(3) by (auto simp: demo_rival_def)

theorem status_outlives_match_witness:
  "\<exists>v. play_page 7 (play_load (Some (Some demo_bracket)) demo_play) = Inr v \<and>
    Words (''Reported - waiting for '' @ p_name demo_rival @ '' to confirm.'') \<in> set v"
proof (rule status_outlives_match [OF _ demo_play_facts(6,1,2,4,5) demo_duel(1,2) demo_rival])
  show "pl_status demo_play = Some ''waiting''" by (simp add: demo_play_def)
qed

theorem offered_report_filed_witness:
  "\<exists>(m :: bracket_match) side. judge_report (m_id m) ''0xa1'' ''A'' demo_bracket = Ok (file_report (m_id m) side ''0xa1'' ''A'' demo_bracket)"
proof -
  note v = play_page_match [OF demo_play_facts(1-5) demo_duel(1), of 7]
  have "PlayReport PlayA \<in> set (offered (play_match_panel demo_play demo_bracket demo_player demo_duel))"
    unfolding play_match_panel_offers using demo_duel(2) demo_rival demo_play_facts(6) by blast
  then have "PlayReport PlayA \<in> set (offered (xs @ play_match_panel demo_play demo_bracket demo_player demo_duel @ ys))" for xs ys
    by (simp only: offered_simps set_append Un_iff simp_thms)
  from offered_report_filed [OF v this demo_play_facts(3) demo_duel(4), of "\<lambda>_. ''s''" "''n''" 100] show ?thesis
    by (auto simp: demo_play_def page_report_def play_text_def Let_def)
qed

definition drawn_bracket :: bracket_state where
  "drawn_bracket = demo_bracket\<lparr>b_results := [\<lparr>mr_matchId = 1, mr_outcome = ''Draw''\<rparr>]\<rparr>"

theorem draw_blanks_pages_witness:
  "\<exists>e. play_page 7 (demo_play\<lparr>pl_bracket := Some drawn_bracket\<rparr>) = Inl e"
proof -
  have "b_format drawn_bracket = F_single_elimination" "''Draw'' \<in> mr_outcome ` set (b_results drawn_bracket)"
    by (simp_all add: drawn_bracket_def demo_bracket_def)
  from draw_blanks_pages [OF this, of "demo_console\<lparr>mg_bracket := Some drawn_bracket\<rparr>" "demo_play\<lparr>pl_bracket := Some drawn_bracket\<rparr>"
      "cup_start\<lparr>cp_bracket := Some drawn_bracket\<rparr>" demo_env "\<lambda>_. ''x''" 7] show ?thesis by auto
qed

definition short_form :: setup_form where
  "short_form = (sp_form setup_start)\<lparr>sf_mode := Bracket, sf_playersText := ''Ann, 0xaaaa'' @ [CHR 0x0A] @ ''Bob, 0xbbbb''\<rparr>"

definition short_bracket :: bracket_state where
  "short_bracket = init_bracket (avax_init short_form ''0xb0'' ''5'' 7 None)"

theorem short_field_unpayable_witness:
  "init_body_error (avax_init short_form ''0xb0'' ''5'' 7 None) = None \<and> derive_winners 3 short_bracket \<noteq> Ok [''0xaaaa'', ''0xbbbb'']"
proof -
  have two: "length (player_lines (sf_playersText short_form)) = 2" by code_simp
  have m: "sf_mode short_form = Bracket" "setup_placements short_form = 3"
    by (simp_all add: short_form_def setup_placements_def PAYOUT_PRESETS_def setup_start_def)
  have "setup_ready (\<lambda>_. True) short_form"
    using two m(1) by (simp add: setup_ready_def canProceedWinners_def) (simp add: short_form_def setup_start_def)
  moreover have "b_players short_bracket = setup_players (sf_playersText short_form)" "b_format short_bracket = F_single_elimination"
    by (simp_all add: short_bracket_def init_bracket_def avax_init_def)
  ultimately show ?thesis
    using short_field_unpayable [of "\<lambda>_. True" short_form "''o''" short_bracket "''0xb0''" "''5''" 7 None] m two by simp
qed

end
