(* ===== verification/Session.thy ===== *)
theory Session
  imports Play_Console
begin

text \<open>
  The organizer's console and the server together: the organizer clicks, the page sends its bracket, the
  update route stores it. From a console that shows what the server has, a knock-out cup whose bracket leaves room
  for its results can be brought to its end, and the payment the console then offers is accepted for exactly
  the wallets it lists; a bracket that has no room for them is never completed this way.
\<close>

section \<open>Clicks and their requests\<close>

text \<open>A win button is clicked, and its request is handled before the next click.\<close>

inductive organizing :: "site_env \<Rightarrow> (string \<Rightarrow> string) \<Rightarrow> int \<Rightarrow> manage_state \<times> db \<Rightarrow> manage_state \<times> db \<Rightarrow> bool"
  for e ether tid where
  win: "RecordWin i o1 \<in> set (offered (on_screen (manage_view e ether tid s))) \<Longrightarrow>
    recordResult tid i o1 s = (s', Some q) \<Longrightarrow> bracket_route q d = (Ok u, d') \<Longrightarrow>
    organizing e ether tid (s, d) (s', d')"











section \<open>From the console to the payment\<close>







section \<open>A field too large to be played out\<close>

text \<open>The room a bracket needs when all its matches are recorded.\<close>

lemma complete_bracket_count:
  assumes "b_format b = F_single_elimination" "reconstruct b = Inr t" "isComplete t"
  shows "length (b_results b) + 1 = length (b_players b)"
proof -
  let ?rs = "engine_results (b_results b)"
  have fmt: "formatOf b = SingleElimination" using assms(1) by (simp add: formatOf_def)
  from assms(2) obtain t0 where "new_tournament SingleElimination (entrants_of b) = Inr t0" "replay ?rs t0 = Inr t"
    by (auto simp: reconstruct_def fmt bind_result_eq_Inr)
  then obtain k where "cup_inv k (entrants_of b) (length ?rs) t" by (rule cup_run)
  with assms(3) have "length ?rs + 1 = length (entrants_of b)" using cup_complete_count(1) by blast
  then show ?thesis by (simp add: engine_results_def entrants_of_def)
qed

lemma complete_bracket_bytes:
  assumes "b_format b = F_single_elimination" "reconstruct b = Inr t" "isComplete t"
  shows "body_length (players_json (b_players b)) + 27 * int (length (b_players b)) + 27 \<le> body_length (bracket_json b)"
  using bracket_bytes [of b] frame_bytes_least [OF assms(1)] results_bytes_least [of "b_results b"] complete_bracket_count [OF assms]
  unfolding body_length_def by linarith

definition too_large :: "player list \<Rightarrow> bool" where
  "too_large ps \<longleftrightarrow> body_length (players_json ps) + 27 * int (length ps) + 27 > MAX_BODY"

lemma too_large_refused:
  assumes "too_large (b_players b)" "b_format b = F_single_elimination" "reconstruct b = Inr t" "isComplete t"
  shows "bracket_route (put_of tid token b) d = (Err 413 ''payload too large'', d)"
  using assms(1) complete_bracket_bytes [OF assms(2-4)]
  by (simp add: bracket_route_def put_of_def validateBodySize_def too_large_def)

lemma organizing_keeps:
  assumes "(organizing e ether tid)\<^sup>*\<^sup>* (s, d1) (s', d2)" "mg_bracket s = Some b0"
  shows "\<exists>b. mg_bracket s' = Some b \<and> b_players b = b_players b0 \<and> b_format b = b_format b0 \<and>
    (b = b0 \<or> (\<exists>token d u d'. bracket_route (put_of tid token b) d = (Ok u, d')))"
  using assms(1)
proof (induction rule: rtranclp_induct2)
  case refl
  then show ?case using assms(2) by simp
next
  case (step s1 d1 s2 d2)
  then obtain b where b: "mg_bracket s1 = Some b" "b_players b = b_players b0" "b_format b = b_format b0" by blast
  from step(2) obtain i o1 q u where "recordResult tid i o1 s1 = (s2, Some q)" "bracket_route q d1 = (Ok u, d2)"
    by (auto elim: organizing.cases)
  with b show ?case by (fastforce simp: recordResult_def persist_def)
qed

text \<open>C3. A field can be too large to be played out: with players whose text leaves no room for 27 bytes per match
  the init route still registers the cup, but from the console that shows it no sequence of accepted clicks
  completes the bracket, and every complete bracket of these players is refused with 413.\<close>

theorem large_cup_stalls:
  assumes "canProceedWinners isAddress f" "length (player_lines (sf_playersText f)) \<le> 1024"
    and "sf_mode f = Bracket" "getTournament tid d = None"
    and "body_length (avax_body f sponsor value hash) \<le> MAX_BODY" "too_large (setup_players (sf_playersText f))"
    and "mg_bracket s = Some (init_bracket (avax_init f sponsor value tid hash))" "(organizing e ether tid)\<^sup>*\<^sup>* (s, d1) (s', d2)"
  shows "(\<exists>token. fst (init_route buf now (avax_init f sponsor value tid hash) d) = Ok token) \<and>
    \<not> (\<exists>b t. mg_bracket s' = Some b \<and> reconstruct b = Inr t \<and> isComplete t) \<and>
    \<not> (\<exists>b t. b_players b = setup_players (sf_playersText f) \<and> b_format b = F_single_elimination \<and> reconstruct b = Inr t \<and>
         isComplete t \<and> bracket_route (put_of tid token b) d2 \<noteq> (Err 413 ''payload too large'', d2))"
proof (intro conjI)
  show "\<exists>token. fst (init_route buf now (avax_init f sponsor value tid hash) d) = Ok token"
    unfolding avax_init_taken [OF assms(1,4)] using assms(2,5) by blast
  let ?b0 = "init_bracket (avax_init f sponsor value tid hash)"
  have b0: "b_players ?b0 = setup_players (sf_playersText f)" "b_format ?b0 = F_single_elimination" "b_results ?b0 = []"
    by (simp_all add: init_bracket_def avax_init_def)
  have "2 \<le> length (b_players ?b0)" using assms(1,3) by (simp add: b0 canProceedWinners_def)
  then have start: "\<not> (reconstruct ?b0 = Inr t \<and> isComplete t)" for t
    using complete_bracket_count [OF b0(2), of t] b0(3) by auto
  show "\<not> (\<exists>b t. mg_bracket s' = Some b \<and> reconstruct b = Inr t \<and> isComplete t)"
  proof
    assume "\<exists>b t. mg_bracket s' = Some b \<and> reconstruct b = Inr t \<and> isComplete t"
    then obtain b t where b: "mg_bracket s' = Some b" "reconstruct b = Inr t" "isComplete t" by blast
    from organizing_keeps [OF assms(8,7)] b(1) have kept: "b_players b = b_players ?b0" "b_format b = b_format ?b0"
      "b = ?b0 \<or> (\<exists>token d u d'. bracket_route (put_of tid token b) d = (Ok u, d'))" by auto
    have "bracket_route (put_of tid token b) d \<noteq> (Ok u, d')" for token d u d'
      using too_large_refused [of b t tid token d] b(2,3) kept(1,2) b0 assms(6) by simp
    with kept(3) have "b = ?b0" by blast
    with start b(2,3) show False by blast
  qed
  show "\<not> (\<exists>b t. b_players b = setup_players (sf_playersText f) \<and> b_format b = F_single_elimination \<and> reconstruct b = Inr t \<and>
         isComplete t \<and> bracket_route (put_of tid token b) d2 \<noteq> (Err 413 ''payload too large'', d2))"
    using too_large_refused assms(6) by metis
qed

section \<open>Closed instances\<close>




text \<open>Seven hundred players with generated wallets.\<close>

definition full_form :: setup_form where
  "full_form = demo_form\<lparr>sf_playersText := concat (replicate 700 (''P'' @ [CHR 0x0A]))\<rparr>"

lemma full_lines: "player_lines (sf_playersText full_form) = replicate 700 ''P''" "sf_mode full_form = Bracket"
  "sf_preset full_form = Top2"
proof -
  have "sf_playersText full_form = concat (replicate 700 (''P'' @ [CHR 0x0A]))" by (simp only: full_form_def demo_form_def setup_form.simps)
  then show "player_lines (sf_playersText full_form) = replicate 700 ''P''" by (simp only: crowd_lines)
qed (simp_all add: full_form_def demo_form_def del: concat.simps replicate.simps)

definition plain :: "char \<Rightarrow> bool" where
  "plain c \<longleftrightarrow> json_char c = [c] \<and> (of_char c :: nat) < 128"

lemma plain_quoted: "\<forall>c \<in> set s. plain c \<Longrightarrow> bytes (quoted s) = length s + 2"
proof -
  assume "\<forall>c \<in> set s. plain c"
  then have "bytes (concat (map json_char s)) = length s" by (induction s) (auto simp: plain_def)
  then show ?thesis by (simp add: quoted_def)
qed

lemma plain_hex: "n < 16 \<Longrightarrow> plain (hex_digit n)"
proof -
  have "list_all (\<lambda>n. plain (hex_digit n)) [0..<16]" by code_simp
  then have "\<forall>n \<in> set [0..<16]. plain (hex_digit n)" by (simp only: list_all_iff)
  then show "n < 16 \<Longrightarrow> plain (hex_digit n)" by simp
qed

lemma hex_nat_plain: "\<forall>c \<in> set (hex_nat n). plain c"
proof (induction n rule: hex_nat.induct)
  case (1 n)
  then show ?case by (subst hex_nat.simps) (auto simp: plain_hex)
qed

lemma hex_nat_length: "n < 16 ^ Suc k \<Longrightarrow> length (hex_nat n) \<le> Suc k"
proof (induction k arbitrary: n)
  case 0
  then show ?case by (subst hex_nat.simps) simp
next
  case (Suc k)
  have "n div 16 < 16 ^ Suc k" using Suc.prems by (simp add: less_mult_imp_div_less mult.commute)
  from Suc.IH [OF this] show ?case by (subst hex_nat.simps) simp
qed

lemma crowd_player_bytes:
  assumes "i < 1024"
  shows "82 \<le> bytes (stringify (player_json (player_line i ''P'')))" "bytes (stringify (player_json (player_line i ''P''))) \<le> 88"
proof -
  let ?w = "''0x'' @ padStart 40 (CHR ''0'') (hex_nat (i + 1))"
  have line: "player_line i ''P'' = \<lparr>p_id = int i, p_wallet = ?w, p_name = ''P'', p_seed = int i + 1\<rparr>"
  proof -
    have "map trim (split_at (\<lambda>c. c = CHR '','') ''P'') = [''P'']" by code_simp
    moreover have "trim ''P'' = ''P''" by code_simp
    ultimately show ?thesis by (simp add: player_line_def)
  qed
  have "i + 1 < 16 ^ Suc 3" using assms by simp
  from hex_nat_length [OF this] have len: "length ?w = 42" by (simp add: padStart_def)
  have "plain (CHR ''0'')" "plain (CHR ''x'')" by code_simp+
  then have "\<forall>c \<in> set ?w. plain c" using hex_nat_plain [of "i + 1"] by (auto simp: padStart_def)
  from plain_quoted [OF this] len have w: "bytes (quoted ?w) = 44" by simp
  have "bytes (quoted ''id'') = 4" "bytes (quoted ''name'') = 6" "bytes (quoted ''wallet'') = 8" "bytes (quoted ''seed'') = 6"
    "bytes (quoted ''P'') = 3" by (simp_all add: quoted_def json_char_def)
  with w have eq: "bytes (stringify (player_json (player_line i ''P''))) =
      80 + bytes (stringify (JInt (int i))) + bytes (stringify (JInt (int i + 1)))"
    by (simp add: line player_json_def bytes_object field_bytes_def del: stringify.simps(6))
  show "82 \<le> bytes (stringify (player_json (player_line i ''P'')))" "bytes (stringify (player_json (player_line i ''P''))) \<le> 88"
    unfolding eq using JInt_bytes [of "int i"] JInt_bytes [of "int i + 1"] assms by simp_all
qed

lemma full_players_bytes: "57400 \<le> body_length (players_json (setup_players (sf_playersText full_form)))"
  "body_length (players_json (setup_players (sf_playersText full_form))) \<le> 62301"
proof -
  have ps: "setup_players (sf_playersText full_form) = map (\<lambda>i. player_line i ''P'') [0..<700]"
    unfolding setup_players_def full_lines by (rule nth_equalityI) (simp_all add: nth_enumerate_eq del: upt_rec_numeral replicate.simps)
  let ?sizes = "map (\<lambda>i. bytes (stringify (player_json (player_line i ''P'')))) [0..<700]"
  have "sum_list (map (\<lambda>i. 82) [0..<700]) \<le> sum_list ?sizes" "sum_list ?sizes \<le> sum_list (map (\<lambda>i. 88) [0..<700])"
    by (rule sum_list_mono; simp add: crowd_player_bytes del: upt_rec_numeral)+
  then have sum: "700 * 82 \<le> sum_list ?sizes" "sum_list ?sizes \<le> 700 * 88"
    by (simp_all add: sum_list_triv del: upt_rec_numeral)
  then show "57400 \<le> body_length (players_json (setup_players (sf_playersText full_form)))"
    "body_length (players_json (setup_players (sf_playersText full_form))) \<le> 62301"
    by (simp_all add: body_length_def players_json_def bytes_list ps comp_def del: stringify.simps upt_rec_numeral)
qed

lemma full_body_fits: "body_length (avax_body full_form ''0xb0'' ''5'' None) \<le> MAX_BODY"
proof -
  let ?ps = "players_json (setup_players (sf_playersText full_form))"
  have sizes: "field_bytes (''sponsor'', JStr ''0xb0'') = 16" "field_bytes (''prizePoolWei'', JStr ''5'') = 18"
    "field_bytes (''format'', JStr (format_name F_single_elimination)) = 29" "field_bytes (''txHash'', JNull) = 13"
    by code_simp+
  have "bytes (quoted ''payoutBps'') = 11" by (simp add: quoted_def json_char_def)
  then have bps: "field_bytes (''payoutBps'', JList (map JInt (PAYOUT_PRESETS (sf_preset full_form)))) \<le> 23"
    using JInt_bytes(2) [of 7000] JInt_bytes(2) [of 3000]
    by (simp add: field_bytes_def full_lines(3) PAYOUT_PRESETS_def bytes_list del: stringify.simps)
  have "field_bytes (''players'', ?ps) = 10 + bytes (stringify ?ps)" by (simp add: field_bytes_def quoted_def json_char_def)
  with full_players_bytes(2) sizes bps show ?thesis
    unfolding avax_body_def body_length_def bytes_object by (simp add: MAX_BODY_def)
qed

definition full_console :: manage_state where
  "full_console = demo_console\<lparr>mg_bracket := Some (init_bracket (avax_init full_form ''0xb0'' ''5'' 7 None))\<rparr>"

theorem large_cup_stalls_witness:
  "(\<exists>token. fst (init_route [] 0 (avax_init full_form ''0xb0'' ''5'' 7 None) empty_db) = Ok token) \<and>
    \<not> (\<exists>t. reconstruct (init_bracket (avax_init full_form ''0xb0'' ''5'' 7 None)) = Inr t \<and> isComplete t)"
proof -
  have ready: "canProceedWinners (\<lambda>_. True) full_form" "length (player_lines (sf_playersText full_form)) \<le> 1024"
    by (simp_all add: canProceedWinners_def full_lines del: replicate.simps)
  have large: "too_large (setup_players (sf_playersText full_form))"
    using full_players_bytes(1) by (simp add: too_large_def MAX_BODY_def full_lines del: replicate.simps)
  have shown: "mg_bracket full_console = Some (init_bracket (avax_init full_form ''0xb0'' ''5'' 7 None))"
    by (simp add: full_console_def)
  from large_cup_stalls [OF ready full_lines(2) duo_empty(1) full_body_fits large shown rtranclp.rtrancl_refl, of "[]" 0]
  show ?thesis using shown by blast
qed

end
