(* ===== verification/Site.thy ===== *)
theory Site
  imports Setup
begin

text \<open>
  The event feed of the landing page (\<open>app/components/FujiNetwork.tsx\<close>) and the requests of the
  organizer's dashboard (\<open>app/dashboard/page.tsx\<close>). The RPC node and the wallet are arguments.
\<close>

section \<open>The event feed\<close>

datatype tx_label = PayoutTx string string | EventTx string | TextTx string

datatype tx_status = Confirmed_Tx | Verifying

record tx_display =
  tx_id :: string
  tx_type :: tx_label
  tx_status :: tx_status
  tx_time :: string

definition FALLBACK_TXS :: "tx_display list" where
  "FALLBACK_TXS = map (\<lambda>(i, t). \<lparr>tx_id = i, tx_type = t, tx_status = Confirmed_Tx, tx_time = ''Fuji L1''\<rparr>)
     [(''0x2d47...a5de'', PayoutTx ''1'' ''0.035''), (''0x2d47...a5de'', PayoutTx ''1'' ''0.015''),
      (''0x9f3c...1b02'', TextTx ''Tournament Finalized (AMP Cup #1)''),
      (''0x2d47...a5de'', TextTx ''Sponsor Deposit (AMP Cup #1) 0.05 AVAX''),
      (''0x2d47...a5de'', TextTx ''AMPTournamentCup Deployed'')]"

record chain_log =
  lg_topic1 :: "string option"
  lg_data :: "string option"
  lg_hash :: string

text \<open>
  The chunks of the look-back: from the newest block backwards until ten logs are found or the limit is
  reached. \<open>getLogs from to\<close> is the node.
\<close>

definition chunk_size :: int where "chunk_size = 2000"
definition max_lookback :: int where "max_lookback = 50000"

function fetch_loop ::
  "(int \<Rightarrow> int \<Rightarrow> (string, chain_log list) result) \<Rightarrow> int \<Rightarrow> int \<Rightarrow> chain_log list \<Rightarrow> (string, chain_log list) result" where
  "fetch_loop getLogs cur offset acc =
     (if offset < max_lookback
      then bind_result (getLogs (max 0 (cur - (offset + chunk_size))) (cur - offset)) (\<lambda>logs.
        let acc' = (if length logs > 0 then acc @ logs else acc)
        in if length acc' \<ge> 10 then Inr acc' else fetch_loop getLogs cur (offset + chunk_size) acc')
      else Inr acc)"
  by pat_completeness auto
termination by (relation "measure (\<lambda>(g, c, off, a). nat (max_lookback - off))") (simp_all add: chunk_size_def)

declare fetch_loop.simps [simp del]

text \<open>\<open>parseInt(s, 16)\<close> of a text that starts with \<open>0x\<close> or a hex digit.\<close>

definition hex_value :: "char \<Rightarrow> nat option" where
  "hex_value c =
     (let n = of_char c :: nat
      in if 48 \<le> n \<and> n \<le> 57 then Some (n - 48)
         else if 97 \<le> n \<and> n \<le> 102 then Some (n - 87)
         else if 65 \<le> n \<and> n \<le> 70 then Some (n - 55) else None)"

definition parseInt16 :: "string \<Rightarrow> nat option" where
  "parseInt16 s =
     (let r = (if startsWith s ''0x'' \<or> startsWith s ''0X'' then drop 2 s else s);
          ds = takeWhile (\<lambda>c. hex_value c \<noteq> None) r
      in if ds = [] then None else Some (foldl (\<lambda>n c. 16 * n + the (hex_value c)) 0 ds))"

definition toFixed3 :: "rat \<Rightarrow> string" where
  "toFixed3 x =
     (let n = nat \<lfloor>1000 * x + 1 / 2\<rfloor>
      in show_nat (n div 1000) @ ''.'' @ [char_of (48 + n mod 1000 div 100), char_of (48 + n mod 100 div 10), char_of (48 + n mod 10)])"

definition tx_of_log :: "chain_log \<Rightarrow> tx_display" where
  "tx_of_log l =
     (let tid = (if no_string (lg_topic1 l) then ''1''
            else case parseInt16 (the (lg_topic1 l)) of None \<Rightarrow> ''NaN'' | Some n \<Rightarrow> show_nat n);
          amount = (if no_string (lg_data l) \<or> lg_data l = Some ''0x'' then 0
            else case parseInt16 (take 66 (the (lg_data l))) of None \<Rightarrow> 0 | Some n \<Rightarrow> n)
      in \<lparr>tx_id = take 8 (lg_hash l) @ ''...'',
          tx_type = (if amount \<noteq> 0 then PayoutTx tid (toFixed3 (rat_of_nat amount / 10 ^ 18)) else EventTx tid),
          tx_status = Confirmed_Tx, tx_time = ''Fuji L1''\<rparr>)"

definition findIndex :: "('a \<Rightarrow> bool) \<Rightarrow> 'a list \<Rightarrow> nat" where
  "findIndex P xs = length (takeWhile (\<lambda>x. \<not> P x) xs)"

definition unique_txs :: "tx_display list \<Rightarrow> tx_display list" where
  "unique_txs a = map snd (filter (\<lambda>(i, v). findIndex (\<lambda>t. tx_id t = tx_id v) a = i) (enumerate 0 a))"

text \<open>The transactions shown, from those before, the stored simulations and the logs.\<close>

definition merge_feed :: "tx_display list \<Rightarrow> tx_display list \<Rightarrow> chain_log list \<Rightarrow> tx_display list" where
  "merge_feed prev stored logs =
     (let txs = rev (map tx_of_log logs);
          simulations = filter (\<lambda>tx. tx_status tx = Verifying) prev;
          unique = unique_txs (simulations @ stored @ txs)
      in take 5 (if length unique > 0 then unique else FALLBACK_TXS))"

text \<open>\<open>fetchLogs\<close>: a failure keeps what is shown.\<close>

definition fetchLogs ::
  "(string, int) result \<Rightarrow> (int \<Rightarrow> int \<Rightarrow> (string, chain_log list) result) \<Rightarrow> tx_display list \<Rightarrow> tx_display list \<Rightarrow> tx_display list" where
  "fetchLogs block getLogs stored prev =
     (case bind_result block (\<lambda>cur. fetch_loop getLogs cur 0 []) of
        Inl e \<Rightarrow> prev
      | Inr logs \<Rightarrow> merge_feed prev stored logs)"

definition add_simulation :: "string \<Rightarrow> string \<Rightarrow> tx_display list \<Rightarrow> tx_display list" where
  "add_simulation i cup prev =
     take 5 (\<lparr>tx_id = i, tx_type = TextTx (''Champion Payout ('' @ cup @ '')''), tx_status = Verifying, tx_time = ''Just now''\<rparr> # prev)"

text \<open>Six seconds later: what is shown and what is stored.\<close>

definition settle_simulation :: "string \<Rightarrow> tx_display list \<Rightarrow> tx_display list \<times> tx_display list" where
  "settle_simulation i prev =
     (let updated = map (\<lambda>tx. if tx_id tx = i then tx\<lparr>tx_status := Confirmed_Tx, tx_time := ''1s ago''\<rparr> else tx) prev
      in (updated, take 10 (filter (\<lambda>tx. tx_status tx = Confirmed_Tx) updated)))"

section \<open>The dashboard\<close>

datatype list_reply = Listed "tournament_record list option" | ListFailed

definition loadTournaments :: "list_reply \<Rightarrow> tournament_record list" where
  "loadTournaments r = (case r of Listed ts \<Rightarrow> or_empty ts | ListFailed \<Rightarrow> [])"

definition dashboard_request :: "int \<Rightarrow> string \<Rightarrow> (string \<Rightarrow> string) \<Rightarrow> int \<Rightarrow> auth_request" where
  "dashboard_request tid wallet sign ts =
     \<lparr>a_tid = Some tid, a_wallet = Some wallet, a_sig = Some (sign (manage_message tid ts)), a_ts = Some ts\<rparr>"

text \<open>\<open>manage\<close>: the reply has a token, or an error, or the wallet or the request failed.\<close>

definition dashboard_manage ::
  "int \<Rightarrow> (string, string option \<times> string option) result \<Rightarrow> browser \<Rightarrow> (string, int) result \<times> browser" where
  "dashboard_manage tid reply br =
     (case reply of
        Inl e \<Rightarrow> (Inl e, br)
      | Inr (token, err) \<Rightarrow>
          if no_string token then (Inl (or_string err ''auth failed''), br)
          else (Inr tid, br\<lparr>br_session := (br_session br)(''amp_manage_'' @ show_int tid := token)\<rparr>))"

text \<open>The color of a state and the button of a card.\<close>

datatype state_color = Cyan | Green | Grey

definition stateColor :: "tournament_state \<Rightarrow> state_color" where
  "stateColor s = (case s of OPEN \<Rightarrow> Cyan | FINALIZED \<Rightarrow> Green | COMPLETE \<Rightarrow> Green | CANCELLED \<Rightarrow> Grey)"

definition card_button :: "tournament_record \<Rightarrow> string option" where
  "card_button t =
     (if r_state t = OPEN \<or> r_state t = FINALIZED
      then Some (if r_state t = OPEN then ''Manage'' else ''View'') else None)"

section \<open>Properties of the feed\<close>

text \<open>The same, by structural recursion.\<close>

fun firsts :: "string set \<Rightarrow> tx_display list \<Rightarrow> tx_display list" where
  "firsts seen [] = []"
| "firsts seen (x # xs) = (if tx_id x \<in> seen then firsts seen xs else x # firsts (insert (tx_id x) seen) xs)"

lemma firsts_ids: "set (map tx_id (firsts seen xs)) = tx_id ` set xs - seen" "distinct (map tx_id (firsts seen xs))"
  by (induction xs arbitrary: seen) auto

lemma firsts_append: "firsts seen (xs @ ys) = firsts seen xs @ firsts (seen \<union> tx_id ` set xs) ys"
proof (induction xs arbitrary: seen)
  case (Cons x xs)
  have "tx_id x \<in> seen \<Longrightarrow> seen \<union> tx_id ` set (x # xs) = seen \<union> tx_id ` set xs" by auto
  with Cons show ?case by simp
qed simp

lemma findIndex_snoc: "v \<in> set a \<Longrightarrow> P v \<Longrightarrow> findIndex P (a @ b) = findIndex P a"
  by (induction a) (auto simp: findIndex_def)

lemma takeWhile_short: "v \<in> set a \<Longrightarrow> \<not> P v \<Longrightarrow> length (takeWhile P a) < length a"
  by (induction a) auto

lemma unique_firsts: "unique_txs a = firsts {} a"
proof (induction a rule: rev_induct)
  case (snoc x a)
  have old: "filter (\<lambda>(i, v). findIndex (\<lambda>t. tx_id t = tx_id v) (a @ [x]) = i) (enumerate 0 a) =
      filter (\<lambda>(i, v). findIndex (\<lambda>t. tx_id t = tx_id v) a = i) (enumerate 0 a)"
  proof (rule filter_cong [OF refl])
    fix p assume "p \<in> set (enumerate 0 a)"
    then have "snd p \<in> set (map snd (enumerate 0 a))" by (metis image_eqI list.set_map)
    then obtain i v where p: "p = (i, v)" "v \<in> set a" by (cases p) (simp add: map_snd_enumerate)
    from findIndex_snoc [OF p(2), of "\<lambda>t. tx_id t = tx_id v" "[x]"] p(1)
    show "(case p of (i, v) \<Rightarrow> findIndex (\<lambda>t. tx_id t = tx_id v) (a @ [x]) = i) =
        (case p of (i, v) \<Rightarrow> findIndex (\<lambda>t. tx_id t = tx_id v) a = i)" by simp
  qed
  have "findIndex (\<lambda>t. tx_id t = tx_id x) (a @ [x]) = length a \<longleftrightarrow> tx_id x \<notin> tx_id ` set a"
  proof
    assume "tx_id x \<notin> tx_id ` set a"
    then have "takeWhile (\<lambda>t. tx_id t \<noteq> tx_id x) (a @ [x]) = a" by (subst takeWhile_append2) (auto simp: image_iff)
    then show "findIndex (\<lambda>t. tx_id t = tx_id x) (a @ [x]) = length a" by (simp add: findIndex_def)
  next
    assume eq: "findIndex (\<lambda>t. tx_id t = tx_id x) (a @ [x]) = length a"
    show "tx_id x \<notin> tx_id ` set a"
    proof
      assume "tx_id x \<in> tx_id ` set a"
      then obtain v where v: "v \<in> set a" "tx_id v = tx_id x" by auto
      then have "findIndex (\<lambda>t. tx_id t = tx_id x) (a @ [x]) = findIndex (\<lambda>t. tx_id t = tx_id x) a"
        by (intro findIndex_snoc)
      moreover have "length (takeWhile (\<lambda>t. tx_id t \<noteq> tx_id x) a) < length a"
        by (rule takeWhile_short [OF v(1)]) (simp add: v(2))
      ultimately show False using eq by (simp add: findIndex_def)
    qed
  qed
  then show ?case
    using snoc.IH unfolding unique_txs_def by (simp add: enumerate_append_eq old firsts_append)
qed (simp add: unique_txs_def)

text \<open>The feed shows at most five lines, and when there is anything to show no two lines are of the same
  transaction.\<close>

theorem feed_bounded:
  "length (merge_feed prev stored logs) \<le> 5 \<and>
   (logs \<noteq> [] \<longrightarrow> distinct (map tx_id (merge_feed prev stored logs)))"
proof -
  let ?a = "filter (\<lambda>tx. tx_status tx = Verifying) prev @ stored @ rev (map tx_of_log logs)"
  have "unique_txs ?a \<noteq> []" if "logs \<noteq> []"
  proof
    assume "unique_txs ?a = []"
    then have "set (map tx_id (firsts {} ?a)) = {}" by (simp add: unique_firsts)
    then have "?a = []" unfolding firsts_ids by auto
    with that show False by simp
  qed
  then have "logs \<noteq> [] \<Longrightarrow> merge_feed prev stored logs = take 5 (firsts {} ?a)"
    by (simp add: merge_feed_def Let_def unique_firsts)
  moreover have "distinct (map tx_id (take 5 (firsts {} ?a)))"
    using distinct_take [OF firsts_ids(2), of 5] by (simp only: take_map)
  ultimately show ?thesis by (auto simp: merge_feed_def Let_def)
qed

definition demo_log :: "string \<Rightarrow> chain_log" where
  "demo_log h = \<lparr>lg_topic1 = Some ''0x1'', lg_data = None, lg_hash = h\<rparr>"

theorem feed_bounded_witness: "distinct (map tx_id (merge_feed [] [] [demo_log ''0x123456'']))"
  using feed_bounded [of "[]" "[]" "[demo_log ''0x123456'']"] by simp

text \<open>Old events hide new ones: the chunks are fetched from the newest to the oldest, appended and the
  whole list reversed, so when the second chunk holds five transactions and ends the search, the
  feed shows only transactions of that older chunk.\<close>

theorem older_chunk_hides_newer:
  assumes "getLogs (max 0 (cur - 2000)) cur = Inr new" "getLogs (max 0 (cur - 4000)) (cur - 2000) = Inr old"
    and "length new < 10" "10 \<le> length (new @ old)" "5 \<le> card (tx_id ` tx_of_log ` set old)"
  shows "set (fetchLogs (Inr cur) getLogs [] []) \<subseteq> tx_of_log ` set old"
proof -
  have "old \<noteq> []" using assms(3,4) by auto
  then have "fetch_loop getLogs cur 0 [] = Inr (new @ old)"
    using assms(1-4) by (cases "new = []") (simp_all add: fetch_loop.simps [of getLogs cur 0] fetch_loop.simps [of getLogs cur 2000]
        max_lookback_def chunk_size_def Let_def)
  then have feed: "fetchLogs (Inr cur) getLogs [] [] = merge_feed [] [] (new @ old)" by (simp add: fetchLogs_def)
  let ?o = "map tx_of_log (rev old)" and ?n = "map tx_of_log (rev new)"
  have "length (firsts {} ?o) = card (set (map tx_id (firsts {} ?o)))"
    using distinct_card [OF firsts_ids(2), of "{}" ?o] by simp
  also have "\<dots> \<ge> 5" using assms(5) unfolding firsts_ids by (simp add: image_image)
  finally have five: "5 \<le> length (firsts {} ?o)" .
  then have some: "firsts {} ?o \<noteq> []" by auto
  have "merge_feed [] [] (new @ old) = take 5 (firsts {} ?o @ firsts (tx_id ` set ?o) ?n)"
    using some by (simp add: merge_feed_def Let_def unique_firsts firsts_append rev_map)
  also have "\<dots> = take 5 (firsts {} ?o)" using five by simp
  finally have "merge_feed [] [] (new @ old) = take 5 (firsts {} ?o)" .
  moreover have "set (firsts seen xs) \<subseteq> set xs" for seen xs by (induction xs arbitrary: seen) auto
  from this [of "{}" ?o] have "set (take 5 (firsts {} ?o)) \<subseteq> set ?o" using set_take_subset by fast
  ultimately show ?thesis unfolding feed by simp
qed

definition demo_old :: "chain_log list" where
  "demo_old = map (\<lambda>c. demo_log (''0x0000'' @ [c])) ''abcdefghij''"

theorem older_chunk_hides_newer_witness:
  "set (fetchLogs (Inr 9000) (\<lambda>a b. if b = 9000 then Inr [demo_log ''0x9''] else Inr demo_old) [] []) \<subseteq> tx_of_log ` set demo_old"
proof (rule older_chunk_hides_newer [where new = "[demo_log ''0x9'']"])
  have "set (map (\<lambda>l. tx_id (tx_of_log l)) demo_old) = tx_id ` tx_of_log ` set demo_old" by (simp add: image_image)
  moreover have "distinct (map (\<lambda>l. tx_id (tx_of_log l)) demo_old)"
    by (simp add: demo_old_def demo_log_def tx_of_log_def Let_def)
  ultimately show "5 \<le> card (tx_id ` tx_of_log ` set demo_old)"
    using distinct_card [of "map (\<lambda>l. tx_id (tx_of_log l)) demo_old"] by (simp add: demo_old_def)
qed (simp_all add: demo_old_def)

section \<open>Signing in from the dashboard\<close>

text \<open>Signing in from the dashboard works end to end: when the wallet's signature verifies as its owner's
  and the tournament has a generated token or none, the route answers with a token, the page keeps it
  for the console, and sent back by the console it authorizes.\<close>

theorem dashboard_signs_in:
  assumes "getTournament tid d = Some rec" "r_tournamentId rec = tid" "owns wallet rec" "wallet \<noteq> ''''"
    and "v (manage_message tid ts) (sign (manage_message tid ts)) = Some wallet" "sign (manage_message tid ts) \<noteq> ''''"
    and "ts \<noteq> 0" "\<bar>now - ts\<bar> \<le> 300" "length buf = 32"
    and "r_manageToken rec \<in> {None, Some (generateManageToken buf')}" "length buf' = 32"
  shows "\<exists>tok d'. auth_route v buf now (dashboard_request tid wallet sign ts) d = (Ok tok, d') \<and>
    fst (dashboard_manage tid (Inr (Some tok, None)) br) = Inr tid \<and>
    requireOrganizer (Some (''Bearer '' @ the (br_session (snd (dashboard_manage tid (Inr (Some tok, None)) br))
      (''amp_manage_'' @ show_int tid)))) tid d' \<noteq> None"
proof -
  have len: "length (generateManageToken buf) = 64" "length (generateManageToken buf') = 64"
    using length_token assms(9,11) by simp_all
  have auth: "auth_route v buf now (dashboard_request tid wallet sign ts) d = issue_token buf tid wallet d"
    using assms(4-8) by (simp add: auth_route_def dashboard_request_def no_string_def no_number_def)
  consider "r_manageToken rec = None" | "r_manageToken rec = Some (generateManageToken buf')" using assms(10) by auto
  then obtain b d' where b: "issue_token buf tid wallet d = (Ok (generateManageToken b), d')" "length (generateManageToken b) = 64"
    "\<exists>rec'. getTournament tid d' = Some rec' \<and> r_manageToken rec' = Some (generateManageToken b)"
  proof cases
    case 1
    then show thesis
      using assms(1-3) len(1) that [of buf]
      by (simp add: issue_token_def no_string_def getTournament_save upsert_tournament_def coalesce_def Let_def)
  next
    case 2
    moreover have "generateManageToken buf' \<noteq> ''''" using len(2) by auto
    ultimately show thesis using assms(1,3) len(2) that [of buf'] by (simp add: issue_token_def no_string_def)
  qed
  have "generateManageToken b \<noteq> ''''" using b(2) by auto
  then show ?thesis
    using auth b bearer_generated [of b]
    by (auto simp: dashboard_manage_def no_string_def requireOrganizer_Some)
qed

theorem dashboard_signs_in_witness:
  "\<exists>tok d'. auth_route (\<lambda>msg sig. Some ''0xb0'') duo_buf 120 (dashboard_request 7 ''0xb0'' (\<lambda>msg. ''s'') 100) duo_db0 = (Ok tok, d')"
proof -
  have "owns ''0xb0'' duo_rec" by (simp add: owns_def duo_rec_def init_record_def duo_init_def)
  moreover have "r_tournamentId duo_rec = 7" "r_manageToken duo_rec \<in> {None, Some (generateManageToken duo_buf)}"
    by (simp_all add: duo_rec_def init_record_def)
  moreover have "getTournament 7 duo_db0 = Some duo_rec" by (simp add: duo_stored duo_rec_def)
  ultimately show ?thesis
    using dashboard_signs_in [of 7 duo_db0 duo_rec "''0xb0''" "\<lambda>msg sig. Some ''0xb0''" 100 "\<lambda>msg. ''s''" 120 duo_buf duo_buf demo_browser]
    by (simp add: duo_length) blast
qed

end
