(* ===== verification/Claim.thy ===== *)
theory Claim
  imports Site Setup_View
begin

text \<open>
  The claim page \<open>web/src/app/claim/page.tsx\<close>: its form, which the address it is opened with fills in, the claim
  as a request that runs on the form as it was when the button was clicked, and what is shown. The
  wallet, the RPC node and the contract are arguments; \<open>ether\<close> is \<open>formatEther\<close>.
\<close>

section \<open>The numbers of the form\<close>

text \<open>\<open>BigInt\<close> of a text: decimal with a sign, or hexadecimal, octal or binary with a prefix; a blank text is 0.\<close>

definition digits_in :: "nat \<Rightarrow> string \<Rightarrow> nat option" where
  "digits_in base s =
     (if s \<noteq> [] \<and> list_all (\<lambda>c. hex_value c \<noteq> None \<and> the (hex_value c) < base) s
      then Some (foldl (\<lambda>n c. base * n + the (hex_value c)) 0 s) else None)"

definition js_BigInt :: "string \<Rightarrow> (string, int) result" where
  "js_BigInt s =
     (let t = trim s;
          n = (if t = [] then Some 0
               else if startsWith t ''0x'' \<or> startsWith t ''0X'' then map_option int (digits_in 16 (drop 2 t))
               else if startsWith t ''0o'' \<or> startsWith t ''0O'' then map_option int (digits_in 8 (drop 2 t))
               else if startsWith t ''0b'' \<or> startsWith t ''0B'' then map_option int (digits_in 2 (drop 2 t))
               else if startsWith t ''-'' then map_option (\<lambda>n. - int n) (digits_in 10 (drop 1 t))
               else if startsWith t ''+'' then map_option int (digits_in 10 (drop 1 t))
               else map_option int (digits_in 10 t))
      in case n of None \<Rightarrow> Inl (''Cannot convert '' @ s @ '' to a BigInt'') | Some i \<Rightarrow> Inr i)"

section \<open>State\<close>

datatype claim_mode = WalletMode | KeyMode

datatype claim_status = NoClaim | Claiming | ClaimDone | ClaimError

record claim_form =
  cf_tid :: string
  cf_place :: string
  cf_mode :: claim_mode
  cf_key :: string

text \<open>\<open>cl_claims\<close> are the claims under way.\<close>

record claim_page =
  cl_form :: claim_form
  cl_status :: claim_status
  cl_hash :: "string option"
  cl_payout :: "string option"
  cl_error :: "string option"
  cl_claims :: "claim_form list"

text \<open>The page as opened with the parameters \<open>tid\<close> and \<open>place\<close>.\<close>

definition claim_start :: "string option \<Rightarrow> string option \<Rightarrow> claim_page" where
  "claim_start tid place =
     \<lparr>cl_form = \<lparr>cf_tid = or_else tid '''', cf_place = or_else place ''0'', cf_mode = WalletMode, cf_key = ''''\<rparr>,
      cl_status = NoClaim, cl_hash = None, cl_payout = None, cl_error = None, cl_claims = []\<rparr>"

text \<open>
  The parameters are read from the address: the query after \<open>?\<close> up to \<open>#\<close>, cut at \<open>&\<close>, each piece a name and a
  value, with \<open>+\<close> for a blank and \<open>%\<close> with two hex digits for a character.
\<close>

fun url_decode :: "string \<Rightarrow> string" where
  "url_decode [] = []"
| "url_decode (c # s) =
     (if c = CHR ''+'' then CHR '' '' # url_decode s
      else if c = CHR ''%'' \<and> 2 \<le> length s \<and> hex_value (s ! 0) \<noteq> None \<and> hex_value (s ! 1) \<noteq> None
      then char_of (16 * the (hex_value (s ! 0)) + the (hex_value (s ! 1))) # url_decode (drop 2 s)
      else c # url_decode s)"

definition search_params :: "string \<Rightarrow> (string \<times> string) list" where
  "search_params address =
     (let query = drop 1 (dropWhile (\<lambda>c. c \<noteq> CHR ''?'') (takeWhile (\<lambda>c. c \<noteq> CHR ''#'') address));
          pieces = filter (\<lambda>p. p \<noteq> []) (split_at (\<lambda>c. c = CHR ''&'') query)
      in map (\<lambda>p. (url_decode (takeWhile (\<lambda>c. c \<noteq> CHR ''='') p), url_decode (drop 1 (dropWhile (\<lambda>c. c \<noteq> CHR ''='') p)))) pieces)"

definition claim_open :: "string \<Rightarrow> claim_page" where
  "claim_open address = claim_start (map_of (search_params address) ''tid'') (map_of (search_params address) ''place'')"

section \<open>A claim\<close>

text \<open>
  What the claim meets: the address of the connected wallet, the address of a private key, the balances
  before and after, and the mined \<open>claimPrize\<close> with the hash of its receipt, or the message of an exception.
\<close>

record claim_chain =
  cc_wallet :: "(string, string) result"
  cc_key :: "string \<Rightarrow> (string, string) result"
  cc_before :: "string \<Rightarrow> (string, int) result"
  cc_claim :: "string \<Rightarrow> int \<Rightarrow> int \<Rightarrow> (string, string option) result"
  cc_after :: "string \<Rightarrow> (string, int) result"

definition claim_signer :: "claim_chain \<Rightarrow> claim_form \<Rightarrow> (string, string) result" where
  "claim_signer c f =
     (case cf_mode f of
        WalletMode \<Rightarrow> cc_wallet c
      | KeyMode \<Rightarrow>
          if \<not> startsWith (cf_key f) ''0x'' \<or> length (cf_key f) \<noteq> 66
          then Inl ''Enter a valid 0x-prefixed 32-byte private key.'' else cc_key c (cf_key f))"

text \<open>The prize shown: the change of the balance, never negative.\<close>

definition claim_payout :: "int \<Rightarrow> int \<Rightarrow> int" where
  "claim_payout before after = (let delta = after - before in if delta < 0 then 0 else delta)"

definition claim_prize :: "(int \<Rightarrow> string) \<Rightarrow> claim_chain \<Rightarrow> claim_form \<Rightarrow> (string, string option \<times> string) result" where
  "claim_prize ether c f =
     bind_result (js_BigInt (cf_tid f)) (\<lambda>tid.
     bind_result (js_BigInt (cf_place f)) (\<lambda>place.
     bind_result (claim_signer c f) (\<lambda>winner.
     bind_result (cc_before c winner) (\<lambda>before.
     bind_result (cc_claim c winner tid place) (\<lambda>hash.
     bind_result (cc_after c winner) (\<lambda>after. Inr (hash, ether (claim_payout before after))))))))"

definition claim_begins :: "claim_page \<Rightarrow> claim_page" where
  "claim_begins s =
     s\<lparr>cl_status := Claiming, cl_error := None, cl_hash := None, cl_payout := None, cl_claims := cl_form s # cl_claims s\<rparr>"

definition claim_ends :: "(string, string option \<times> string) result \<Rightarrow> claim_page \<Rightarrow> claim_page" where
  "claim_ends res s =
     (case res of
        Inl e \<Rightarrow> s\<lparr>cl_error := Some e, cl_status := ClaimError\<rparr>
      | Inr (hash, p) \<Rightarrow> s\<lparr>cl_hash := hash, cl_payout := Some p, cl_status := ClaimDone\<rparr>)"

inductive claim_event :: "(int \<Rightarrow> string) \<Rightarrow> claim_page \<Rightarrow> claim_page \<Rightarrow> bool" for ether where
  claim_ended: "cl_claims s = fs1 @ f # fs2 \<Longrightarrow>
    claim_event ether s (claim_ends (claim_prize ether c f) (s\<lparr>cl_claims := fs1 @ fs2\<rparr>))"

inductive_cases claim_eventE: "claim_event ether s s'"

section \<open>What is shown\<close>

datatype claim_action = PutTid string | PutPlace string | PickMode claim_mode | PutKey string | StartClaim

fun claim_handle :: "claim_action \<Rightarrow> claim_page \<Rightarrow> claim_page" where
  "claim_handle (PutTid x) s = s\<lparr>cl_form := (cl_form s)\<lparr>cf_tid := x\<rparr>\<rparr>"
| "claim_handle (PutPlace x) s = s\<lparr>cl_form := (cl_form s)\<lparr>cf_place := x\<rparr>\<rparr>"
| "claim_handle (PickMode m) s = s\<lparr>cl_form := (cl_form s)\<lparr>cf_mode := m\<rparr>\<rparr>"
| "claim_handle (PutKey x) s = s\<lparr>cl_form := (cl_form s)\<lparr>cf_key := x\<rparr>\<rparr>"
| "claim_handle StartClaim s = claim_begins s"

definition claim_fields :: "claim_form \<Rightarrow> claim_action item list" where
  "claim_fields f =
     [Words ''Tournament ID'', Field ''tid'' (cf_tid f) PutTid, Words ''Placement''] @
     map (\<lambda>(x, o1). Choice o1 (cf_place f = x) (PutPlace x)) [(''0'', ''1st''), (''1'', ''2nd''), (''2'', ''3rd''), (''3'', ''4th'')] @
     [Words ''Claim with'', Choice ''Connect wallet'' (cf_mode f = WalletMode) (PickMode WalletMode),
      Choice ''Import private key'' (cf_mode f = KeyMode) (PickMode KeyMode)] @
     show_if (cf_mode f = KeyMode)
       [Words ''Winner's private key'', Field ''0x...'' (cf_key f) PutKey,
        Words (''The key generated for your placement. It signs the claim directly - never sent anywhere except '' @
          ''Avalanche.'')]"

definition claim_button :: "claim_page \<Rightarrow> claim_action item list" where
  "claim_button s =
     [Button (if cl_status s = Claiming then ''Claiming...'' else ''Claim Prize'')
       (\<not> (cl_status s = Claiming \<or> cf_tid (cl_form s) = [])) StartClaim]"

definition claim_outcome :: "site_env \<Rightarrow> claim_page \<Rightarrow> claim_action item list" where
  "claim_outcome e s =
     show_if (cl_status s = ClaimDone)
       (Words ''Prize claimed!'' #
        (if no_string (cl_payout s) then [] else [Words (''+'' @ the (cl_payout s) @ '' AVAX'')]) @
        (if no_string (cl_hash s) then [] else [Link ''View tx'' (EXPLORER_URL e @ ''/tx/'' @ the (cl_hash s))])) @
     show_if (cl_status s = ClaimError \<and> \<not> no_string (cl_error s)) [Words (the (cl_error s))]"

definition claim_view :: "site_env \<Rightarrow> claim_page \<Rightarrow> claim_action item list" where
  "claim_view e s =
     [Link ''Back to AMP'' ''/'', Words ''Claim Your Prize'',
      Words ''Pull your escrowed payout from an AMP tournament on Avalanche.''] @
     claim_fields (cl_form s) @ claim_button s @ claim_outcome e s @
     [Words ''Open beta - Fuji testnet'', Link ''view contract'' (contract_url e)]"

section \<open>Reading the numbers back\<close>

lemma hex_value_digit: "d < 10 \<Longrightarrow> hex_value (char_of (48 + d)) = Some d"
  by (simp add: hex_value_def of_char_of take_bit_eq_mod)

lemma show_nat_as_digits: "\<exists>ds. show_nat n = map (\<lambda>d. char_of (48 + d)) ds \<and> ds \<noteq> [] \<and> (\<forall>d \<in> set ds. d < 10) \<and>
    foldl (\<lambda>n d. 10 * n + d) 0 ds = n"
proof (induction n rule: show_nat.induct)
  case (1 n)
  show ?case
  proof (cases "n < 10")
    case True
    then show ?thesis by (intro exI [of _ "[n]"]) (simp add: show_nat.simps [of n])
  next
    case False
    with 1 obtain ds where "show_nat (n div 10) = map (\<lambda>d. char_of (48 + d)) ds" "ds \<noteq> []" "\<forall>d \<in> set ds. d < 10"
      "foldl (\<lambda>n d. 10 * n + d) 0 ds = n div 10" by blast
    with False show ?thesis by (intro exI [of _ "ds @ [n mod 10]"]) (simp add: show_nat.simps [of n])
  qed
qed

definition number_marks :: "char set" where
  "number_marks = set ''xXoObB-+''"

lemma digit_code: "d < 10 \<Longrightarrow> (of_char (char_of (48 + d) :: char) :: nat) = 48 + d" for d :: nat
  by (simp add: of_char_of take_bit_eq_mod)

lemma digit_class: "d < 10 \<Longrightarrow> \<not> js_space (char_of (48 + d)) \<and> char_of (48 + d) \<notin> number_marks" for d :: nat
proof
  assume d: "d < 10"
  then show "\<not> js_space (char_of (48 + d))" by (simp add: js_space_def digit_code)
  have "of_char c \<in> {120, 88, 111, 79, 98, 66, 45, 43 :: nat}" if "c \<in> number_marks" for c
    using that unfolding number_marks_def by (simp, elim disjE) simp_all
  then show "char_of (48 + d) \<notin> number_marks" using digit_code [OF d] d by fastforce
qed

lemma digits_show_nat: "digits_in 10 (show_nat n) = Some n"
proof -
  obtain ds where ds: "show_nat n = map (\<lambda>d. char_of (48 + d)) ds" "ds \<noteq> []" "\<forall>d \<in> set ds. d < 10"
    "foldl (\<lambda>n d. 10 * n + d) 0 ds = n" using show_nat_as_digits [of n] by (elim exE conjE)
  have "foldl (\<lambda>n c. 10 * n + the (hex_value c)) m (map (\<lambda>d. char_of (48 + d)) ds) = foldl (\<lambda>n d. 10 * n + d) m ds" for m
    using ds(3) by (induction ds arbitrary: m) (auto simp: hex_value_digit)
  then have "foldl (\<lambda>n c. 10 * n + the (hex_value c)) 0 (show_nat n) = n" using ds(1,4) by simp
  moreover have "list_all (\<lambda>c. hex_value c \<noteq> None \<and> the (hex_value c) < 10) (show_nat n)"
    unfolding list_all_iff
  proof
    fix c assume "c \<in> set (show_nat n)"
    then obtain d :: nat where d: "d < 10" "c = char_of (48 + d)" using ds(1,3) by auto
    show "hex_value c \<noteq> None \<and> the (hex_value c) < 10" unfolding d(2) hex_value_digit [OF d(1)] using d(1) by simp
  qed
  moreover have "show_nat n \<noteq> []" using ds(1,2) by simp
  ultimately show ?thesis by (simp add: digits_in_def)
qed

lemma show_nat_plain:
  "show_nat n \<noteq> []" "c \<in> set (show_nat n) \<Longrightarrow> \<not> js_space c" "c \<in> set (show_nat n) \<Longrightarrow> c \<notin> number_marks"
proof -
  obtain ds :: "nat list" where ds: "show_nat n = map (\<lambda>d. char_of (48 + d)) ds" "ds \<noteq> []" "\<forall>d \<in> set ds. d < 10"
    using show_nat_as_digits [of n] by (elim exE conjE)
  show "show_nat n \<noteq> []" using ds(2) unfolding ds(1) by simp
  have "\<not> js_space c \<and> c \<notin> number_marks" if c: "c \<in> set (show_nat n)"
  proof -
    obtain d :: nat where "d < 10" "c = char_of (48 + d)" using c ds(3) unfolding ds(1) by auto
    with digit_class show ?thesis by simp
  qed
  then show "c \<in> set (show_nat n) \<Longrightarrow> \<not> js_space c" "c \<in> set (show_nat n) \<Longrightarrow> c \<notin> number_marks" by blast+
qed

lemma trim_plain: "\<forall>c \<in> set s. \<not> js_space c \<Longrightarrow> trim s = s"
proof -
  have keep: "\<forall>c \<in> set s. \<not> js_space c \<Longrightarrow> dropWhile js_space s = s" for s by (cases s) auto
  assume "\<forall>c \<in> set s. \<not> js_space c"
  then show ?thesis by (simp add: trim_def keep)
qed

lemma not_startsWith:
  assumes "\<And>c. c \<in> set s \<Longrightarrow> c \<notin> number_marks" "c \<in> set p" "c \<in> number_marks"
  shows "\<not> startsWith s p"
proof
  assume "startsWith s p"
  then have "take (length p) s = p" by (simp add: startsWith_def)
  then have "set p \<subseteq> set s" by (metis set_take_subset)
  with assms show False by blast
qed

lemma BigInt_show_nat: "js_BigInt (show_nat n) = Inr (int n)"
proof -
  note plain = show_nat_plain [where n = n]
  have marks: "CHR ''x'' \<in> number_marks" "CHR ''X'' \<in> number_marks" "CHR ''o'' \<in> number_marks" "CHR ''O'' \<in> number_marks"
    "CHR ''b'' \<in> number_marks" "CHR ''B'' \<in> number_marks" "CHR ''-'' \<in> number_marks" "CHR ''+'' \<in> number_marks"
    by (simp_all add: number_marks_def)
  have "\<not> startsWith (show_nat n) ''0x''" "\<not> startsWith (show_nat n) ''0X''" "\<not> startsWith (show_nat n) ''0o''"
    "\<not> startsWith (show_nat n) ''0O''" "\<not> startsWith (show_nat n) ''0b''" "\<not> startsWith (show_nat n) ''0B''"
    "\<not> startsWith (show_nat n) ''-''" "\<not> startsWith (show_nat n) ''+''"
    using marks by (intro not_startsWith [OF plain(3)]; simp)+
  moreover have "trim (show_nat n) = show_nat n" using plain(2) by (intro trim_plain) blast
  ultimately show ?thesis using show_nat_plain(1) by (simp add: js_BigInt_def digits_show_nat Let_def)
qed

lemma BigInt_show_int: "js_BigInt (show_int i) = Inr i"
proof (cases "i < 0")
  case False
  then show ?thesis by (simp add: show_int_def BigInt_show_nat)
next
  case True
  define s where "s = show_nat (nat (- i))"
  have "\<not> js_space CHR ''-''" by (simp add: js_space_def)
  then have "trim (CHR ''-'' # s) = CHR ''-'' # s"
    using show_nat_plain(2) by (intro trim_plain) (auto simp: s_def)
  moreover have "digits_in 10 s = Some (nat (- i))" unfolding s_def by (rule digits_show_nat)
  ultimately show ?thesis using True by (simp add: show_int_def s_def [symmetric] js_BigInt_def startsWith_def)
qed


section \<open>Properties\<close>

text \<open>An address opens a claim: it leads to the claim page, there the button is enabled, and the click sends
  \<open>claimPrize\<close> for the tournament and the place from the connected wallet and shows what it brought.\<close>

definition opens_claim ::
  "site_env \<Rightarrow> (int \<Rightarrow> string) \<Rightarrow> claim_chain \<Rightarrow> string \<Rightarrow> int \<Rightarrow> nat \<Rightarrow> bool" where
  "opens_claim e ether c address tid i \<longleftrightarrow>
     takeWhile (\<lambda>c. c \<noteq> CHR ''?'') address = ''/claim'' \<and>
     StartClaim \<in> set (offered (claim_view e (claim_open address))) \<and>
     claim_prize ether c (cl_form (claim_open address)) =
       bind_result (cc_wallet c) (\<lambda>winner. bind_result (cc_before c winner) (\<lambda>before.
       bind_result (cc_claim c winner tid (int i)) (\<lambda>hash.
       bind_result (cc_after c winner) (\<lambda>after. Inr (hash, ether (claim_payout before after))))))"

text \<open>The text of a number goes through a query unchanged.\<close>

lemma show_int_chars: "c \<in> set (show_int i) \<Longrightarrow> c = CHR ''-'' \<or> 48 \<le> (of_char c :: nat) \<and> (of_char c :: nat) < 58"
proof -
  have nat: "48 \<le> (of_char c :: nat) \<and> (of_char c :: nat) < 58" if "c \<in> set (show_nat n)" for n
  proof -
    obtain ds :: "nat list" where "show_nat n = map (\<lambda>d. char_of (48 + d)) ds" "\<forall>d \<in> set ds. d < 10"
      using show_nat_as_digits [of n] by blast
    with that digit_code show ?thesis by auto
  qed
  then show "c \<in> set (show_int i) \<Longrightarrow> c = CHR ''-'' \<or> 48 \<le> (of_char c :: nat) \<and> (of_char c :: nat) < 58"
    by (auto simp: show_int_def split: if_splits)
qed

lemma show_int_query:
  assumes "c \<in> {CHR ''?'', CHR ''#'', CHR ''&'', CHR ''='', CHR ''+'', CHR ''%''}"
  shows "c \<notin> set (show_int i)"
  using assms show_int_chars [of c i] by auto

lemma url_decode_plain: "CHR ''+'' \<notin> set s \<Longrightarrow> CHR ''%'' \<notin> set s \<Longrightarrow> url_decode s = s"
  by (induction s) auto

lemma split_at_piece: "\<forall>c \<in> set s. \<not> P c \<Longrightarrow> split_at P s = [s]"
  by (induction s) simp_all

lemma split_at_first: "\<forall>c \<in> set s. \<not> P c \<Longrightarrow> P d \<Longrightarrow> split_at P (s @ d # t) = s # split_at P t"
  by (induction s) simp_all

lemma claim_link_params:
  "search_params (''/claim?tid='' @ show_int tid @ ''&place='' @ show_int i) = [(''tid'', show_int tid), (''place'', show_int i)]"
proof -
  let ?q = "''tid='' @ show_int tid @ ''&place='' @ show_int i"
  have plain: "CHR ''?'' \<notin> set (show_int j)" "CHR ''#'' \<notin> set (show_int j)" "CHR ''&'' \<notin> set (show_int j)"
    "CHR ''='' \<notin> set (show_int j)" "CHR ''+'' \<notin> set (show_int j)" "CHR ''%'' \<notin> set (show_int j)" for j
    using show_int_query by simp_all
  have "\<forall>c \<in> set (''/claim?'' @ ?q). c \<noteq> CHR ''#''" using plain(2) by auto
  then have address: "takeWhile (\<lambda>c. c \<noteq> CHR ''#'') (''/claim?'' @ ?q) = ''/claim?'' @ ?q" by (simp only: takeWhile_eq_all_conv)
  have query: "drop 1 (dropWhile (\<lambda>c. c \<noteq> CHR ''?'') (''/claim?'' @ ?q)) = ?q" by simp
  have pieces: "split_at (\<lambda>c. c = CHR ''&'') ?q = [''tid='' @ show_int tid, ''place='' @ show_int i]"
  proof -
    have "\<forall>c \<in> set (''tid='' @ show_int tid). c \<noteq> CHR ''&''" "\<forall>c \<in> set (''place='' @ show_int i). c \<noteq> CHR ''&''" using plain(3) by auto
    from split_at_first [OF this(1)] split_at_piece [OF this(2)] show ?thesis by simp
  qed
  have whole: "''/claim?tid='' @ show_int tid @ ''&place='' @ show_int i = ''/claim?'' @ ?q" by simp
  show ?thesis
    unfolding whole search_params_def Let_def address query pieces using plain by (simp add: url_decode_plain)
qed

lemma claim_link_opens: "opens_claim e ether c (''/claim?tid='' @ show_int tid @ ''&place='' @ show_nat i) tid i"
proof -
  have i: "show_nat i = show_int (int i)" by (simp add: show_int_def)
  have "show_int tid \<noteq> []" using show_nat_plain(1) by (simp add: show_int_def)
  moreover have "claim_open (''/claim?tid='' @ show_int tid @ ''&place='' @ show_nat i) = claim_start (Some (show_int tid)) (Some (show_nat i))"
    unfolding claim_open_def i claim_link_params by simp
  ultimately show ?thesis
    unfolding opens_claim_def
    by (simp add: claim_start_def claim_view_def claim_button_def claim_prize_def claim_signer_def BigInt_show_nat BigInt_show_int)
qed

text \<open>
  What is shown as the prize is net of gas in both modes: when the contract pays \<open>prize\<close> and the network takes
  \<open>fee\<close> from the same account, a prize below the fee is shown as nothing.
\<close>

lemma payout_net_of_gas: "claim_payout before (before + prize - fee) = max 0 (prize - fee)"
  by (simp add: claim_payout_def Let_def)

section \<open>Using the page\<close>

definition claim_inv :: "claim_page \<Rightarrow> bool" where
  "claim_inv s \<longleftrightarrow> (cl_status s = Claiming \<longleftrightarrow> cl_claims s \<noteq> []) \<and> length (cl_claims s) \<le> 1 \<and>
     (\<forall>f \<in> set (cl_claims s). cf_tid f \<noteq> []) \<and> (cl_status s = ClaimDone \<longrightarrow> cl_payout s \<noteq> None \<and> cl_error s = None) \<and>
     (cl_status s = ClaimError \<longrightarrow> cl_payout s = None \<and> cl_error s \<noteq> None) \<and>
     (cl_status s \<in> {NoClaim, Claiming} \<longrightarrow> cl_payout s = None \<and> cl_error s = None)"

lemma claim_view_offers:
  "set (offered (claim_view e s)) =
     {PutPlace ''0'', PutPlace ''1'', PutPlace ''2'', PutPlace ''3'', PickMode WalletMode, PickMode KeyMode} \<union>
     (if cl_status s = Claiming \<or> cf_tid (cl_form s) = [] then {} else {StartClaim})"
  "set (entries (claim_view e s)) = {PutTid} \<union> (if cf_mode (cl_form s) = KeyMode then {PutKey} else {})"
  by (auto simp: claim_view_def claim_fields_def claim_button_def claim_outcome_def)

interpretation claims: page "claim_view e" claim_handle "claim_event ether" claim_inv for e ether
proof
  fix s s' a f and input :: string
  show "claim_inv (claim_handle a s)" if "claim_inv s" "a \<in> set (offered (claim_view e s))"
  proof (cases "a = StartClaim")
    case True
    with that have "cl_status s \<noteq> Claiming" "cf_tid (cl_form s) \<noteq> []" by (auto simp: claim_view_offers split: if_splits)
    with that(1) True show ?thesis by (simp add: claim_inv_def claim_begins_def)
  next
    case False
    with that(1) show ?thesis by (cases a) (simp_all add: claim_inv_def)
  qed
  show "claim_inv (claim_handle (f input) s)" if "claim_inv s" "f \<in> set (entries (claim_view e s))"
  proof -
    have "f = PutTid \<or> f = PutKey" using that(2) by (auto simp: claim_view_offers split: if_splits)
    with that(1) show ?thesis by (auto simp: claim_inv_def)
  qed
  show "claim_inv s'" if "claim_inv s" "claim_event ether s s'"
    using that(2,1) by (elim claim_eventE) (auto simp: claim_inv_def claim_ends_def split: sum.split)
qed

text \<open>However the page is used, one claim at a time is under way, each of them for a tournament id that was not
  empty, and a payout is never shown next to an error.\<close>

lemma claim_one_at_a_time:
  assumes "(ui_step (claim_view e) claim_handle (claim_event ether))\<^sup>*\<^sup>* (claim_start tid place) s"
  shows "length (cl_claims s) \<le> 1" "StartClaim \<in> set (offered (claim_view e s)) \<Longrightarrow> cl_claims s = []"
    "cl_payout s = None \<or> cl_error s = None"
proof -
  have "claim_inv s"
    by (rule claims.reach_inv [OF assms]) (simp add: claim_inv_def claim_start_def)
  then show "length (cl_claims s) \<le> 1" "StartClaim \<in> set (offered (claim_view e s)) \<Longrightarrow> cl_claims s = []"
    "cl_payout s = None \<or> cl_error s = None"
    by (cases "cl_status s"; auto simp: claim_inv_def claim_view_offers)+
qed

text \<open>A blank tournament id is not an empty text: the button is enabled and the claim is one for tournament 0.\<close>

lemma blank_id_claims_zero: "js_BigInt '' '' = Inr 0" "js_BigInt '''' = Inr 0"
  by (simp_all add: js_BigInt_def trim_def js_space_def)

end
