(* ===== verification/Dashboard.thy ===== *)
theory Dashboard
  imports Site Setup_View Api
begin

text \<open>
  The organizer's dashboard \<open>web/src/app/dashboard/page.tsx\<close> as it is shown and used: connecting the
  wallet, loading its tournaments and signing in to one of them. The handlers run in the background;
  \<open>busy\<close> is the text they leave on the buttons. \<open>ether\<close> is \<open>formatEther\<close>, \<open>day\<close> a localized date.
\<close>

section \<open>State and handlers\<close>

record dashboard =
  db_wallet :: "string option"
  db_list :: "tournament_record list"
  db_loading :: bool
  db_busy :: "string option"
  db_error :: "string option"
  db_location :: "string option"

definition dashboard_start :: dashboard where
  "dashboard_start = \<lparr>db_wallet = None, db_list = [], db_loading = False, db_busy = None, db_error = None, db_location = None\<rparr>"

datatype dashboard_action = DConnect | DManage int

definition dashboard_click :: "dashboard_action \<Rightarrow> dashboard \<Rightarrow> dashboard" where
  "dashboard_click a s =
     (case a of
        DConnect \<Rightarrow> s\<lparr>db_error := None, db_busy := Some ''Connecting wallet...''\<rparr>
      | DManage tid \<Rightarrow>
          if no_string (db_wallet s) then s
          else s\<lparr>db_busy := Some (''Authenticating for Cup #'' @ show_int tid @ ''...''), db_error := None\<rparr>)"

text \<open>\<open>connect\<close>: the address of the wallet, after which \<open>loadTournaments\<close> begins, or an exception.\<close>

definition dashboard_connected :: "(string, string) result \<Rightarrow> dashboard \<Rightarrow> dashboard" where
  "dashboard_connected res s =
     (case res of
        Inl e \<Rightarrow> s\<lparr>db_error := Some e, db_busy := None\<rparr>
      | Inr addr \<Rightarrow> s\<lparr>db_wallet := Some addr, db_loading := True\<rparr>)"

definition dashboard_loaded :: "list_reply \<Rightarrow> dashboard \<Rightarrow> dashboard" where
  "dashboard_loaded r s = s\<lparr>db_list := loadTournaments r, db_loading := False, db_busy := None\<rparr>"

text \<open>\<open>manage\<close>: the token is kept by the browser and the console of the tournament is opened, or an error is shown.\<close>

definition dashboard_signed ::
  "int \<Rightarrow> (string, string option \<times> string option) result \<Rightarrow> dashboard \<times> browser \<Rightarrow> dashboard \<times> browser" where
  "dashboard_signed tid reply s =
     (case dashboard_manage tid reply (snd s) of
        (Inl e, br) \<Rightarrow> ((fst s)\<lparr>db_error := Some e, db_busy := None\<rparr>, br)
      | (Inr t, br) \<Rightarrow> ((fst s)\<lparr>db_location := Some (''/manage/'' @ show_int t), db_busy := None\<rparr>, br))"

inductive dashboard_event :: "dashboard \<times> browser \<Rightarrow> dashboard \<times> browser \<Rightarrow> bool" where
  connected: "db_busy s \<noteq> None \<Longrightarrow> dashboard_event (s, br) (dashboard_connected res s, br)"
| loaded: "db_loading s \<Longrightarrow> dashboard_event (s, br) (dashboard_loaded r s, br)"
| signed: "db_busy s \<noteq> None \<Longrightarrow> dashboard_event (s, br) (dashboard_signed tid reply (s, br))"

inductive_cases dashboard_eventE: "dashboard_event s s'"

section \<open>What is shown\<close>

definition dashboard_header :: "dashboard \<Rightarrow> dashboard_action item list" where
  "dashboard_header s =
     [Link ''AMP'' ''/'', Link ''New Tournament'' ''/setup'', Words ''Organizer Dashboard'',
      Words (if no_string (db_wallet s) then ''Connect your wallet to manage your tournaments.''
        else ''Connected: '' @ short_address 6 (the (db_wallet s)))] @
     (if no_string (db_error s) then [] else [Words (the (db_error s))])"

definition connect_panel :: "dashboard \<Rightarrow> dashboard_action item list" where
  "connect_panel s =
     [Words ''Connect the wallet you used to create tournaments.'',
      Button (or_else (db_busy s) ''Connect Wallet'') (no_string (db_busy s)) DConnect]"

text \<open>The text of a card's button: while a sign-in runs, its text on every card whose id occurs in it.\<close>

definition card_text :: "dashboard \<Rightarrow> tournament_record \<Rightarrow> string" where
  "card_text s t =
     (case db_busy s of
        Some msg \<Rightarrow> if str_includes msg (show_int (r_tournamentId t)) then msg else or_else (card_button t) ''''
      | None \<Rightarrow> or_else (card_button t) '''')"

definition state_text :: "tournament_state \<Rightarrow> string" where
  "state_text st = (case st of OPEN \<Rightarrow> ''OPEN'' | FINALIZED \<Rightarrow> ''FINALIZED'' | COMPLETE \<Rightarrow> ''COMPLETE'' | CANCELLED \<Rightarrow> ''CANCELLED'')"

definition dashboard_card :: "(string \<Rightarrow> string) \<Rightarrow> (int \<Rightarrow> string) \<Rightarrow> dashboard \<Rightarrow> tournament_record \<Rightarrow> dashboard_action item list" where
  "dashboard_card ether day s t =
     [Words (''Cup #'' @ show_int (r_tournamentId t)), Words (state_text (r_state t)),
      Words ((if r_mode t = Some Bracket then ''Bracket'' else ''Instant'') @ '' - '' @ take 6 (ether (r_prizePoolWei t)) @ '' AVAX''),
      Words (show_nat (length (r_payoutBps t)) @ '' placement'' @ plural (length (r_payoutBps t))), Words (day (r_createdAt t))] @
     (if card_button t = None then [Words ''-'']
      else [Button (card_text s t) (no_string (db_busy s)) (DManage (r_tournamentId t))])"

definition dashboard_view :: "(string \<Rightarrow> string) \<Rightarrow> (int \<Rightarrow> string) \<Rightarrow> dashboard \<Rightarrow> dashboard_action item list" where
  "dashboard_view ether day s =
     dashboard_header s @ show_if (no_string (db_wallet s)) (connect_panel s) @
     show_if (\<not> no_string (db_wallet s) \<and> db_loading s) [Spinner] @
     show_if (\<not> no_string (db_wallet s) \<and> \<not> db_loading s)
       (if db_list s = [] then [Words ''No tournaments found for this wallet.'', Link ''Create your first tournament'' ''/setup'']
        else concat (map (dashboard_card ether day s) (db_list s))) @
     [Words ''Building your own integration? The AMP HTTP API is documented at'',
      Link ''docs.page'' ''https://docs.page/bradmyrick/Avalanche-Matchmaking-Protocol'',
      Words ''Every action on this dashboard is also available via /api/*.'']"

section \<open>What it offers\<close>

lemma dashboard_quiet [quiet]:
  "offered (dashboard_header s) = []" "offered (connect_panel s) = (if no_string (db_busy s) then [DConnect] else [])"
  "offered (dashboard_card ether day s t) =
     (if card_button t \<noteq> None \<and> no_string (db_busy s) then [DManage (r_tournamentId t)] else [])"
  by (simp_all add: dashboard_header_def connect_panel_def dashboard_card_def)

text \<open>Which sign-ins are offered: without a running handler those of the open and finalized tournaments of the list.\<close>

lemma dashboard_offers:
  "set (offered (dashboard_view ether day s)) =
     (if \<not> no_string (db_busy s) then {}
      else if no_string (db_wallet s) then {DConnect}
      else if db_loading s then {}
      else DManage ` r_tournamentId ` {t \<in> set (db_list s). r_state t \<in> {OPEN, FINALIZED}})"
proof -
  have card: "card_button t \<noteq> None \<longleftrightarrow> r_state t \<in> {OPEN, FINALIZED}" for t by (simp add: card_button_def)
  show ?thesis
    by (auto simp: dashboard_view_def dashboard_quiet offered_concat card simp del: not_None_eq split: if_splits)
qed

text \<open>While the wallet signs in to cup 12, the cards of the cups 1 and 2 say so too: the text is matched by its digits.\<close>

lemma busy_text_leaks:
  assumes "r_tournamentId t \<in> {1, 2, 12}" "\<not> no_string (db_wallet s)"
  shows "card_text (dashboard_click (DManage 12) s) t = ''Authenticating for Cup #12...''"
proof -
  have "show_int 12 = ''12''" "show_int 1 = ''1''" "show_int 2 = ''2''" by code_simp+
  with assms show ?thesis by (auto simp: card_text_def dashboard_click_def startsWith_def)
qed


section \<open>From the list to the console\<close>

lemma listed_tournament:
  assumes "db_ok d" "t \<in> set (listTournaments n d)"
  shows "getTournament (r_tournamentId t) d = Some t"
proof -
  from assms(2) obtain i where i: "(i, t) \<in> set (d_tournaments d)" by (auto simp: listTournaments_def dest!: in_set_takeD)
  moreover have "distinct (map fst (d_tournaments d))" using assms(1) by (simp add: db_ok_def)
  ultimately have "getTournament i d = Some t" by (simp add: getTournament_def)
  moreover have "r_tournamentId t = i" using assms(1) calculation by (simp add: db_ok_def record_ok_def)
  ultimately show ?thesis by simp
qed

text \<open>C22. Every sign-in the dashboard offers works: when the wallet signs the message, the route of any tournament
  that its list shows answers with a token, the page keeps it and opens the console of that tournament,
  and the console's requests with it are authorized.\<close>

theorem dashboard_offers_work:
  assumes "db_ok d" "tournaments_route isAddress (Some wallet) d = Ok ts" "db_wallet s = Some wallet"
    and "DManage tid \<in> set (offered (dashboard_view ether day (dashboard_loaded (Listed (Some ts)) s)))"
    and "v (manage_message tid sent) (sign (manage_message tid sent)) = Some wallet" "sign (manage_message tid sent) \<noteq> ''''"
    and "sent \<noteq> 0" "\<bar>now - sent\<bar> \<le> 300" "length buf = 32"
    and "\<And>rec. getTournament tid d = Some rec \<Longrightarrow> r_manageToken rec \<in> {None, Some (generateManageToken buf')}" "length buf' = 32"
  shows "\<exists>tok d'. auth_route v buf now (dashboard_request tid wallet sign sent) d = (Ok tok, d') \<and>
    (let (s', br') = dashboard_signed tid (Inr (Some tok, None)) (s, br)
     in db_location s' = Some (''/manage/'' @ show_int tid) \<and>
        requireOrganizer (Some (''Bearer '' @ the (br_session br' (''amp_manage_'' @ show_int tid)))) tid d' \<noteq> None)"
proof -
  from assms(2) have ts: "wallet \<noteq> ''''"
    "ts = filter (\<lambda>t. map_option toLowerCase (r_organizerWallet t) = Some (toLowerCase wallet) \<or>
      toLowerCase (r_sponsor t) = toLowerCase wallet) (listTournaments 200 d)"
    by (auto simp: tournaments_route_def Let_def toLowerCase_def split: if_splits)
  have "tid \<in> r_tournamentId ` set ts"
    using assms(3,4) by (auto simp: dashboard_offers dashboard_loaded_def loadTournaments_def split: if_splits)
  then obtain t where t: "t \<in> set ts" "r_tournamentId t = tid" by blast
  then have "owns wallet t" "getTournament tid d = Some t" using listed_tournament [OF assms(1)] ts(2) by (auto simp: owns_def)
  then obtain tok d' where "auth_route v buf now (dashboard_request tid wallet sign sent) d = (Ok tok, d')"
    "fst (dashboard_manage tid (Inr (Some tok, None)) br) = Inr tid"
    "requireOrganizer (Some (''Bearer '' @ the (br_session (snd (dashboard_manage tid (Inr (Some tok, None)) br))
      (''amp_manage_'' @ show_int tid)))) tid d' \<noteq> None"
    using dashboard_signs_in [of tid d t wallet v sent sign now buf buf' br] t(2) ts(1) assms(5-9,11) assms(10) [of t] by blast
  then show ?thesis
    by (cases "dashboard_manage tid (Inr (Some tok, None)) br") (auto simp: dashboard_signed_def)
qed


definition demo_dashboard :: dashboard where
  "demo_dashboard = dashboard_start\<lparr>db_wallet := Some ''0xb0''\<rparr>"

lemma duo_listed: "tournaments_route (\<lambda>w. True) (Some ''0xb0'') duo_db0 = Ok [duo_rec]"
proof -
  have "d_tournaments duo_db0 = [(7, duo_rec)]"
    by (simp add: duo_db0_eq saveBracket_def saveTournament_def Let_def) (simp add: empty_db_def duo_rec_def init_record_def getTournament_def)
  then have "listTournaments 200 duo_db0 = [duo_rec]" by (simp add: listTournaments_def)
  moreover have "toLowerCase (r_sponsor duo_rec) = toLowerCase ''0xb0''" by (simp add: duo_rec_def init_record_def duo_init_def)
  ultimately show ?thesis by (simp add: tournaments_route_def) (simp add: toLowerCase_def)
qed

theorem dashboard_offers_work_witness:
  "\<exists>tok d'. auth_route (\<lambda>msg sig. Some ''0xb0'') duo_buf 120 (dashboard_request 7 ''0xb0'' (\<lambda>msg. ''s'') 100) duo_db0 = (Ok tok, d')"
proof -
  have "api_step duo_outside 0 (ApiInit duo_buf duo_init) (None, empty_db) = (True, None, duo_db0)"
    by (simp add: lift_db_def duo_registered)
  then have ok: "db_ok duo_db0" using db_ok_step [of "(None, empty_db)" duo_outside 0 "ApiInit duo_buf duo_init"] db_ok_empty by simp
  have "r_state duo_rec = OPEN" "r_tournamentId duo_rec = 7" by (simp_all add: duo_rec_def init_record_def)
  then have "DManage 7 \<in> set (offered (dashboard_view (\<lambda>x. x) (\<lambda>x. []) (dashboard_loaded (Listed (Some [duo_rec])) demo_dashboard)))"
    by (auto simp: dashboard_offers dashboard_loaded_def loadTournaments_def demo_dashboard_def no_string_def intro!: imageI)
  moreover have "r_manageToken rec \<in> {None, Some (generateManageToken duo_buf)}" if "getTournament 7 duo_db0 = Some rec" for rec
    using that by (auto simp: duo_stored) (simp add: init_record_def)
  ultimately show ?thesis
    using dashboard_offers_work [OF ok duo_listed, of demo_dashboard 7 "\<lambda>x. x" "\<lambda>x. []" "\<lambda>msg sig. Some ''0xb0''" 100
        "\<lambda>msg. ''s''" 120 duo_buf duo_buf demo_browser]
    by (simp add: demo_dashboard_def duo_length) blast
qed

end
