(* ===== verification/Landing.thy ===== *)
theory Landing
  imports Site Setup_View
begin

text \<open>
  The live parts of the landing page: the event feed \<open>components/FujiNetwork.tsx\<close> as a component with
  its timers and its stored lines, the looping demonstration \<open>components/MatchmakingDemo.tsx\<close> that sends
  it simulated payouts, the rotating word \<open>components/RotatingText.tsx\<close> and the tabs of
  \<open>components/EngineTabs.tsx\<close>.
\<close>

section \<open>The demonstration\<close>

definition demo_steps :: "(string \<times> string \<times> string) list" where
  "demo_steps =
     [(''create'', ''Create Tournament'', ''Organizer configures the bracket, rules, and funds the prize pool into escrow on Avalanche.''),
      (''enter'', ''Players Enter'', ''Competitors join and are seeded by verifiable Glicko-2 skill rating. Any engine, any game.''),
      (''compete'', ''Matches Run'', ''The bracket plays out. Every result is verifier-attested with EIP-712 signatures - tamper-proof.''),
      (''payout'', ''Prize Payout'', ''Champions claim instant, on-chain payouts. Winners take home escrowed prizes - no manual work.'')]"

text \<open>The interval of three seconds, and whether the step that becomes active notifies the feed.\<close>

definition demo_next :: "nat \<Rightarrow> nat" where
  "demo_next prev = (if prev + 1 \<ge> length demo_steps then 0 else prev + 1)"

definition demo_dispatches :: "nat \<Rightarrow> bool" where
  "demo_dispatches k \<longleftrightarrow> k = length demo_steps - 1"

definition demo_view :: "nat \<Rightarrow> 'a item list" where
  "demo_view active =
     [Words ''From Signup to Payout'',
      Words ''Four steps. Zero manual work. Every tournament runs end-to-end escrowed, verifiable, and trustless.''] @
     (case demo_steps ! active of (i, title, description) \<Rightarrow> [Words title, Words description]) @
     [Words ''The flow runs automatically''] @
     concat (map (\<lambda>(i, title, description). [Words title, Words description]) demo_steps)"

section \<open>The feed\<close>

text \<open>\<open>fd_stored\<close> is what the page keeps in the local storage, \<open>fd_pending\<close> the simulations whose timer runs.\<close>

record feed =
  fd_shown :: "tx_display list"
  fd_stored :: "tx_display list option"
  fd_pending :: "string list"

text \<open>The first lines: the server has no storage.\<close>

definition feed_start :: "bool \<Rightarrow> tx_display list option \<Rightarrow> feed" where
  "feed_start in_browser stored =
     \<lparr>fd_shown = (if \<not> in_browser then FALLBACK_TXS else case stored of Some txs \<Rightarrow> take 5 txs | None \<Rightarrow> FALLBACK_TXS),
      fd_stored = stored, fd_pending = []\<rparr>"

text \<open>The effect: a fetch, a notification of the demonstration, the end of a simulation's six seconds.\<close>

definition feed_fetched :: "(string, int) result \<Rightarrow> (int \<Rightarrow> int \<Rightarrow> (string, chain_log list) result) \<Rightarrow> feed \<Rightarrow> feed" where
  "feed_fetched block getLogs s = s\<lparr>fd_shown := fetchLogs block getLogs (or_empty (fd_stored s)) (fd_shown s)\<rparr>"

definition feed_simulated :: "string \<Rightarrow> string \<Rightarrow> feed \<Rightarrow> feed" where
  "feed_simulated i cup s = s\<lparr>fd_shown := add_simulation i cup (fd_shown s), fd_pending := fd_pending s @ [i]\<rparr>"

definition feed_settled :: "string \<Rightarrow> feed \<Rightarrow> feed" where
  "feed_settled i s =
     (let (updated, kept) = settle_simulation i (fd_shown s)
      in s\<lparr>fd_shown := updated, fd_stored := Some kept, fd_pending := remove1 i (fd_pending s)\<rparr>)"

definition label_text :: "tx_label \<Rightarrow> string" where
  "label_text l =
     (case l of
        PayoutTx tid amount \<Rightarrow> ''Prize Payout (AMP Cup #'' @ tid @ '') - '' @ amount @ '' AVAX''
      | EventTx tid \<Rightarrow> ''Tournament Event (AMP Cup #'' @ tid @ '')''
      | TextTx t \<Rightarrow> t)"

definition tx_line :: "tx_display \<Rightarrow> 'a item list" where
  "tx_line tx =
     show_if (tx_status tx = Verifying) [Spinner] @
     [Words (label_text (tx_type tx)), Words (tx_id tx),
      Words (case tx_status tx of Verifying \<Rightarrow> ''Verifying'' | Confirmed_Tx \<Rightarrow> ''Confirmed''), Words (tx_time tx)]"

definition feed_view :: "site_env \<Rightarrow> feed \<Rightarrow> 'a item list" where
  "feed_view e s =
     [Words ''Open Beta - Fuji Testnet'', Words ''On-Chain Prize Pools'',
      Words (''Every prize pool is escrowed on Avalanche. Every payout is verifiable. Watch champions claim in '' @ ''real time.''),
      Link ''Open Snowtrace'' (EXPLORER_URL e), Words ''AMPTournamentCup'',
      Words ''Live - sponsor-funded prize pools - 2% protocol fee'',
      Link (short_address 10 (CUP_ADDRESS e)) (contract_url e),
      Words ''Legacy - not used by the tournament product'', Words ''AMPRegistry'', Words ''0x27E02ebA...278005'',
      Words ''AMPSettlement'', Words ''0xc1b12a7F...3c9eD'', Words ''AMPTimelock'', Words ''0xb6d9A7e2...08143'',
      Words ''Deployed 1v1 wagering escrow - governance-finalized, superseded by AMPTournamentCup.'',
      Words ''Live Tournament Feed'', Words ''Refreshes every 10s''] @
     concat (map tx_line (fd_shown s)) @ [Link ''View AMP Cup Activity'' (contract_url e)]"

section \<open>The landing page\<close>

text \<open>The demonstration runs by itself; the id of a simulated payout is random, and taken to be new.\<close>

inductive landing_step :: "nat \<times> feed \<Rightarrow> nat \<times> feed \<Rightarrow> bool" where
  ticked: "\<not> demo_dispatches (demo_next k) \<Longrightarrow> landing_step (k, s) (demo_next k, s)"
| paid: "demo_dispatches (demo_next k) \<Longrightarrow> i \<notin> tx_id ` (set (fd_shown s) \<union> set (or_empty (fd_stored s))) \<Longrightarrow>
    landing_step (k, s) (demo_next k, feed_simulated i cup s)"
| fetched: "landing_step (k, s) (k, feed_fetched block getLogs s)"
| settled: "i \<in> set (fd_pending s) \<Longrightarrow> landing_step (k, s) (k, feed_settled i s)"

inductive_cases landing_stepE: "landing_step s s'"

definition simulated_tx :: "tx_display \<Rightarrow> bool" where
  "simulated_tx tx \<longleftrightarrow> (\<exists>cup. tx_type tx = TextTx (''Champion Payout ('' @ cup @ '')''))"

text \<open>Five different lines are shown, and the confirmed ones are stored.\<close>

definition feed_full :: "feed \<Rightarrow> bool" where
  "feed_full s \<longleftrightarrow> length (fd_shown s) = 5 \<and> distinct (map tx_id (fd_shown s)) \<and>
     (\<forall>x \<in> set (fd_shown s). tx_status x = Confirmed_Tx \<longrightarrow> x \<in> set (or_empty (fd_stored s)))"

definition no_news :: "string set \<Rightarrow> feed \<Rightarrow> bool" where
  "no_news ids s \<longleftrightarrow> feed_full s \<and>
     (\<forall>x \<in> set (fd_shown s) \<union> set (or_empty (fd_stored s)). tx_id x \<in> ids \<or> simulated_tx x)"

lemma merge_full:
  assumes "5 \<le> card (tx_id ` set (filter (\<lambda>tx. tx_status tx = Verifying) prev @ stored))"
  shows "set (merge_feed prev stored logs) \<subseteq> set (filter (\<lambda>tx. tx_status tx = Verifying) prev @ stored)"
    "length (merge_feed prev stored logs) = 5" "distinct (map tx_id (merge_feed prev stored logs))"
proof -
  let ?v = "filter (\<lambda>tx. tx_status tx = Verifying) prev @ stored"
  have "length (firsts {} ?v) = card (tx_id ` set ?v)"
    using distinct_card [OF firsts_ids(2) [of "{}" ?v]] firsts_ids(1) [of "{}" ?v] by simp
  then have five: "5 \<le> length (firsts {} ?v)" using assms by simp
  have "firsts {} (?v @ rev (map tx_of_log logs)) = firsts {} ?v @ firsts (tx_id ` set ?v) (rev (map tx_of_log logs))"
    using firsts_append [of "{}" ?v] by simp
  moreover have "firsts {} ?v \<noteq> []" using five by auto
  ultimately have "merge_feed prev stored logs = take 5 (firsts {} ?v)"
    using five by (simp add: merge_feed_def Let_def unique_firsts)
  moreover have "set (firsts seen xs) \<subseteq> set xs" for seen xs by (induction xs arbitrary: seen) auto
  moreover have "distinct (map tx_id (take 5 (firsts {} ?v)))"
    using distinct_take [OF firsts_ids(2), of 5] by (simp only: take_map)
  ultimately show "length (merge_feed prev stored logs) = 5" "distinct (map tx_id (merge_feed prev stored logs))"
    "set (merge_feed prev stored logs) \<subseteq> set ?v"
    using five set_take_subset [of 5 "firsts {} ?v"] by (simp, simp, metis subset_trans)
qed


lemma no_news_fetched:
  assumes "no_news ids s"
  shows "no_news ids (feed_fetched block getLogs s)"
proof (cases "bind_result block (\<lambda>cur. fetch_loop getLogs cur 0 [])")
  case (Inl e)
  with assms show ?thesis by (simp add: feed_fetched_def fetchLogs_def)
next
  case (Inr logs)
  let ?st = "or_empty (fd_stored s)" and ?m = "merge_feed (fd_shown s) (or_empty (fd_stored s)) logs"
  let ?v = "filter (\<lambda>tx. tx_status tx = Verifying) (fd_shown s) @ ?st"
  note full = assms [unfolded no_news_def feed_full_def]
  have "x \<in> set ?v" if "x \<in> set (fd_shown s)" for x using full that by (cases "tx_status x") auto
  then have "tx_id ` set (fd_shown s) \<subseteq> tx_id ` set ?v" by blast
  moreover have "card (tx_id ` set (fd_shown s)) = 5" using full distinct_card [of "map tx_id (fd_shown s)"] by simp
  ultimately have "5 \<le> card (tx_id ` set ?v)" by (metis List.finite_set card_mono finite_imageI)
  from merge_full [OF this] have m: "set ?m \<subseteq> set ?v" "length ?m = 5" "distinct (map tx_id ?m)" by blast+
  have "x \<in> set ?st" if "x \<in> set ?m" "tx_status x = Confirmed_Tx" for x using m(1) that by auto
  moreover have "tx_id x \<in> ids \<or> simulated_tx x" if "x \<in> set ?m" for x using m(1) that full by auto
  ultimately have "no_news ids (s\<lparr>fd_shown := ?m\<rparr>)" using full m(2,3) by (simp add: no_news_def feed_full_def) blast
  with Inr show ?thesis by (simp add: feed_fetched_def fetchLogs_def)
qed

lemma no_news_simulated:
  assumes "no_news ids s" "i \<notin> tx_id ` (set (fd_shown s) \<union> set (or_empty (fd_stored s)))"
  shows "no_news ids (feed_simulated i cup s)"
proof -
  note full = assms(1) [unfolded no_news_def feed_full_def]
  obtain a b c d e where five: "fd_shown s = [a, b, c, d, e]"
    using full by (auto simp: length_Suc_conv numeral_eq_Suc)
  show ?thesis
    using full assms(2) by (auto simp: no_news_def feed_full_def feed_simulated_def add_simulation_def five simulated_tx_def)
qed

definition settle_tx :: "string \<Rightarrow> tx_display \<Rightarrow> tx_display" where
  "settle_tx i tx = (if tx_id tx = i then tx\<lparr>tx_status := Confirmed_Tx, tx_time := ''1s ago''\<rparr> else tx)"

lemma settle_tx_simps [simp]: "tx_id (settle_tx i x) = tx_id x" "simulated_tx (settle_tx i x) = simulated_tx x"
  by (simp_all add: settle_tx_def simulated_tx_def)

lemma settle_alt:
  assumes "length xs \<le> 10"
  shows "settle_simulation i xs = (map (settle_tx i) xs, filter (\<lambda>tx. tx_status tx = Confirmed_Tx) (map (settle_tx i) xs))"
proof -
  have "(\<lambda>tx. if tx_id tx = i then tx\<lparr>tx_status := Confirmed_Tx, tx_time := ''1s ago''\<rparr> else tx) = settle_tx i"
    by (simp add: settle_tx_def fun_eq_iff)
  moreover have "length (filter (\<lambda>tx. tx_status tx = Confirmed_Tx) (map (settle_tx i) xs)) \<le> 10"
    by (rule le_trans [OF length_filter_le]) (simp add: assms)
  ultimately show ?thesis by (simp add: settle_simulation_def Let_def del: filter_map)
qed

text \<open>The end of a simulation leaves every confirmed line stored.\<close>

lemma settled_full:
  assumes "length (fd_shown s) = 5" "distinct (map tx_id (fd_shown s))"
  shows "feed_full (feed_settled i s)"
proof -
  have "map tx_id (map (settle_tx i) (fd_shown s)) = map tx_id (fd_shown s)" by simp
  with assms show ?thesis by (auto simp: feed_full_def feed_settled_def settle_alt simp del: map_map)
qed

lemma no_news_settled:
  assumes "no_news ids s"
  shows "no_news ids (feed_settled i s)"
proof -
  have full: "length (fd_shown s) = 5" "distinct (map tx_id (fd_shown s))"
    "\<And>x. x \<in> set (fd_shown s) \<Longrightarrow> tx_id x \<in> ids \<or> simulated_tx x"
    using assms by (auto simp: no_news_def feed_full_def)
  then have "tx_id x \<in> ids \<or> simulated_tx x" if "x \<in> settle_tx i ` set (fd_shown s)" for x using that full(3) by fastforce
  then show ?thesis
    using settled_full [OF full(1,2)] full(1) by (auto simp: no_news_def feed_settled_def settle_alt)
qed

text \<open>C21. The live feed stops being live: from the first moment that five different lines are shown with the confirmed
  ones stored, which is what the end of a simulated payout leaves, no transaction of the chain that is not
  among them is ever shown again, whatever the chain holds and however long the page runs: every other
  line is a simulated payout, which the feed shows as confirmed.\<close>

theorem feed_shows_no_news:
  assumes "landing_step\<^sup>*\<^sup>* (k, s) (k', s')" "feed_full s" "tx \<in> set (fd_shown s')"
  shows "tx_id tx \<in> tx_id ` (set (fd_shown s) \<union> set (or_empty (fd_stored s))) \<or> simulated_tx tx"
proof -
  let ?ids = "tx_id ` (set (fd_shown s) \<union> set (or_empty (fd_stored s)))"
  have "no_news ?ids (snd t) \<Longrightarrow> landing_step t t' \<Longrightarrow> no_news ?ids (snd t')" for t t'
    by (elim landing_stepE) (auto simp: no_news_fetched no_news_simulated no_news_settled)
  with assms(1) have "no_news ?ids (snd (k, s)) \<Longrightarrow> no_news ?ids (snd (k', s'))"
    by (induction rule: rtranclp_induct) auto
  moreover have "no_news ?ids s" using assms(2) by (auto simp: no_news_def)
  ultimately show ?thesis using assms(3) by (auto simp: no_news_def)
qed


definition demo_feed :: feed where
  "demo_feed = (let txs = map (\<lambda>c. \<lparr>tx_id = [c], tx_type = EventTx ''1'', tx_status = Confirmed_Tx, tx_time = ''Fuji L1''\<rparr>) ''abcde''
     in \<lparr>fd_shown = txs, fd_stored = Some txs, fd_pending = []\<rparr>)"

definition demo_refetched :: feed where
  "demo_refetched = feed_fetched (Inr 9000) (\<lambda>lo hi. Inr [demo_log ''0x123456'']) demo_feed"

theorem feed_shows_no_news_witness:
  "tx_id (hd (fd_shown demo_refetched)) \<in> {''a'', ''b'', ''c'', ''d'', ''e''} \<or> simulated_tx (hd (fd_shown demo_refetched))"
proof -
  have full: "feed_full demo_feed" by (simp add: feed_full_def demo_feed_def Let_def)
  then have "no_news (tx_id ` (set (fd_shown demo_feed) \<union> set (or_empty (fd_stored demo_feed)))) demo_refetched"
    unfolding demo_refetched_def by (intro no_news_fetched) (auto simp: no_news_def)
  then have "hd (fd_shown demo_refetched) \<in> set (fd_shown demo_refetched)"
    by (cases "fd_shown demo_refetched") (auto simp: no_news_def feed_full_def)
  moreover have "landing_step\<^sup>*\<^sup>* (0, demo_feed) (0, demo_refetched)"
    unfolding demo_refetched_def by (intro r_into_rtranclp fetched)
  ultimately have "tx_id (hd (fd_shown demo_refetched)) \<in> tx_id ` (set (fd_shown demo_feed) \<union> set (or_empty (fd_stored demo_feed))) \<or>
      simulated_tx (hd (fd_shown demo_refetched))"
    using feed_shows_no_news full by blast
  then show ?thesis by (simp add: demo_feed_def Let_def)
qed

section \<open>The rotating word\<close>

definition base_games :: "string list" where
  "base_games = [''Chess'', ''Fighters'', ''Card Games'', ''Shooters'', ''RTS'', ''Arcade'', ''Racing'', ''Strategy'', ''Auto-Battlers'',
     ''Esports'', ''Web3'', ''Unity'', ''Unreal'', ''Godot'', ''PyGame'', ''Rust'']"

definition games :: "string list" where
  "games = base_games @ base_games @ [''ANY GAME'']"

text \<open>The timers: the delay of each word until the last one, whose effect returns without a timer.\<close>

function rotate_from :: "nat \<Rightarrow> rat \<Rightarrow> (nat \<times> rat) list" where
  "rotate_from i speed =
     (if i \<ge> length games - 1 then [] else (i, speed) # rotate_from (i + 1) (max 20 (speed * (9 / 10))))"
  by pat_completeness auto
termination by (relation "measure (\<lambda>(i, speed). length games - i)") auto

declare rotate_from.simps [simp del]

definition rotate :: "(nat \<times> rat) list" where
  "rotate = rotate_from 0 300"

definition rotating_word :: "nat \<Rightarrow> 'a item list" where
  "rotating_word i = [Words (games ! i)]"

lemma rotate_from_shape:
  "i \<le> length games - 1 \<Longrightarrow> 20 \<le> speed \<Longrightarrow> speed \<le> 300 \<Longrightarrow>
   map fst (rotate_from i speed) = [i..<length games - 1] \<and> (\<forall>(j, delay) \<in> set (rotate_from i speed). 20 \<le> delay \<and> delay \<le> 300)"
proof (induction i speed rule: rotate_from.induct)
  case (1 i speed)
  show ?case
  proof (cases "i \<ge> length games - 1")
    case True
    then show ?thesis by (simp add: rotate_from.simps)
  next
    case False
    with 1 have "map fst (rotate_from (i + 1) (max 20 (speed * (9 / 10)))) = [i + 1..<length games - 1] \<and>
        (\<forall>(j, delay) \<in> set (rotate_from (i + 1) (max 20 (speed * (9 / 10)))). 20 \<le> delay \<and> delay \<le> 300)" by auto
    with False 1(3,4) show ?thesis by (subst (1 2) rotate_from.simps) (simp add: upt_conv_Cons)
  qed
qed

text \<open>The word rotates through both rounds of games, each word for 20 to 300 milliseconds, and then rests on the last.\<close>

lemma rotation_ends:
  "map fst rotate = [0..<32]" "rotate_from 32 speed = []" "rotating_word 32 = [Words ''ANY GAME'']"
  "(i, delay) \<in> set rotate \<Longrightarrow> 20 \<le> delay \<and> delay \<le> 300"
proof -
  have n: "length games = 33" by (simp add: games_def base_games_def)
  from rotate_from_shape [of 0 300] show "map fst rotate = [0..<32]" "(i, delay) \<in> set rotate \<Longrightarrow> 20 \<le> delay \<and> delay \<le> 300"
    by (auto simp: rotate_def n)
  show "rotate_from 32 speed = []" by (simp add: rotate_from.simps n)
  show "rotating_word 32 = [Words ''ANY GAME'']" by (simp add: rotating_word_def games_def base_games_def)
qed


lemma demo_cycle: "demo_dispatches (demo_next (demo_next (demo_next 0)))" "demo_next 3 = 0" "demo_next k < 4"
  by (simp_all add: demo_dispatches_def demo_next_def demo_steps_def)

section \<open>The tabs\<close>

record engine_tab =
  en_id :: string
  en_name :: string
  en_description :: string
  en_filename :: string
  en_code :: "string list"

text \<open>The lines of the sample programs; a backslash ends the lines that a shell continues.\<close>

definition engines :: "engine_tab list" where
  \<open>engines =
     [\<lparr>en_id = ''http'', en_name = ''HTTP API - any language'',
       en_description = ''Plain JSON over HTTPS. No SDK to install - call it from Unity, Godot, Python, curl, anything.'',
       en_filename = ''api.sh'',
       en_code = [''# Report a match result from any client'',
         ''curl -X POST https://playwithamp.xyz/api/tournament/42/report '' @ [CHR 0x5C],
         ''  -H "Content-Type: application/json" '' @ [CHR 0x5C],
         ''  -d '' @ [CHR 0x27] @ ''{"wallet":"0xabc...","matchId":7,"outcome":"A"}'' @ [CHR 0x27], '''',
         ''# Read the bracket + standings'', ''curl https://playwithamp.xyz/api/tournament/42'']\<rparr>,
      \<lparr>en_id = ''onchain'', en_name = ''On-chain - ethers / viem'',
       en_description = ''Talk to the escrow contract directly from a game wallet. Sponsor a pool, claim a prize.'',
       en_filename = ''claim.ts'',
       en_code = [''import { CUP_ADDRESS, AMPCUP_ABI, connectWallet } from "amp";'', '''',
         ''const provider = await connectWallet();        // Core / MetaMask'',
         ''const signer  = await provider.getSigner();'',
         ''const cup     = new ethers.Contract(CUP_ADDRESS, AMPCUP_ABI, signer);'', '''',
         ''// A winner pulls their escrowed prize - pull-payment, no middleman'',
         ''await cup.claimPrize(42, 0, { gasLimit: 200_000 });'']\<rparr>,
      \<lparr>en_id = ''engine'', en_name = ''Embed the bracket engine'',
       en_description = ''Pure TypeScript, zero deps. Drop the bracket logic straight into your server or client.'',
       en_filename = ''bracket.ts'',
       en_code = [''import { Tournament, Outcome } from "amp/engine";'', '''',
         ''// Single-elim, round-robin, or Swiss - same surface'', ''const cup = Tournament.new('',
         ''  { kind: "single_elimination" },'', ''  players.map((p, i) => ({ id: i, seed: p.seed })),'', '');'', '''',
         ''// Record a result; the engine advances the bracket'', ''cup.record(cup.pending()[0], Outcome.A);'', '''',
         ''const ordered = cup.winners();   // -> [champion, runner-up, ...]'']\<rparr>]\<close>

text \<open>A click makes an engine the active tab; one tab per engine says its name and description.\<close>

definition engine_tabs :: "engine_tab \<Rightarrow> engine_tab item list" where
  "engine_tabs active =
     [Words ''One API. Any Stack.'',
      Words (''AMP is an HTTPS JSON API and an on-chain contract. No SDK to install, no binary protocol - '' @
        ''call it from Unity, Godot, Python, or a shell. The bracket engine is pure TypeScript you can embed, '' @
        ''and the custody path is an isolated Rust service. Integrate in minutes, in whatever you already use.'')] @
     map (\<lambda>e. Choice (en_name e @ '' '' @ en_description e) (en_id active = en_id e) e) engines @
     [Words (en_filename active), Words (''// '' @ en_name active)] @ map Words (en_code active)"

text \<open>Every engine can be selected, and exactly the selected one is marked.\<close>

lemma engine_tabs_offer: "offered (engine_tabs active) = engines"
proof -
  have "offered (map Words ws :: engine_tab item list) = []" for ws by (induction ws) simp_all
  moreover have "offered (map (\<lambda>e. Choice (w e) (b e) e) es) = es" for w b and es :: "engine_tab list" by (induction es) simp_all
  ultimately show ?thesis unfolding engine_tabs_def by (simp only: quiet_rules append.simps)
qed

lemma engine_ids_distinct: "distinct (map en_id engines)"
  by (simp add: engines_def)

end
