(* ===== verification/Contract.thy ===== *)
theory Contract
  imports Setup_View
begin

text \<open>
  The rest of the contract client \<open>lib/ampCup.ts\<close> and of \<open>lib/wallet.ts\<close>: the interface of the contract, the
  EIP-712 signature of a result, and generated wallets. \<open>getAddress\<close> and the random wallets of ethers are
  arguments.
\<close>

definition AMPCUP_ABI :: "string list" where
  "AMPCUP_ABI =
     [''function createTournament(uint16[] payoutBps, address verifier, uint64 finalizeDeadline) payable returns (uint256)'',
      ''function createTournamentERC20(address token, uint256 amount, uint16[] payoutBps, address verifier, uint64 finalizeDeadline) returns (uint256)'',
      ''function finalizeTournament(uint256 tournamentId, address[] winners, bytes signature)'',
      ''function claimPrize(uint256 tournamentId, uint256 placement)'',
      ''function nextTournamentId() view returns (uint256)'',
      ''function domainSeparator() view returns (bytes32)'',
      ''function TOURNAMENT_RESULT_TYPEHASH() view returns (bytes32)'',
      ''function getTournament(uint256) view returns (tuple(address sponsor, address token, uint256 prizePool, uint16[] payoutBps, address verifier, address[] winners, uint8 state, uint64 createdAt, uint64 finalizeDeadline))'',
      ''event TournamentCreated(uint256 indexed tournamentId, address indexed sponsor, address token, uint256 prizePool, address verifier)'',
      ''event TournamentFinalized(uint256 indexed tournamentId, bytes32 indexed winnersRoot)'',
      ''event PrizeClaimed(uint256 indexed tournamentId, uint256 indexed placement, address winner, uint256 amount)'']"

record eip712_domain =
  ed_name :: string
  ed_version :: string
  ed_chainId :: int
  ed_verifyingContract :: string

definition EIP712_DOMAIN :: "site_env \<Rightarrow> int option \<Rightarrow> eip712_domain" where
  "EIP712_DOMAIN e chain =
     \<lparr>ed_name = ''AMPTournamentCup'', ed_version = ''1'', ed_chainId = FUJI_CHAIN_ID chain, ed_verifyingContract = CUP_ADDRESS e\<rparr>"

definition TOURNAMENT_RESULT_TYPE :: "(string \<times> string) list" where
  "TOURNAMENT_RESULT_TYPE = [(''tournamentId'', ''uint256''), (''winners'', ''address[]'')]"

text \<open>What is signed: the domain, the fields of the type, and the values.\<close>

record typed_result =
  td_domain :: eip712_domain
  td_types :: "(string \<times> string) list"
  td_tournamentId :: int
  td_winners :: "string list"

fun map_results :: "('a \<Rightarrow> ('e, 'b) result) \<Rightarrow> 'a list \<Rightarrow> ('e, 'b list) result" where
  "map_results f [] = Inr []"
| "map_results f (x # xs) = bind_result (f x) (\<lambda>y. bind_result (map_results f xs) (\<lambda>ys. Inr (y # ys)))"

definition signFinalize ::
  "site_env \<Rightarrow> int option \<Rightarrow> (string \<Rightarrow> (string, string) result) \<Rightarrow> (typed_result \<Rightarrow> (string, string) result) \<Rightarrow>
     int \<Rightarrow> string list \<Rightarrow> (string, string) result" where
  "signFinalize e chain getAddress sign tid wallets =
     bind_result (map_results getAddress wallets) (\<lambda>addresses.
       sign \<lparr>td_domain = EIP712_DOMAIN e chain, td_types = TOURNAMENT_RESULT_TYPE, td_tournamentId = tid,
         td_winners = addresses\<rparr>)"

record generated_wallet =
  gw_address :: string
  gw_privateKey :: string

text \<open>\<open>createRandom\<close> of the i-th turn is an argument.\<close>

primrec generateWallets :: "nat \<Rightarrow> (nat \<Rightarrow> generated_wallet) \<Rightarrow> generated_wallet list" where
  "generateWallets 0 random = []"
| "generateWallets (Suc n) random = generateWallets n random @ [random n]"

section \<open>Properties\<close>

lemma map_results_Inr: "map_results f xs = Inr ys \<longleftrightarrow> map f xs = map Inr ys"
  by (induction xs arbitrary: ys) (auto simp: bind_result_eq_Inr map_eq_Cons_conv Cons_eq_map_conv)

text \<open>Every winner of a signed result is a valid address, in the order given; one bad address and nothing is signed.\<close>

lemma signFinalize_valid:
  assumes "signFinalize e chain getAddress sign tid wallets = Inr s"
  shows "\<exists>addresses. map getAddress wallets = map Inr addresses \<and>
    sign \<lparr>td_domain = EIP712_DOMAIN e chain, td_types = TOURNAMENT_RESULT_TYPE, td_tournamentId = tid,
      td_winners = addresses\<rparr> = Inr s"
  using assms by (auto simp: signFinalize_def bind_result_eq_Inr map_results_Inr)

lemma generateWallets_map: "generateWallets n random = map random [0..<n]"
  by (induction n) simp_all

end
