(* ===== verification/Home.thy ===== *)
theory Home
  imports Landing
begin

text \<open>
  The landing page \<open>app/page.tsx\<close> as it is shown, from the texts and links of its blocks
  (\<open>components/*.tsx\<close>) and the live parts of \<open>Landing\<close>, and as it is used: the timers run and tabs are
  clicked. At the end the page of the terms, \<open>app/terms/page.tsx\<close>.
\<close>

section \<open>The blocks of the landing page\<close>

text \<open>\<open>components/GrantBadge.tsx\<close>\<close>

definition grant_badge :: "'a item list" where
  "grant_badge =
     [Words ''Avalanche Build Games 2026'',
      Words ''Grant Recipient - $15,000 USD'']"

text \<open>\<open>components/TournamentShowcase.tsx\<close>\<close>

definition tiles :: "(string \<times> string) list" where
  "tiles =
     [(''Any Venue'',
       ''School gym, esports arena, Discord server - run a cup anywhere.''),
      (''Live Brackets'',
       ''Seeded by on-chain Glicko-2 rating. Streamed in real time.''),
      (''Instant Payouts'',
       ''Escrowed prize pools. Champions pull-claim on Avalanche.''),
      (''Portable Credentials'',
       ''Every match mints a verifiable skill record players keep.'')]"

definition showcase :: "'a item list" where
  "showcase =
     [Words ''AMP Cup - In The Wild'',
      Words ''Where Champions Are Crowned'',
      Words ''From a school gym to a global stage - any community can run a verifiable arena.'',
      Words ''Bracket Live'',
      Words ''Community Cup - Sponsored Prize Pool'',
      Words ''Powered by the AMP Verifiable Tournament Engine.'',
      Words ''Prize pool escrowed and settled on Avalanche.''] @
     concat (map (\<lambda>(title, description). [Words title, Words description]) tiles) @
     [Words ''Run by guilds, DAOs, studios, and creators worldwide.'']"

text \<open>\<open>components/WhyAmp.tsx\<close>: the id, the title and the question of each pillar, and its points.\<close>

definition why_pillars :: "(string \<times> string \<times> string \<times> string list) list" where
  "why_pillars =
     [(''cold-start'', ''Empty lobbies? We planned for that'',
       ''The cold-start liquidity trap: peer-to-peer matchmaking stalls without concurrent players.'',
       [''Practice-bot fill: wait past the threshold and the house opponent picks you up - instant play, zero rating '' @
          ''impact, nobody bounces off an empty queue.'',
        ''Prime-time queue windows concentrate concurrent players into scheduled blocks instead of spreading them across '' @
          ''24 dead hours.'',
        ''Free-first funnel: login is one gasless signature and ranked play costs nothing - the widest possible top of '' @
          ''the ladder.'']),
      (''oracle'', ''Who says who won? You both do - cryptographically'',
       ''Oracle-free outcome attestation: verifying results without central custody or costly disputes.'',
       [''Every result report is signed by the player's own wallet (EIP-191) - non-repudiable evidence, verifiable by '' @
          ''anyone, forever.'',
        ''Both players submit a match transcript hash; matching hashes strengthen agreement, mismatched hashes trigger '' @
          ''dispute - multi-party session hashing, not trust.'',
        ''Settlement on Avalanche: the contract's hash-agreement mode lets players settle staked matches directly '' @
          ''on-chain with no operator in the path; verifier attestations cover the rest.'']),
      (''moat'', ''Why not just settle privately?'',
       ''Fee extraction vs. value add: a bare rake on 1v1 wagers gets bypassed. AMP's rake buys infrastructure.'',
       [''Cross-game identity & MMR: one wallet, one rating graph, portable EIP-712 skill attestations that follow you '' @
          ''between games and studios.'',
        ''Ranked integrity you can't self-host alone: opponent pool, griefing arbitration, signed-report evidence, and '' @
          ''dispute handling that just works.'',
        ''The full toolkit: Glicko-2 matchmaker + embeddable core library, automated brackets and escrowed prize cups, '' @
          ''and settlement rails on Avalanche. The rake funds the ladder - the ladder is why players stay.''])]"

definition why_amp :: "'a item list" where
  "why_amp =
     [Words ''The three hard problems'',
      Words ''Matchmaking protocols die of three things'',
      Words ''We designed for them from day one - not as roadmap promises, as shipped mechanics.''] @
     concat (map (\<lambda>(i, title, question, points). [Words title, Words question] @ map Words points) why_pillars)"

text \<open>\<open>components/SecurityAudits.tsx\<close>\<close>

definition security_stats :: "(string \<times> string \<times> string) list" where
  "security_stats =
     [(''16'', ''Contract tests'', ''Forge - AMPTournamentCup''),
      (''3'', ''EIP-712 impls'', ''Solidity - ethers - Rust''),
      (''100%'', ''Pull-payment'', ''winners call claimPrize'')]"

definition security_badges :: "string list" where
  "security_badges =
     [''EIP-712 Verifier Attestation'',
      ''Pull-Payment Prize Payouts'',
      ''ReentrancyGuard'',
      ''Pausable + Ownable2Step'',
      ''TimelockController Governance'',
      ''Fee-on-Transfer Safe'',
      ''Custodial Key Isolation'',
      ''OZ EIP712 Domain'']"

definition security_audits :: "'a item list" where
  "security_audits =
     [Words ''Live on Fuji - source-verified'',
      Words ''Security Hardened'',
      Words (''Funds only ever move through the contract - never the operator. Prize pools are escrowed up front, winners '' @
            ''pull-claim, and every outcome is EIP-712 attested. The digest is computed identically in Solidity, the browser '' @
            ''(ethers), and the isolated Rust relayer.'')] @
     concat (map (\<lambda>(value, label, sublabel). [Words value, Words label, Words sublabel]) security_stats) @
     map Words security_badges"

text \<open>\<open>components/InvestorCTA.tsx\<close>\<close>

definition partner_pillars :: "(string \<times> string) list" where
  "partner_pillars =
     [(''A Real, Complained-About Gap'',
       ''Every community, DAO, and esports org runs tournaments on a broken stack - Discord + Challonge + manual '' @
        ''payouts. AMP replaces all of it with one trustless engine.''),
      (''Verifiable By Construction'',
       ''Escrowed prize pools, EIP-712 verifier-attested results, and pull-only payouts on Avalanche. Tamper-proof '' @
        ''outcomes by design - not by trust.''),
      (''Grant Validated, Ecosystem Connected'',
       ''Awarded $15,000 from Avalanche Build Games 2026. Live on Fuji, integrated with the Team1 Avalanche builder '' @
        ''community, and ready to scale.'')]"

definition partner :: "'a item list" where
  "partner =
     [Words ''Backed by Avalanche'',
      Words ''Tournament Infrastructure'',
      Words ''Communities Run On'',
      Words (''AMP is the verifiable tournament engine for competitive gaming. Brackets, escrowed prize pools, instant '' @
            ''payouts, and tamper-proof results - so any community can run a trustless arena in minutes.'')] @
     concat (map (\<lambda>(title, description). [Words title, Words description]) partner_pillars) @
     [Words ''Partner With Us'',
      Words (''Whether you're a gaming community wanting trustless tournaments, a studio launching competitive play, or a '' @
            ''brand seeking to sponsor the next AMP Cup - let's talk.''),
      Link ''brad@kodr.pro'' ''mailto:brad@kodr.pro'',
      Link ''Read Architecture'' ''https://docs.page/bradmyrick/Avalanche-Matchmaking-Protocol'',
      Words ''Live on Fuji'',
      Words ''Any engine, any game'']"

section \<open>The landing page\<close>

text \<open>\<open>app/page.tsx\<close>\<close>

definition home_nav :: "'a item list" where
  "home_nav =
     [Words ''AMP'',
      Words ''Tournaments'',
      Link ''Play Ranked'' ''/arena'',
      Link ''Features'' ''#features'',
      Link ''Why AMP'' ''#why-amp'',
      Link ''Showcase'' ''#showcase'',
      Link ''How It Works'' ''#demo'',
      Link ''Prize Pools'' ''#fuji'',
      Link ''API'' ''#api'',
      Link ''Dashboard'' ''/dashboard'',
      Link ''GitHub'' ''https://github.com/bradmyrick/Avalanche-Matchmaking-Protocol'']"

definition home_hero :: "'a item list \<Rightarrow> 'a item list" where
  "home_hero word =
     [Words ''OPEN'',
      Words ''MATCHMAKING'',
      Words ''for''] @ word @
     [Words ''Real ranked matchmaking - queue up, get matched, climb the ladder.'',
      Words ''AMP runs the queue, rates every player, and attests results on-chain.'',
      Words ''Stake AVAX when it matters. Tournaments when it counts.'',
      Link ''Play Ranked - Free'' ''/arena'',
      Words ''Beta'',
      Link ''Host a Tournament'' ''/setup'']"

definition home_features :: "'a item list" where
  "home_features =
     [Words ''Spin Up in Minutes'',
      Words (''Configure a bracket, fund the prize pool, and open registration. No servers to babysit, no Solidity to learn. '' @
            ''Your community is competing by tonight.''),
      Words ''Escrowed Prize Pools'',
      Words (''Sponsors deposit USDC or AVAX into on-chain escrow. Champions pull-claim instantly. No manual payouts, no '' @
            ''trust, no rug - TimelockController-governed end to end.''),
      Words ''Verifiable Results'',
      Words (''Every outcome is EIP-712 signed and committed on Avalanche. Tamper-proof brackets, dispute-resistant champions, '' @
            ''and a portable skill resume that follows every player.'')]"

definition home_footer :: "'a item list" where
  "home_footer =
     [Words ''AMP Protocols'',
      Words ''(c) 2026 Avalanche Matchmaking Protocol. Backed by Avalanche Build Games 2026.'',
      Link ''GitHub'' ''https://github.com/bradmyrick/Avalanche-Matchmaking-Protocol'',
      Link ''Contact'' ''mailto:brad@kodr.pro'',
      Link ''Terms'' ''/terms'',
      Link ''Docs'' ''https://docs.page/bradmyrick/Avalanche-Matchmaking-Protocol'']"

text \<open>The state of the live parts: the rotating word, the step of the demonstration with the feed, the open tab.\<close>

record home =
  hm_word :: nat
  hm_live :: "nat \<times> feed"
  hm_tab :: engine_tab

definition home_start :: "bool \<Rightarrow> tx_display list option \<Rightarrow> home" where
  "home_start in_browser stored =
     \<lparr>hm_word = 0, hm_live = (0, feed_start in_browser stored), hm_tab = hd engines\<rparr>"

text \<open>The blocks in document order, each with the id that a link can name, or none.\<close>

definition home_blocks :: "site_env \<Rightarrow> home \<Rightarrow> (string \<times> engine_tab item list) list" where
  "home_blocks e s =
     [('''', home_nav), ('''', grant_badge @ home_hero (rotating_word (hm_word s))), (''features'', home_features),
      (''showcase'', showcase), (''why-amp'', why_amp), (''demo'', demo_view (fst (hm_live s))),
      (''fuji'', feed_view e (snd (hm_live s))), (''api'', engine_tabs (hm_tab s)), (''security'', security_audits),
      (''partner'', partner), ('''', home_footer)]"

definition home_view :: "site_env \<Rightarrow> home \<Rightarrow> engine_tab item list" where
  "home_view e s = concat (map snd (home_blocks e s))"

definition home_anchors :: "site_env \<Rightarrow> home \<Rightarrow> string list" where
  "home_anchors e s = filter (\<lambda>i. i \<noteq> '''') (map fst (home_blocks e s))"

text \<open>A click on a tab; the timers of the word, the demonstration and the feed.\<close>

definition home_handle :: "engine_tab \<Rightarrow> home \<Rightarrow> home" where
  "home_handle tab s = s\<lparr>hm_tab := tab\<rparr>"

inductive home_event :: "home \<Rightarrow> home \<Rightarrow> bool" where
  rotated: "(hm_word s, delay) \<in> set rotate \<Longrightarrow> home_event s (s\<lparr>hm_word := hm_word s + 1\<rparr>)"
| live: "landing_step (hm_live s) l \<Longrightarrow> home_event s (s\<lparr>hm_live := l\<rparr>)"

section \<open>The landing page in use\<close>

text \<open>The word, the step and the tab that are shown exist: the lists are never read past their ends.\<close>

definition home_ok :: "home \<Rightarrow> bool" where
  "home_ok s \<longleftrightarrow> hm_word s < length games \<and> fst (hm_live s) < length demo_steps \<and> hm_tab s \<in> set engines"

lemma offered_words [quiet]: "offered (map Words ws) = []" "entries (map Words ws) = []"
  by (induction ws) simp_all

lemma home_texts_quiet [quiet]:
  "offered home_nav = []" "offered grant_badge = []" "offered home_features = []" "offered home_footer = []"
  "entries home_nav = []" "entries grant_badge = []" "entries home_features = []" "entries home_footer = []"
  by (simp_all only: home_nav_def grant_badge_def home_features_def home_footer_def quiet quiet_rules)

lemma offered_concat_map: "(\<And>x. offered (f x) = []) \<Longrightarrow> offered (concat (map f xs)) = []"
  "(\<And>x. entries (f x) = []) \<Longrightarrow> entries (concat (map f xs)) = []"
  by (induction xs) simp_all

lemma tuples_quiet [quiet]:
  "offered (concat (map (\<lambda>(a, b). [Words (f a b), Words (g a b)]) xs)) = []"
  "entries (concat (map (\<lambda>(a, b). [Words (f a b), Words (g a b)]) xs)) = []"
  "offered (concat (map (\<lambda>(a, b, c). [Words (h a b c), Words (i a b c)]) ys)) = []"
  "entries (concat (map (\<lambda>(a, b, c). [Words (h a b c), Words (i a b c)]) ys)) = []"
  "offered (concat (map (\<lambda>(a, b, c). [Words (h a b c), Words (i a b c), Words (j a b c)]) ys)) = []"
  "entries (concat (map (\<lambda>(a, b, c). [Words (h a b c), Words (i a b c), Words (j a b c)]) ys)) = []"
  by (rule offered_concat_map, simp add: case_prod_unfold)+

lemma home_lists_quiet [quiet]:
  "offered showcase = []" "offered why_amp = []" "offered security_audits = []" "offered partner = []"
  "entries showcase = []" "entries why_amp = []" "entries security_audits = []" "entries partner = []"
proof -
  have "offered (concat (map (\<lambda>(i, t, q, ps). [Words t, Words q] @ map Words ps) xs)) = []"
    "entries (concat (map (\<lambda>(i, t, q, ps). [Words t, Words q] @ map Words ps) xs)) = []" for xs :: "(string \<times> string \<times> string \<times> string list) list"
    by (rule offered_concat_map, simp only: case_prod_unfold quiet quiet_rules)+
  then show "offered why_amp = []" "entries why_amp = []" by (simp_all only: why_amp_def quiet quiet_rules)
qed (simp_all only: showcase_def security_audits_def partner_def quiet quiet_rules)

lemma live_quiet [quiet]:
  "offered (home_hero word) = offered word" "entries (home_hero word) = entries word"
  "offered (rotating_word k) = []" "entries (rotating_word k) = []"
  "offered (demo_view k) = []" "entries (demo_view k) = []"
  "offered (feed_view e s) = []" "entries (feed_view e s) = []"
proof -
  have "offered (tx_line tx) = []" "entries (tx_line tx) = []" for tx
    by (simp_all only: tx_line_def quiet quiet_rules)
  then have "offered (concat (map tx_line txs)) = []" "entries (concat (map tx_line txs)) = []" for txs
    by (auto intro!: offered_concat_map)
  then show "offered (feed_view e s) = []" "entries (feed_view e s) = []" by (simp_all only: feed_view_def quiet quiet_rules)
  obtain i t d where "demo_steps ! k = (i, t, d)" by (rule prod_cases3)
  then show "offered (demo_view k) = []" "entries (demo_view k) = []"
    by (simp_all only: demo_view_def prod.case quiet quiet_rules)
qed (simp_all only: home_hero_def rotating_word_def quiet quiet_rules)

text \<open>The tabs are all that can be clicked.\<close>

lemma home_offers: "offered (home_view e s) = engines" "entries (home_view e s) = []"
proof -
  have tabs: "entries (engine_tabs a) = []" for a
  proof -
    have "entries (map (\<lambda>e. Choice (w e) (b e) e) es) = []" for w b and es :: "engine_tab list" by (induction es) simp_all
    then show ?thesis unfolding engine_tabs_def by (simp only: quiet quiet_rules append.simps)
  qed
  show "offered (home_view e s) = engines" "entries (home_view e s) = []"
    by (simp_all only: home_view_def home_blocks_def list.map snd_conv concat.simps quiet quiet_rules engine_tabs_offer tabs)
qed

interpretation home: page "home_view e" home_handle home_event home_ok for e
proof unfold_locales
  fix s s' assume ok: "home_ok s" and event: "home_event s s'"
  from event show "home_ok s'"
  proof cases
    case (rotated delay)
    from rotated(2) have "hm_word s \<in> set (map fst rotate)" by force
    with rotated(1) ok show ?thesis by (simp add: home_ok_def rotation_ends games_def base_games_def)
  next
    case (live l)
    from live(2) have "fst l = fst (hm_live s) \<or> (\<exists>k. fst l = demo_next k)" by cases auto
    moreover have "length demo_steps = 4" by (simp add: demo_steps_def)
    ultimately show ?thesis using live(1) ok demo_cycle(3) by (auto simp: home_ok_def)
  qed
qed (auto simp: home_ok_def home_handle_def home_offers)

text \<open>From the first rendering on, however long the page is used.\<close>

lemma home_runs:
  assumes "(ui_step (home_view e) home_handle home_event)\<^sup>*\<^sup>* (home_start in_browser stored) s"
  shows "home_ok s"
proof (rule home.reach_inv [OF assms])
  show "home_ok (home_start in_browser stored)"
    by (simp add: home_ok_def home_start_def games_def base_games_def demo_steps_def engines_def)
qed

section \<open>The terms\<close>

text \<open>\<open>app/terms/page.tsx\<close>\<close>

definition terms_sections :: "'a item list list" where
  "terms_sections =
     [[Words ''1. Skill-Based Competition - Not Gambling'',
       Words (''AMP tournaments are skill-based competitive events. Outcomes are determined by player performance, not chance. '' @
            ''AMP is not a gambling platform, casino, or betting service. Prize pools are funded by sponsors and paid to '' @
            ''winners based on verifiable match results. Participants are responsible for complying with their local laws '' @
            ''regarding skill-based competitions.'')],
      [Words ''2. Testnet - No Real Value'',
       Words (''The protocol currently operates on the Avalanche Fuji testnet. All tokens (AVAX, ERC-20s) used on this platform '' @
            ''are testnet tokens with no monetary value. No real funds are at risk. Mainnet deployment will be announced '' @
            ''separately with updated terms.'')],
      [Words ''3. Protocol Fee'',
       Words (''A 2% protocol fee is deducted from each prize payout and sent to the protocol treasury wallet (0x95CC...077a). '' @
            ''This fee covers infrastructure costs (database, hosting, relayer operations). Winners receive their prize minus '' @
            ''the 2% fee. The fee rate is governed by the contract owner and is publicly verifiable on-chain.'')],
      [Words ''4. Crypto Transactions Are Irreversible'',
       Words (''All on-chain transactions (funding prize pools, claiming prizes) are final and irreversible. AMP cannot '' @
            ''reverse, refund, or modify a transaction once it is confirmed on Avalanche. Users must verify addresses and '' @
            ''amounts before submitting any transaction.'')],
      [Words ''5. No Warranty - Software Provided As-Is'',
       Words (''The AMP software is open-source (Apache 2.0) and provided \"as is\" without warranty of any kind, express or '' @
            ''implied, including but not limited to the warranties of merchantability, fitness for a particular purpose, and '' @
            ''non-infringement. The developers make no guarantee that the software will be error-free, uninterrupted, or '' @
            ''secure.'')],
      [Words ''6. User Responsibility'',
       Words (''Users are solely responsible for: (a) maintaining the security of their private keys and wallets; (b) complying '' @
            ''with all applicable laws in their jurisdiction, including tax reporting obligations for any prizes received; '' @
            ''(c) providing accurate information when funding tournaments or claiming prizes.'')],
      [Words ''7. Privacy'',
       Words (''Wallet addresses used on AMP are public on the Avalanche blockchain. PayPal transactions are processed by '' @
            ''PayPal and subject to PayPal's privacy policy. AMP stores tournament data (brackets, results, prize amounts) in '' @
            ''its database but does not sell or share user data with third parties.'')],
      [Words ''8. Limitation of Liability'',
       Words (''To the maximum extent permitted by law, the AMP developers and contributors shall not be liable for any '' @
            ''indirect, incidental, special, consequential, or punitive damages, or any loss of profits or revenues, whether '' @
            ''incurred directly or indirectly, or any loss of data, use, or goodwill, arising out of or related to the use of '' @
            ''the AMP software or platform.'')],
      [Words ''9. Contact'',
       Words ''Questions? Email'',
       Link ''brad@kodr.pro'' ''mailto:brad@kodr.pro'',
       Words ''.''],
      [Words ''10. Open Source'',
       Words ''AMP is licensed under the Apache License, Version 2.0. The full source code is available at'',
       Link ''github.com/BradMyrick/Avalanche-Matchmaking-Protocol'' ''https://github.com/BradMyrick/Avalanche-Matchmaking-Protocol'',
       Words ''.'']]"

definition terms_view :: "'a item list" where
  "terms_view =
     [Link ''<- Back to AMP'' ''/'',
      Words ''Terms & Disclaimers'',
      Words ''Last updated: August 2026''] @
     concat terms_sections @
     [Words ''(c) 2026 AMP - Avalanche Matchmaking Protocol. Backed by Avalanche Build Games 2026.'']"


end
