(* ===== verification/Site_Map.thy ===== *)
theory Site_Map
  imports Home Dashboard Claim Session Arena_View
begin

text \<open>
  The pages as a site: where the links of every page lead. The pages that exist are the directories
  under \<open>app\<close>; a link may also name a block of its own page or leave the site.
  The claim links of the consoles are followed to the claim page.
\<close>

named_theorems linking "the links of the elements of a page"

section \<open>Links\<close>

primrec item_links :: "'a item \<Rightarrow> string list" where
  "item_links (Words w) = []"
| "item_links Spinner = []"
| "item_links (Link w target) = [target]"
| "item_links (Jump w target a) = [target]"
| "item_links (Button w enabled a) = []"
| "item_links (Choice w active a) = []"
| "item_links (Field w x f) = []"

definition links :: "'a item list \<Rightarrow> string list" where
  "links v = concat (map item_links v)"

text \<open>The routes of the directories under \<open>app\<close>; \<open>[id]\<close> stands for any one segment.\<close>

definition site_pages :: "string list" where
  "site_pages = [''/'', ''/arena'', ''/claim'', ''/dashboard'', ''/setup'', ''/terms'']"

definition site_folders :: "string list" where
  "site_folders = [''/cup/'', ''/manage/'', ''/play/'']"

definition page_exists :: "string \<Rightarrow> bool" where
  "page_exists path \<longleftrightarrow> path \<in> set site_pages \<or>
     list_ex (\<lambda>f. startsWith path f \<and> (let i = drop (length f) path in i \<noteq> '''' \<and> CHR ''/'' \<notin> set i)) site_folders"

definition leads_outside :: "string \<Rightarrow> bool" where
  "leads_outside target \<longleftrightarrow> startsWith target ''https://'' \<or> startsWith target ''mailto:''"

definition link_ok :: "string list \<Rightarrow> string \<Rightarrow> bool" where
  "link_ok anchors target \<longleftrightarrow>
     leads_outside target \<or> startsWith target ''#'' \<and> drop 1 target \<in> set anchors \<or>
     page_exists (takeWhile (\<lambda>c. c \<noteq> CHR ''?'') target)"

definition links_ok :: "string list \<Rightarrow> 'a item list \<Rightarrow> bool" where
  "links_ok anchors v \<longleftrightarrow> list_all (link_ok anchors) (links v)"

text \<open>The links of a page with what they say.\<close>

primrec item_targets :: "'a item \<Rightarrow> (string \<times> string) list" where
  "item_targets (Words w) = []"
| "item_targets Spinner = []"
| "item_targets (Link w target) = [(w, target)]"
| "item_targets (Jump w target a) = [(w, target)]"
| "item_targets (Button w enabled a) = []"
| "item_targets (Choice w active a) = []"
| "item_targets (Field w x f) = []"

definition targets :: "'a item list \<Rightarrow> (string \<times> string) list" where
  "targets v = concat (map item_targets v)"

lemma targets_simps [simp]:
  "targets [] = []" "targets (i # v) = item_targets i @ targets v" "targets (v @ w) = targets v @ targets w"
  by (simp_all add: targets_def)

section \<open>The links of elements\<close>

lemma links_ok_items [linking]:
  "links_ok as []" "links_ok as (Words w # v) = links_ok as v" "links_ok as (Spinner # v) = links_ok as v"
  "links_ok as (Link w target # v) \<longleftrightarrow> link_ok as target \<and> links_ok as v"
  "links_ok as (Jump w target a # v) \<longleftrightarrow> link_ok as target \<and> links_ok as v"
  "links_ok as (Button w b a # v) = links_ok as v" "links_ok as (Choice w b a # v) = links_ok as v"
  "links_ok as (Field w x f # v) = links_ok as v" "links_ok as (v @ v') \<longleftrightarrow> links_ok as v \<and> links_ok as v'"
  "links_ok as (show_if b v) \<longleftrightarrow> (b \<longrightarrow> links_ok as v)"
  by (simp_all add: links_ok_def links_def show_if_def)

lemma links_ok_concat [linking]: "links_ok as (concat vs) \<longleftrightarrow> list_all (links_ok as) vs"
  by (induction vs) (simp_all add: links_ok_def links_def)

lemma links_ok_map [linking]: "links_ok as (map f xs) \<longleftrightarrow> list_all (\<lambda>x. links_ok as [f x]) xs"
  by (induction xs) (simp_all add: links_ok_def links_def)

lemma list_all_map' [linking]:
  "list_all P (map f xs) \<longleftrightarrow> list_all (\<lambda>x. P (f x)) xs" "list_all (\<lambda>x. True) xs"
  by (simp_all add: list_all_iff)

lemma list_all_pairs [linking]:
  "list_all (\<lambda>(a, b). True) ps" "list_all (\<lambda>(a, b, c). True) ts" "list_all (\<lambda>(a, b, c, d). True) qs"
  "(case p of (a, b) \<Rightarrow> True) \<longleftrightarrow> True"
  by (simp_all add: list_all_iff split: prod.split)

lemma links_ok_case [linking]:
  "links_ok as (case x of (a, b) \<Rightarrow> f a b) \<longleftrightarrow> (case x of (a, b) \<Rightarrow> links_ok as (f a b))"
  "links_ok as [case x of (a, b) \<Rightarrow> g a b] \<longleftrightarrow> (case x of (a, b) \<Rightarrow> links_ok as [g a b])"
  by (cases x, simp)+

text \<open>Numbers in a path: no slash and no question mark.\<close>

lemma show_int_plain: "show_int i \<noteq> ''''" "CHR ''/'' \<notin> set (show_int i)" "CHR ''?'' \<notin> set (show_int i)"
proof -
  have "CHR ''/'' \<notin> set (show_nat n) \<and> CHR ''?'' \<notin> set (show_nat n)" for n
  proof -
    obtain ds :: "nat list" where ds: "show_nat n = map (\<lambda>d. char_of (48 + d)) ds" "\<forall>d \<in> set ds. d < 10"
      using show_nat_as_digits [of n] by blast
    have "of_char c \<noteq> (47 :: nat) \<and> of_char c \<noteq> (63 :: nat)" if "c \<in> set (show_nat n)" for c
      using that ds digit_code by auto
    then show ?thesis by fastforce
  qed
  then show "show_int i \<noteq> ''''" "CHR ''/'' \<notin> set (show_int i)" "CHR ''?'' \<notin> set (show_int i)"
    using show_nat_plain(1) by (auto simp: show_int_def)
qed

lemma folder_link [linking]:
  "link_ok as (''/cup/'' @ show_int i)" "link_ok as (''/play/'' @ show_int i)" "link_ok as (''/manage/'' @ show_int i)"
proof -
  have whole: "takeWhile (\<lambda>c. c \<noteq> CHR ''?'') (show_int i) = show_int i"
    using show_int_plain(3) [of i] by (auto simp: takeWhile_eq_all_conv)
  show "link_ok as (''/cup/'' @ show_int i)" "link_ok as (''/play/'' @ show_int i)" "link_ok as (''/manage/'' @ show_int i)"
    using show_int_plain(1,2) [of i] by (simp_all add: whole link_ok_def page_exists_def site_folders_def startsWith_def)
qed

lemma fixed_link [linking]:
  "link_ok as ''/''" "link_ok as ''/arena''" "link_ok as ''/setup''" "link_ok as ''/dashboard''" "link_ok as ''/terms''"
  "link_ok as (''/claim?tid='' @ query)"
  by (simp_all add: link_ok_def page_exists_def site_pages_def startsWith_def)

lemma outside_link [linking]:
  "link_ok as ''mailto:brad@kodr.pro''"
  "link_ok as ''https://docs.page/bradmyrick/Avalanche-Matchmaking-Protocol''"
  "link_ok as ''https://github.com/bradmyrick/Avalanche-Matchmaking-Protocol''"
  "link_ok as ''https://github.com/BradMyrick/Avalanche-Matchmaking-Protocol''"
  by (simp_all add: link_ok_def leads_outside_def startsWith_def)

text \<open>The address of the block explorer is a setting of the site; its links leave the site when it is an address on
  the web, as the default is.\<close>

definition explorer_on_web :: "site_env \<Rightarrow> bool" where
  "explorer_on_web e \<longleftrightarrow> startsWith (EXPLORER_URL e) ''https://''"

lemma explorer_link [linking]:
  assumes "explorer_on_web e"
  shows "link_ok as (EXPLORER_URL e)" "link_ok as (EXPLORER_URL e @ path)" "link_ok as (contract_url e)"
proof -
  have "startsWith (u @ p) w" if "startsWith u w" for u p w
  proof -
    from that have "length w \<le> length u" unfolding startsWith_def by (metis length_take min.cobounded1)
    with that show ?thesis by (simp add: startsWith_def)
  qed
  with assms have "startsWith (EXPLORER_URL e @ p) ''https://''" for p by (simp add: explorer_on_web_def)
  from this this [of "[]"] show "link_ok as (EXPLORER_URL e)" "link_ok as (EXPLORER_URL e @ path)" "link_ok as (contract_url e)"
    by (simp_all add: link_ok_def leads_outside_def contract_url_def)
qed

lemmas linking_rules = linking if_split simp_thms append.simps(1) append_Nil2

section \<open>The pages\<close>

lemma setup_links [linking]:
  assumes web: "explorer_on_web e"
  shows "links_ok as (setup_view isAddress e clientId s)"
proof -
  have row: "links_ok as (row_items l x None)" "links_ok as (row_items l x (Some (EXPLORER_URL e @ path)))"
    "links_ok as (row_items l x (Some (contract_url e)))" for l x path
    by (simp_all add: row_items_def no_string_def linking web)
  have nav: "links_ok as (nav_row a1 nxt)" for a1 :: setup_action and nxt
    by (simp add: nav_row_def linking web split: option.split)
  have winner: "links_ok as (winner_row t w)" for t and w
    by (simp only: winner_row_def linking web append_assoc simp_thms split: option.split)
  have "links_ok as (live_panel e r)" "links_ok as (failed_panel msg)" "links_ok as (prize_step f)"
    "links_ok as (winners_step isAddress f)" "links_ok as (fund_step clientId s)" for r msg f
  proof -
    show "links_ok as (live_panel e r)"
      by (simp only: live_panel_def linking web row winner append_assoc simp_thms split: option.split if_split)
    show "links_ok as (failed_panel msg)" by (simp only: failed_panel_def linking web)
    show "links_ok as (prize_step f)" by (simp only: prize_step_def linking web nav simp_thms)
    show "links_ok as (winners_step isAddress f)"
      by (simp only: winners_step_def Let_def linking web nav simp_thms split: if_split)
    show "links_ok as (fund_step clientId s)"
      by (simp only: fund_step_def Let_def linking web nav row simp_thms split: if_split option.split)
  qed
  then show ?thesis
    by (simp only: setup_view_def setup_header_def stepper_def linking web simp_thms split: option.split sum.split)
qed

lemma home_links:
  assumes web: "explorer_on_web e"
  shows "links_ok (home_anchors e h) (home_view e h)"
proof -
  have anchor: "link_ok (home_anchors e h) t" if "startsWith t ''#''" "drop 1 t \<in> set (home_anchors e h)" for t
    using that by (simp add: link_ok_def)
  have ids: "home_anchors e h = [''features'', ''showcase'', ''why-amp'', ''demo'', ''fuji'', ''api'', ''security'', ''partner'']"
    by (simp only: home_anchors_def home_blocks_def list.map fst_conv filter.simps list.distinct simp_thms if_True if_False)
  have "link_ok (home_anchors e h) t"
    if "t \<in> {''#features'', ''#why-amp'', ''#showcase'', ''#demo'', ''#fuji'', ''#api''}" for t
    using that by (intro anchor) (auto simp: ids startsWith_def)
  then have anchors: "link_ok (home_anchors e h) ''#features''" "link_ok (home_anchors e h) ''#why-amp''"
    "link_ok (home_anchors e h) ''#showcase''" "link_ok (home_anchors e h) ''#demo''" "link_ok (home_anchors e h) ''#fuji''"
    "link_ok (home_anchors e h) ''#api''" by blast+
  have tabs: "links_ok as (engine_tabs t)" for as t
    by (simp only: engine_tabs_def linking web simp_thms)
  have tx: "links_ok as (tx_line tx)" for as and tx
    by (simp only: tx_line_def linking web simp_thms)
  have demo: "links_ok as (demo_view k)" for as and k
    by (simp only: demo_view_def linking web simp_thms split: prod.split)
  have feed: "links_ok as (feed_view e s)" for as and s
    by (simp only: feed_view_def linking web tx simp_thms)
  have "links_ok as (why_amp :: engine_tab item list)" for as
    by (simp only: why_amp_def linking web simp_thms)
  moreover have "links_ok (home_anchors e h) (home_nav :: engine_tab item list)"
    by (simp only: home_nav_def linking web anchors simp_thms)
  moreover have "links_ok as (showcase :: engine_tab item list)" "links_ok as (security_audits :: engine_tab item list)"
    "links_ok as (partner :: engine_tab item list)" "links_ok as (grant_badge :: engine_tab item list)"
    "links_ok as (home_hero (rotating_word k) :: engine_tab item list)" "links_ok as (home_features :: engine_tab item list)"
    "links_ok as (home_footer :: engine_tab item list)" for as k
    by (simp_all only: showcase_def security_audits_def partner_def grant_badge_def home_hero_def rotating_word_def
        home_features_def home_footer_def linking web simp_thms)
  ultimately show ?thesis
    by (simp only: home_view_def home_blocks_def list.map snd_conv concat.simps linking web tabs demo feed simp_thms)
qed

lemma terms_links: "links_ok as terms_view"
  by (simp only: terms_view_def terms_sections_def concat.simps linking simp_thms)

lemma claim_links:
  assumes web: "explorer_on_web e"
  shows "links_ok as (claim_view e s)"
  by (simp only: claim_view_def claim_fields_def claim_button_def claim_outcome_def linking web simp_thms split: if_split)

lemma dashboard_links: "links_ok as (dashboard_view ether day s)"
  by (simp only: dashboard_view_def dashboard_header_def connect_panel_def dashboard_card_def linking simp_thms split: if_split)

lemma arena_links: "links_ok as (arena_view clock misconfigured a)"
proof -
  have "links_ok as (panel_items clock a p)" for p
    by (simp only: panel_items_def login_panel_def offline_panel_def result_panel_def picker_panel_def ruleset_choices_def
        rating_line_def window_line_def history_panel_def queue_panel_def match_panel_def Let_def linking simp_thms
        split: panel.split option.split if_split)
  then show ?thesis
    by (simp only: arena_view_def coming_soon_def arena_header_def linking simp_thms split: if_split)
qed

lemma links_ok_screen [linking]:
  "links_ok as (on_screen (Inr v))"  if "links_ok as v" for v
  using that by (simp add: on_screen_def)

lemma links_ok_bind [linking]:
  "links_ok as (on_screen (bind_result r f))" if "\<And>x. r = Inr x \<Longrightarrow> links_ok as (on_screen (f x))"
  using that by (cases r) (simp_all add: on_screen_def links_ok_def links_def)

lemma manage_links:
  assumes web: "explorer_on_web e"
  shows "links_ok as (on_screen (manage_view e ether tid s))"
proof -
  have side: "links_ok as (manage_side c i x)" for c i x
    by (simp only: manage_side_def linking web simp_thms)
  then have "links_ok as (manage_match b t m)" for b t m
    by (simp only: manage_match_def Let_def linking web simp_thms)
  then have rounds: "links_ok as (manage_rounds b t)" for b t
    by (simp only: manage_rounds_def linking web simp_thms)
  have final: "links_ok as (finalize_panel tid s ids)" for ids
    by (simp only: finalize_panel_def linking web append_assoc simp_thms split: option.split if_split)
  have header: "links_ok as (manage_header e ether tid s rec b t)" for rec b t
    by (simp only: manage_header_def Let_def linking web simp_thms)
  have "links_ok as (case (rc, t, b) of (Some rec, Some t, Some b) \<Rightarrow>
      manage_header e ether tid s rec b t @ manage_rounds b t @ show_if (isComplete t) (finalize_panel tid s ids) |
    _ \<Rightarrow> not_found msg)" for rc t b ids msg
    by (simp only: not_found_def prod.case linking web header rounds final simp_thms split: option.split)
  then show ?thesis
    by (simp only: manage_view_def) (intro links_ok_bind links_ok_screen; simp only: linking web simp_thms split: if_split)
qed

lemma play_links: "links_ok as (on_screen (play_page tid s))"
proof -
  have "links_ok as (report_buttons s side)" "links_ok as (status_items s opp)" for side opp
    by (simp_all only: report_buttons_def status_items_def linking simp_thms split: option.split if_split)
  then have "links_ok as (play_match_panel s b me m)" for b me m
    by (simp only: play_match_panel_def Let_def linking simp_thms split: option.split if_split prod.split)
  moreover have idle: "links_ok as v" if "play_idle_panel me engine = Inr v" for me engine v
  proof -
    have "links_ok as (on_screen (play_idle_panel me engine))"
      by (simp only: play_idle_panel_def linking simp_thms split: option.split if_split)
    with that show ?thesis by (simp add: on_screen_def)
  qed
  ultimately have panel: "links_ok as v"
    if "(case m of None \<Rightarrow> play_idle_panel me engine
         | Some (p, m) \<Rightarrow> Inr (case b of None \<Rightarrow> [] | Some b \<Rightarrow> play_match_panel s b me m)) = Inr v" for m me engine b v
    using that by (auto simp: linking split: option.splits prod.splits)
  show ?thesis
    by (simp only: play_page_def Let_def)
      (intro links_ok_bind, simp only: linking panel simp_thms split: if_split option.split)
qed

lemma cup_links:
  assumes web: "explorer_on_web e"
  shows "links_ok as (on_screen (cup_view e tid s))"
proof -
  have row: "links_ok as (cup_row_items r)" for r
    by (simp only: cup_row_items_def linking web simp_thms split: option.split)
  have rounds: "links_ok as (cup_rounds b t)" for b t
    by (simp only: cup_rounds_def linking web row simp_thms)
  have header: "links_ok as (cup_header tid s b t champ)" for b t champ
    by (simp only: cup_header_def Let_def linking web simp_thms split: option.split)
  have standings: "links_ok as (cup_standing_items rows)" for rows
    by (simp only: cup_standing_items_def linking web simp_thms)
  show ?thesis
    by (simp only: cup_view_def) (intro links_ok_bind,
      simp only: not_found_def linking web rounds header standings prod.case simp_thms split: if_split option.split)
qed

section \<open>The site\<close>

text \<open>C37. The site has no dead links: whatever their state, every link of the landing page, the terms, the launch page, the
  organizer's, the player's and the spectator's page of any cup, the arena, the dashboard and the claim page
  leads out of the site, to a block of the same page, or to a page that exists; so do the pages that the launch
  page and the dashboard open by themselves. The explorer of the chain, which is a setting, is taken to be on the web.\<close>

theorem no_dead_links:
  assumes "explorer_on_web e"
  shows "links_ok (home_anchors e h) (home_view e h) \<and> links_ok [] terms_view \<and>
   links_ok [] (setup_view isAddress e clientId sp) \<and> links_ok [] (on_screen (manage_view e ether tid mg)) \<and>
   links_ok [] (on_screen (play_page tid pl)) \<and> links_ok [] (on_screen (cup_view e tid cp)) \<and>
   links_ok [] (arena_view clock misconfigured ar) \<and> links_ok [] (dashboard_view ether day db) \<and>
   links_ok [] (claim_view e cl) \<and>
   (\<exists>t. sp_location (launch_ends (Manage tid) sp) = Some t \<and> link_ok [] t) \<and>
   db_location (fst (dashboard_signed tid reply s)) \<in> insert (db_location (fst s)) (Some ` {t. link_ok [] t})"
proof (intro conjI)
  show "\<exists>t. sp_location (launch_ends (Manage tid) sp) = Some t \<and> link_ok [] t"
    by (simp add: launch_ends_def folder_link del: append.simps)
  show "db_location (fst (dashboard_signed tid reply s)) \<in> insert (db_location (fst s)) (Some ` {t. link_ok [] t})"
    by (auto simp: dashboard_signed_def intro: folder_link simp del: append.simps split: prod.split sum.split)
qed (fact home_links [OF assms] terms_links setup_links [OF assms] manage_links [OF assms] play_links cup_links [OF assms]
  arena_links dashboard_links claim_links [OF assms])+

text \<open>C35. Every claim link opens the claim it names. The links of the organizer's panel of a finalized cup are one per paid
  place that has a winner, in order, each with the name of its place, and the panel of a cup that is not finalized has none; the
  winners of the launch page have one link each when the cup has an id. The claim page that such a link opens has the
  tournament id and the place of the link in its form, its button is enabled, and the click sends \<open>claimPrize\<close> for
  exactly that tournament and place from the connected wallet.\<close>

theorem claim_links_claim:
  "list_all2 (\<lambda>(w, l) i. w = ''claim '' @ or_else (ordinal i) '''' \<and> opens_claim e ether c l tid i)
     (targets (finalize_panel tid s ids))
     (if isFinalized s then [0..<case mg_record s of None \<Rightarrow> 0 | Some rec \<Rightarrow> min (placements s) (length (r_winnerWallets rec))] else []) \<and>
   list_all2 (\<lambda>(w, l) i. w = ''claim'' \<and> opens_claim e ether c l tid i)
     (targets (concat (map (winner_row (Some tid)) ws))) (map fst ws) \<and>
   targets (concat (map (winner_row None) ws)) = []"
proof (intro conjI)
  have rows: "targets (concat (map (\<lambda>(place, name, wallet).
      [Words (or_else place ''''), Words (or_else name ''-''), Words (or_else wallet '''')]) rows)) = []" for rows
    by (induction rows) auto
  have error: "targets (case mg_error s of None \<Rightarrow> [] | Some e \<Rightarrow> [Words e]) = []" by (simp split: option.split)
  have map_targets: "targets (map (\<lambda>i. Link (f i) (g i)) xs) = map (\<lambda>i. (f i, g i)) xs" for f g and xs :: "nat list"
    by (induction xs) simp_all
  have "targets (finalize_panel tid s ids) =
      map (\<lambda>i. (''claim '' @ or_else (ordinal i) '''', ''/claim?tid='' @ show_int tid @ ''&place='' @ show_nat i))
        (if isFinalized s then [0..<case mg_record s of None \<Rightarrow> 0 | Some rec \<Rightarrow> min (placements s) (length (r_winnerWallets rec))] else [])"
    by (simp add: finalize_panel_def rows error claim_links_def comp_def map_targets del: append.simps split: option.split)
  then show "list_all2 (\<lambda>(w, l) i. w = ''claim '' @ or_else (ordinal i) '''' \<and> opens_claim e ether c l tid i)
     (targets (finalize_panel tid s ids))
     (if isFinalized s then [0..<case mg_record s of None \<Rightarrow> 0 | Some rec \<Rightarrow> min (placements s) (length (r_winnerWallets rec))] else [])"
    using claim_link_opens by (simp only: list_all2_map1 prod.case) (rule list.rel_refl, blast)
  have row: "targets (winner_row (Some tid) w) = [(''claim'', ''/claim?tid='' @ show_int tid @ ''&place='' @ show_nat (fst w))]"
    "targets (winner_row None w) = []" for w
    by (simp_all add: winner_row_def del: append.simps split: option.split)
  show "list_all2 (\<lambda>(w, l) i. w = ''claim'' \<and> opens_claim e ether c l tid i)
     (targets (concat (map (winner_row (Some tid)) ws))) (map fst ws)"
  proof (induction ws)
    case (Cons w ws)
    then show ?case using claim_link_opens [of e ether c tid "fst w"] by (simp add: row)
  qed simp
  show "targets (concat (map (winner_row None) ws)) = []" by (induction ws) (simp_all add: row)
qed

section \<open>A closed instance\<close>

theorem no_dead_links_witness:
  "links_ok (home_anchors demo_env (home_start False None)) (home_view demo_env (home_start False None)) \<and>
    links_ok [] (setup_view (\<lambda>_. True) demo_env ''id'' setup_start)"
proof -
  have "explorer_on_web demo_env" by (simp add: explorer_on_web_def demo_env_def EXPLORER_URL_def or_string_def no_string_def startsWith_def)
  from no_dead_links [OF this] show ?thesis by blast
qed

text \<open>The request that \<open>components/EngineTabs.tsx\<close> shows as an example, with a wallet, a match and an outcome only, is
  refused by the route it names.\<close>

lemma sample_report_refused:
  "report_route v now \<lparr>q_contentLength = Some 47, q_tid = Some 42, q_wallet = Some ''0xabc...'', q_matchId = Some 7,
     q_outcome = Some ''A'', q_nonce = None, q_ts = None, q_sig = None\<rparr> d =
     (Err 400 ''wallet, matchId, outcome, nonce, ts, sig required'', d)"
  by (simp add: report_route_def validateBodySize_def MAX_BODY_def no_string_def)

end
